(* ===== verification/Js_Prelude.thy ===== *)
theory Js_Prelude
  imports Main "HOL-Library.AList" "HOL-Library.Sublist"
begin

text \<open>
  What the TypeScript sources take from the language and its standard library, and the
  lemmas every component shares.

  \<^item> Strings. A JavaScript string is a sequence of code units; here it is a
    \<open>string\<close>, so code units range over \<open>0..255\<close> (the Latin-1 part of UTF-16, on which
    \<open>toLowerCase\<close>, \<open>trim\<close> and UTF-8 encoding below are exact).
  \<^item> \<open>Map\<close>. An insertion-ordered JavaScript \<open>Map\<close> is an association list: \<open>set\<close> is
    \<open>AList.update\<close> (an existing key keeps its place, a new one is appended), \<open>delete\<close> is
    \<open>AList.delete\<close>, \<open>get\<close> is \<open>map_of\<close>. The interface \<open>insertion_ordered_map\<close> states its
    laws and \<open>js_map\<close> interprets it.
  \<^item> Values of type \<open>unknown\<close> are \<open>js_value\<close>; thrown exceptions and failed results are
    the left summand of a sum.
  \<^item> The locale \<open>guarded_machine\<close> lifts a one-step invariant of a component to every run.
\<close>

named_theorems js_string \<open>evaluation rules of the string library\<close>
named_theorems js_map_simps \<open>laws of insertion-ordered maps\<close>

type_synonym 'v js_map = "(string \<times> 'v) list"

section \<open>Characters and strings\<close>

definition code_unit :: "char \<Rightarrow> nat" where
  "code_unit c = of_char c"

abbreviation backslash :: char where "backslash \<equiv> CHR 0x5C"

definition js_is_space :: "char \<Rightarrow> bool" where
  "js_is_space c \<longleftrightarrow> code_unit c \<in> {9, 10, 11, 12, 13, 32, 160}"

definition js_is_digit :: "char \<Rightarrow> bool" where
  "js_is_digit c \<longleftrightarrow> 48 \<le> code_unit c \<and> code_unit c \<le> 57"

definition js_is_alpha :: "char \<Rightarrow> bool" where
  "js_is_alpha c \<longleftrightarrow>
     (65 \<le> code_unit c \<and> code_unit c \<le> 90) \<or> (97 \<le> code_unit c \<and> code_unit c \<le> 122)"

definition js_lower_char :: "char \<Rightarrow> char" where
  "js_lower_char c =
     (if (65 \<le> code_unit c \<and> code_unit c \<le> 90) \<or>
         (192 \<le> code_unit c \<and> code_unit c \<le> 222 \<and> code_unit c \<noteq> 215)
      then char_of (code_unit c + 32) else c)"

definition js_lower :: "string \<Rightarrow> string" where
  "js_lower = map js_lower_char"

definition js_trim_start :: "string \<Rightarrow> string" where
  "js_trim_start = dropWhile js_is_space"

definition js_trim_end :: "string \<Rightarrow> string" where
  "js_trim_end s = rev (dropWhile js_is_space (rev s))"

definition js_trim :: "string \<Rightarrow> string" where
  "js_trim s = js_trim_end (js_trim_start s)"

definition js_strip_end :: "(char \<Rightarrow> bool) \<Rightarrow> string \<Rightarrow> string" where
  "js_strip_end p s = rev (dropWhile p (rev s))"

definition js_slice :: "nat \<Rightarrow> nat \<Rightarrow> 'a list \<Rightarrow> 'a list" where
  "js_slice i j xs = take (j - i) (drop i xs)"

fun js_index_of :: "char \<Rightarrow> string \<Rightarrow> nat option" where
  "js_index_of d [] = None"
| "js_index_of d (c # cs) = (if c = d then Some 0 else map_option Suc (js_index_of d cs))"

definition js_last_index_of :: "char \<Rightarrow> string \<Rightarrow> nat option" where
  "js_last_index_of d s = map_option (\<lambda>i. length s - Suc i) (js_index_of d (rev s))"

fun js_split :: "char \<Rightarrow> string \<Rightarrow> string list" where
  "js_split d [] = [[]]"
| "js_split d (c # cs) =
     (if c = d then [] # js_split d cs
      else case js_split d cs of [] \<Rightarrow> [[c]] | w # ws \<Rightarrow> (c # w) # ws)"

fun js_join :: "string \<Rightarrow> string list \<Rightarrow> string" where
  "js_join sep [] = []"
| "js_join sep [x] = x"
| "js_join sep (x # y # ys) = x @ sep @ js_join sep (y # ys)"

definition js_pieces :: "char \<Rightarrow> string \<Rightarrow> string list" where
  \<comment> \<open>\<open>s.split(d).filter(Boolean)\<close>\<close>
  "js_pieces d s = filter (\<lambda>w. w \<noteq> []) (js_split d s)"

definition js_or :: "string \<Rightarrow> string \<Rightarrow> string" where
  \<comment> \<open>\<open>a || b\<close> on strings\<close>
  "js_or a b = (if a = [] then b else a)"

fun js_or_opt :: "string option \<Rightarrow> string \<Rightarrow> string" where
  \<comment> \<open>\<open>a || b\<close> where \<open>a\<close> may be undefined\<close>
  "js_or_opt None b = b"
| "js_or_opt (Some a) b = js_or a b"

lemma code_unit_less [simp]: "code_unit c < 256"
  by (simp add: code_unit_def)

lemma code_unit_inject [simp]: "code_unit c = code_unit d \<longleftrightarrow> c = d"
  by (simp add: code_unit_def)

lemma js_split_not_Nil [simp]: "js_split d s \<noteq> []"
  by (induction s) (auto split: list.splits)

lemma js_split_no_sep: "w \<in> set (js_split d s) \<Longrightarrow> d \<notin> set w"
  by (induction s arbitrary: w) (auto split: list.splits if_splits)

lemma js_join_Cons: "xs \<noteq> [] \<Longrightarrow> js_join sep (x # xs) = x @ sep @ js_join sep xs"
  by (cases xs) auto

lemma js_join_split [simp]: "js_join [d] (js_split d s) = s"
proof (induction s)
  case (Cons c cs)
  then show ?case
    by (cases "js_split d cs"; cases "tl (js_split d cs)") (auto simp: js_join_Cons)
qed simp

lemma js_split_append_sep:
  "d \<notin> set x \<Longrightarrow> js_split d (x @ d # s) = x # js_split d s"
  by (induction x) auto

lemma js_split_single: "d \<notin> set x \<Longrightarrow> js_split d x = [x]"
  by (induction x) auto

lemma js_split_join:
  assumes "xs \<noteq> []" and "\<forall>x \<in> set xs. d \<notin> set x"
  shows "js_split d (js_join [d] xs) = xs"
  using assms by (induction "[d]" xs rule: js_join.induct) (auto simp: js_split_append_sep js_split_single)

lemma js_pieces_join:
  assumes "\<forall>x \<in> set xs. x \<noteq> [] \<and> d \<notin> set x"
  shows "js_pieces d (js_join [d] xs) = xs"
proof (cases "xs = []")
  case False
  with assms have "js_split d (js_join [d] xs) = xs" by (auto intro: js_split_join)
  with assms show ?thesis by (simp add: js_pieces_def)
qed (simp add: js_pieces_def)

lemma js_pieces_wf:
  "w \<in> set (js_pieces d s) \<Longrightarrow> w \<noteq> [] \<and> d \<notin> set w"
  by (auto simp: js_pieces_def js_split_no_sep)

lemma js_pieces_idem [simp]: "js_pieces d (js_join [d] (js_pieces d s)) = js_pieces d s"
  by (rule js_pieces_join) (auto dest: js_pieces_wf)

lemma js_join_eq_Nil: "\<forall>x \<in> set xs. x \<noteq> [] \<Longrightarrow> js_join sep xs = [] \<longleftrightarrow> xs = []"
  by (induction sep xs rule: js_join.induct) auto

lemma js_join_append:
  "xs \<noteq> [] \<Longrightarrow> ys \<noteq> [] \<Longrightarrow> js_join sep (xs @ ys) = js_join sep xs @ sep @ js_join sep ys"
proof (induction xs)
  case (Cons x xs)
  then show ?case by (cases "xs = []") (auto simp: js_join_Cons)
qed simp

lemma set_js_join: "set (js_join sep xs) \<subseteq> (\<Union>x\<in>set xs. set x) \<union> set sep"
  by (induction sep xs rule: js_join.induct) auto

lemma js_split_append:
  "js_split d (s @ d # t) = js_split d s @ js_split d t"
  by (induction s) (auto split: list.splits)

lemma js_pieces_append: "js_pieces d (s @ d # t) = js_pieces d s @ js_pieces d t"
  by (simp add: js_pieces_def js_split_append)

lemma js_index_of_None: "js_index_of d s = None \<longleftrightarrow> d \<notin> set s"
  by (induction s) auto

lemma js_index_of_Some:
  "js_index_of d s = Some i \<Longrightarrow> i < length s \<and> s ! i = d \<and> d \<notin> set (take i s)"
proof (induction s arbitrary: i)
  case (Cons c cs)
  then show ?case by (cases i) (auto split: if_splits)
qed simp

lemma js_index_of_append: "d \<notin> set x \<Longrightarrow> js_index_of d (x @ d # y) = Some (length x)"
  by (induction x) auto

lemma js_lower_Nil [simp]: "js_lower [] = []"
  by (simp add: js_lower_def)

lemma js_lower_append [simp]: "js_lower (s @ t) = js_lower s @ js_lower t"
  by (simp add: js_lower_def)

lemma js_lower_Cons: "js_lower (c # s) = js_lower_char c # js_lower s"
  by (simp add: js_lower_def)

lemma js_strip_end_prefix: "prefix (js_strip_end p s) s"
  by (metis js_strip_end_def rev_rev_ident suffix_dropWhile suffix_to_prefix)

section \<open>Insertion-ordered maps\<close>

text \<open>
  The contract of JavaScript's \<open>Map\<close>: what \<open>get\<close> answers after \<open>set\<close> and \<open>delete\<close>, and in
  which order the keys are iterated.
\<close>

locale insertion_ordered_map =
  fixes empty :: "'m"
    and get :: "'m \<Rightarrow> 'k \<Rightarrow> 'v option"
    and put :: "'k \<Rightarrow> 'v \<Rightarrow> 'm \<Rightarrow> 'm"
    and del :: "'k \<Rightarrow> 'm \<Rightarrow> 'm"
    and keys_in_order :: "'m \<Rightarrow> 'k list"
    and invar :: "'m \<Rightarrow> bool"
  assumes get_empty: "get empty k = None"
    and get_put: "invar m \<Longrightarrow> get (put k v m) = (get m)(k \<mapsto> v)"
    and get_del: "invar m \<Longrightarrow> get (del k m) = (get m)(k := None)"
    and keys_empty: "keys_in_order empty = []"
    and keys_put: "invar m \<Longrightarrow> keys_in_order (put k v m) =
          (if k \<in> set (keys_in_order m) then keys_in_order m else keys_in_order m @ [k])"
    and keys_del: "invar m \<Longrightarrow> keys_in_order (del k m) = filter (\<lambda>j. j \<noteq> k) (keys_in_order m)"
    and keys_dom: "invar m \<Longrightarrow> set (keys_in_order m) = dom (get m)"
    and invar_empty: "invar empty"
    and invar_put: "invar m \<Longrightarrow> invar (put k v m)"
    and invar_del: "invar m \<Longrightarrow> invar (del k m)"
begin

lemma get_put_same: "invar m \<Longrightarrow> get (put k v m) k = Some v"
  by (simp add: get_put)

lemma get_put_other: "invar m \<Longrightarrow> j \<noteq> k \<Longrightarrow> get (put k v m) j = get m j"
  by (simp add: get_put)

lemma put_put_same: "invar m \<Longrightarrow> get (put k w (put k v m)) = get (put k w m)"
  by (simp add: get_put invar_put)

lemma keys_put_existing:
  "invar m \<Longrightarrow> get m k \<noteq> None \<Longrightarrow> keys_in_order (put k v m) = keys_in_order m"
  by (auto simp: keys_put keys_dom)

lemma del_absent: "invar m \<Longrightarrow> get m k = None \<Longrightarrow> get (del k m) = get m"
  by (auto simp: get_del)

end

definition js_keys :: "('k \<times> 'v) list \<Rightarrow> 'k list" where
  "js_keys m = map fst m"

definition js_values :: "('k \<times> 'v) list \<Rightarrow> 'v list" where
  "js_values m = map snd m"

definition js_map_ok :: "('k \<times> 'v) list \<Rightarrow> bool" where
  "js_map_ok m \<longleftrightarrow> distinct (map fst m)"

lemma keys_alist_update:
  "map fst (AList.update k v m) =
     (if k \<in> set (map fst m) then map fst m else map fst m @ [k])"
  by (induction m) auto

lemma keys_alist_delete: "map fst (AList.delete k m) = filter (\<lambda>j. j \<noteq> k) (map fst m)"
  by (induction m) (auto simp: AList.delete_eq)

interpretation js_map: insertion_ordered_map
  "[]" "map_of :: ('k \<times> 'v) list \<Rightarrow> 'k \<Rightarrow> 'v option" AList.update AList.delete js_keys js_map_ok
proof (unfold_locales, goal_cases)
  case (2 m k v)
  show ?case by (simp add: update_conv')
next
  case (3 m k)
  show ?case by (simp add: delete_conv')
next
  case (5 m k v)
  show ?case by (simp add: js_keys_def keys_alist_update)
next
  case (6 m k)
  show ?case by (simp add: js_keys_def keys_alist_delete)
next
  case (7 m)
  show ?case by (simp add: js_keys_def dom_map_of_conv_image_fst)
next
  case (9 m k v)
  then show ?case by (simp add: js_map_ok_def distinct_update)
next
  case (10 m k)
  then show ?case by (simp add: js_map_ok_def distinct_delete)
qed (simp_all add: js_keys_def js_map_ok_def)

lemmas [js_map_simps] = update_conv' delete_conv' js_map.invar_empty js_map.invar_put js_map.invar_del

lemma js_map_ok_Nil [simp]: "js_map_ok []"
  by (rule js_map.invar_empty)

lemma js_map_okD: "js_map_ok m \<Longrightarrow> (k, v) \<in> set m \<Longrightarrow> map_of m k = Some v"
  by (simp add: js_map_ok_def)

lemma js_map_ok_filter: "js_map_ok m \<Longrightarrow> js_map_ok (filter p m)"
  by (induction m) (auto simp: js_map_ok_def)

lemma js_map_ok_map_values: "js_map_ok m \<Longrightarrow> js_map_ok (map (\<lambda>(k, v). (k, f k v)) m)"
  by (simp add: js_map_ok_def case_prod_beta comp_def)

lemma map_of_map_values:
  "map_of (map (\<lambda>(k, v). (k, f k v)) m) k = map_option (f k) (map_of m k)"
  by (induction m) auto

lemma map_of_filter_values:
  assumes "js_map_ok m"
  shows "map_of (filter (\<lambda>(k, v). p k v) m) k =
           (case map_of m k of None \<Rightarrow> None | Some v \<Rightarrow> if p k v then Some v else None)"
  using assms
proof (induction m)
  case (Cons a m)
  then have "js_map_ok m" and "fst a \<notin> fst ` set m" by (auto simp: js_map_ok_def)
  then have "k = fst a \<Longrightarrow> map_of (filter (\<lambda>(k, v). p k v) m) k = None"
    by (auto simp: map_of_eq_None_iff)
  with Cons \<open>js_map_ok m\<close> show ?case by (cases a) (auto split: option.splits)
qed simp

lemma alist_update_subset: "set (AList.update k v xs) \<subseteq> insert (k, v) (set xs)"
  by (induction xs) auto

lemma alist_update_keys: "fst ` set (AList.update k v xs) = insert k (fst ` set xs)"
  by (induction xs) auto

lemma alist_delete_subset: "set (AList.delete k xs) \<subseteq> set xs"
  by (auto simp: AList.delete_eq)

lemma alist_delete_keys: "fst ` set (AList.delete k xs) = fst ` set xs - {k}"
  by (auto simp: AList.delete_eq)

lemma list_all_update: "list_all P (map snd xs) \<Longrightarrow> P v \<Longrightarrow> list_all P (map snd (AList.update k v xs))"
  by (induction xs) auto

lemma list_all_delete: "list_all P (map snd xs) \<Longrightarrow> list_all P (map snd (AList.delete k xs))"
  by (induction xs) (auto simp: AList.delete_eq)

section \<open>Values of unknown type\<close>

datatype js_value =
    JUndefined
  | JNull
  | JBool bool
  | JNum int
  | JStr string
  | JArr "js_value list"
  | JObj "(string \<times> js_value) list"

fun js_str_opt :: "string option \<Rightarrow> js_value" where
  "js_str_opt None = JUndefined"
| "js_str_opt (Some s) = JStr s"

text \<open>\<open>value[k]\<close> on a value that is not null or undefined.\<close>

fun js_field :: "js_value \<Rightarrow> string \<Rightarrow> js_value" where
  "js_field (JObj kvs) k = (case map_of kvs k of None \<Rightarrow> JUndefined | Some v \<Rightarrow> v)"
| "js_field _ _ = JUndefined"

section \<open>Numbers\<close>

definition max_safe_integer :: int where
  "max_safe_integer = 9007199254740991"

definition is_safe_integer :: "int \<Rightarrow> bool" where
  "is_safe_integer n \<longleftrightarrow> - max_safe_integer \<le> n \<and> n \<le> max_safe_integer"

definition digit_value :: "char \<Rightarrow> nat" where
  "digit_value c = code_unit c - 48"

definition nat_of_digits :: "string \<Rightarrow> nat" where
  "nat_of_digits s = foldl (\<lambda>n c. 10 * n + digit_value c) 0 s"

definition digit_char :: "nat \<Rightarrow> char" where
  "digit_char n = char_of (48 + n mod 10)"

fun digits_of_nat :: "nat \<Rightarrow> string" where
  "digits_of_nat n =
     (if n < 10 then [digit_char n] else digits_of_nat (n div 10) @ [digit_char (n mod 10)])"

declare digits_of_nat.simps [simp del]

lemma code_unit_digit_char [simp]: "code_unit (digit_char n) = 48 + n mod 10"
proof -
  have "n mod 10 < 10" by simp
  then have "48 + n mod 10 < 256" by linarith
  then show ?thesis by (simp add: code_unit_def digit_char_def)
qed

lemma digit_value_digit_char [simp]: "digit_value (digit_char n) = n mod 10"
  by (simp add: digit_value_def)

lemma js_is_digit_digit_char [simp]: "js_is_digit (digit_char n)"
proof -
  have "n mod 10 < 10" by simp
  then show ?thesis by (simp add: js_is_digit_def)
qed

lemma nat_of_digits_snoc [simp]:
  "nat_of_digits (s @ [c]) = 10 * nat_of_digits s + digit_value c"
  by (simp add: nat_of_digits_def)

lemma nat_of_digits_Nil [simp]: "nat_of_digits [] = 0"
  by (simp add: nat_of_digits_def)

lemma nat_of_digits_of_nat [simp]: "nat_of_digits (digits_of_nat n) = n"
proof (induction n rule: digits_of_nat.induct)
  case (1 n)
  show ?case
  proof (cases "n < 10")
    case True
    then have "nat_of_digits ([] @ [digit_char n]) = n"
      by (subst nat_of_digits_snoc) simp
    with True show ?thesis by (simp add: digits_of_nat.simps [of n])
  next
    case False
    with 1 show ?thesis by (simp add: digits_of_nat.simps [of n])
  qed
qed

lemma digits_of_nat_digits: "list_all js_is_digit (digits_of_nat n)"
proof (induction n rule: digits_of_nat.induct)
  case (1 n)
  then show ?case by (simp add: digits_of_nat.simps [of n])
qed

lemma digits_of_nat_not_Nil [simp]: "digits_of_nat n \<noteq> []"
  by (simp add: digits_of_nat.simps [of n])

lemma digits_of_nat_hd_zero: "n \<noteq> 0 \<Longrightarrow> code_unit (hd (digits_of_nat n)) \<noteq> 48"
proof (induction n rule: digits_of_nat.induct)
  case (1 n)
  show ?case
  proof (cases "n < 10")
    case True
    with 1 show ?thesis by (simp add: digits_of_nat.simps [of n])
  next
    case False
    then have "n div 10 \<noteq> 0" by auto
    with 1 False have "code_unit (hd (digits_of_nat (n div 10))) \<noteq> 48" by simp
    with False show ?thesis by (simp add: digits_of_nat.simps [of n])
  qed
qed

text \<open>Hexadecimal digits and the UTF-8 bytes of a character.\<close>

definition hex_value :: "char \<Rightarrow> nat option" where
  "hex_value c =
     (let u = code_unit c in
      if 48 \<le> u \<and> u \<le> 57 then Some (u - 48)
      else if 65 \<le> u \<and> u \<le> 70 then Some (u - 55)
      else if 97 \<le> u \<and> u \<le> 102 then Some (u - 87) else None)"

definition utf8_char :: "char \<Rightarrow> nat list" where
  "utf8_char c =
     (if code_unit c < 128 then [code_unit c]
      else [192 + code_unit c div 64, 128 + code_unit c mod 64])"

section \<open>Results and runs\<close>

fun bind_result :: "('e + 'a) \<Rightarrow> ('a \<Rightarrow> 'e + 'b) \<Rightarrow> 'e + 'b" where
  "bind_result (Inl e) f = Inl e"
| "bind_result (Inr a) f = f a"

lemma bind_result_Inr:
  "bind_result r f = Inr b \<longleftrightarrow> (\<exists>a. r = Inr a \<and> f a = Inr b)"
  by (cases r) auto

lemma bind_resultE:
  assumes "bind_result r f = Inr b"
  obtains a where "r = Inr a" "f a = Inr b"
  using assms by (cases r) auto

lemma bind_result_Inl: "bind_result r f = Inl e \<longleftrightarrow> r = Inl e \<or> (\<exists>a. r = Inr a \<and> f a = Inl e)"
  by (cases r) auto

fun traverse_result :: "('a \<Rightarrow> 'e + 'b) \<Rightarrow> 'a list \<Rightarrow> 'e + 'b list" where
  "traverse_result f [] = Inr []"
| "traverse_result f (x # xs) =
     bind_result (f x) (\<lambda>y. bind_result (traverse_result f xs) (\<lambda>ys. Inr (y # ys)))"

lemma traverse_result_Inr:
  "traverse_result f xs = Inr ys \<Longrightarrow> length ys = length xs \<and> list_all2 (\<lambda>x y. f x = Inr y) xs ys"
  by (induction xs arbitrary: ys) (auto simp: bind_result_Inr)

definition is_ok :: "'e + 'a \<Rightarrow> bool" where
  "is_ok r \<longleftrightarrow> (case r of Inl _ \<Rightarrow> False | Inr _ \<Rightarrow> True)"

lemma is_ok_simps [simp]: "\<not> is_ok (Inl e)" "is_ok (Inr a)"
  by (simp_all add: is_ok_def)

text \<open>
  State machines. \<open>transition_system\<close> is a step relation with an invariant: whatever steps are taken from
  an initial state, the invariant holds. \<open>guarded_machine\<close> is a component seen from its callers: one total
  step per call; its calls are a transition system.
\<close>

locale transition_system =
  fixes init :: "'s \<Rightarrow> bool"
    and trans :: "'s \<Rightarrow> 's \<Rightarrow> bool"
    and inv :: "'s \<Rightarrow> bool"
  assumes inv_init: "init s \<Longrightarrow> inv s"
    and inv_trans: "trans s s' \<Longrightarrow> inv s \<Longrightarrow> inv s'"
begin

lemma inv_star: "trans\<^sup>*\<^sup>* s s' \<Longrightarrow> inv s \<Longrightarrow> inv s'"
  by (induction rule: rtranclp_induct) (auto intro: inv_trans)

lemma inv_reached: "init s \<Longrightarrow> trans\<^sup>*\<^sup>* s s' \<Longrightarrow> inv s'"
  by (blast intro: inv_init inv_star)

end

locale guarded_machine =
  fixes start :: "'s \<Rightarrow> bool"
    and step :: "'c \<Rightarrow> 's \<Rightarrow> 's"
    and inv :: "'s \<Rightarrow> bool"
  assumes inv_start: "start s \<Longrightarrow> inv s"
    and inv_step: "inv s \<Longrightarrow> inv (step c s)"

sublocale guarded_machine \<subseteq> calls: transition_system start "\<lambda>s s'. \<exists>c. s' = step c s" inv
  by unfold_locales (auto intro: inv_start inv_step)

context guarded_machine
begin

lemma run_star: "(\<lambda>s s'. \<exists>c. s' = step c s)\<^sup>*\<^sup>* s (fold step cs s)"
proof (induction cs arbitrary: s)
  case (Cons c cs)
  have "(\<lambda>s s'. \<exists>c. s' = step c s)\<^sup>*\<^sup>* (step c s) (fold step cs (step c s))" by (rule Cons.IH)
  then show ?case by (auto intro: converse_rtranclp_into_rtranclp)
qed simp

lemma inv_run: "inv s \<Longrightarrow> inv (fold step cs s)"
  by (rule calls.inv_star [OF run_star])

lemma inv_reachable: "start s \<Longrightarrow> inv (fold step cs s)"
  by (blast intro: inv_start inv_run)

end

end
