(* ===== verification/Bridge.thy ===== *)
theory Bridge
  imports Js_Prelude
begin

text \<open>
  \<open>packages/desktop-foundation/src/bridge.ts\<close>: the result type every foundation component
  returns, the redaction of error details, permissions, argument validation, the wrapper
  around a registered handler, and the shell capability registry. An \<open>ApiResult\<close> is the sum
  \<open>bridge_error + 'a\<close>.
\<close>

section \<open>Results and redaction\<close>

record bridge_error =
  err_code :: string
  err_message :: string
  err_details :: js_value

type_synonym 'a api_result = "bridge_error + 'a"

fun js_includes :: "string \<Rightarrow> string \<Rightarrow> bool" where
  "js_includes p [] = (p = [])"
| "js_includes p (c # cs) = (prefix p (c # cs) \<or> js_includes p cs)"

definition SECRET_KEYS :: "string list" where
  "SECRET_KEYS = [''apikey'', ''api-key'', ''api_key'', ''token'', ''secret'', ''password'',
     ''credential'', ''authorization'']"

definition secret_key :: "string \<Rightarrow> bool" where
  "secret_key k = list_ex (\<lambda>p. js_includes p (js_lower k)) SECRET_KEYS"

definition token_char :: "char \<Rightarrow> bool" where
  "token_char c \<longleftrightarrow> js_is_alpha c \<or> js_is_digit c \<or> c = CHR ''_'' \<or> c = CHR ''-''"

fun token_run :: "nat \<Rightarrow> string \<Rightarrow> bool" where
  \<comment> \<open>\<open>/[A-Za-z0-9_-]{32,}/\<close>, \<open>k\<close> token characters read so far\<close>
  "token_run k [] = (32 \<le> k)"
| "token_run k (c # cs) =
     (32 \<le> k \<or> (if token_char c then token_run (Suc k) cs else token_run 0 cs))"

definition redacted :: js_value where
  "redacted = JStr ''[redacted]''"

fun redactBridgeDetails :: "js_value \<Rightarrow> js_value" where
  "redactBridgeDetails (JArr vs) = JArr (map redactBridgeDetails vs)"
| "redactBridgeDetails (JObj kvs) =
     JObj (map (\<lambda>kv. (fst kv,
                 if secret_key (fst kv) then redacted else redactBridgeDetails (snd kv))) kvs)"
| "redactBridgeDetails (JStr s) = (if token_run 0 s then redacted else JStr s)"
| "redactBridgeDetails v = v"

definition bridgeOk :: "'a \<Rightarrow> 'a api_result" where
  "bridgeOk d = Inr d"

definition bridgeFail :: "string \<Rightarrow> string \<Rightarrow> js_value \<Rightarrow> 'a api_result" where
  "bridgeFail code msg details =
     Inl \<lparr>err_code = code, err_message = msg, err_details = redactBridgeDetails details\<rparr>"

section \<open>Thrown errors, permissions and validation\<close>

datatype thrown =
    CodedError string string js_value  \<comment> \<open>an object with \<open>code\<close> and \<open>message\<close>\<close>
  | PlainError string                 \<comment> \<open>an \<open>Error\<close> without a code\<close>
  | OtherThrown js_value

fun mapBridgeError :: "thrown \<Rightarrow> string \<Rightarrow> bridge_error" where
  "mapBridgeError (CodedError code msg details) fallbackCode =
     \<lparr>err_code = code, err_message = msg, err_details = redactBridgeDetails details\<rparr>"
| "mapBridgeError (PlainError msg) fallbackCode =
     \<lparr>err_code = fallbackCode, err_message = msg, err_details = JUndefined\<rparr>"
| "mapBridgeError (OtherThrown v) fallbackCode =
     \<lparr>err_code = fallbackCode, err_message = ''Bridge handler failed.'', err_details = JUndefined\<rparr>"

definition hasBridgePermission :: "string list option \<Rightarrow> string option \<Rightarrow> bool" where
  "hasBridgePermission grants permission =
     (case permission of
        None \<Rightarrow> True
      | Some p \<Rightarrow>
          (if p = [] then True
           else case grants of
                  None \<Rightarrow> False
                | Some gs \<Rightarrow> gs \<noteq> [] \<and> (p \<in> set gs \<or> ''*'' \<in> set gs)))"

definition requireBridgePermission :: "string list option \<Rightarrow> string option \<Rightarrow> unit api_result" where
  "requireBridgePermission grants permission =
     (if hasBridgePermission grants permission then bridgeOk ()
      else bridgeFail ''bridge.permission_denied''
             (''Missing bridge permission: '' @ js_or_opt permission []) JUndefined)"

type_synonym bridge_arg_validator = "js_value \<Rightarrow> nat \<Rightarrow> string option"

definition js_arg :: "js_value list \<Rightarrow> nat \<Rightarrow> js_value" where
  "js_arg args i = (if i < length args then args ! i else JUndefined)"

fun validate_from :: "js_value list \<Rightarrow> nat \<Rightarrow> bridge_arg_validator list \<Rightarrow> unit api_result" where
  "validate_from args index [] = bridgeOk ()"
| "validate_from args index (v # vs) =
     (case v (js_arg args index) index of
        Some msg \<Rightarrow>
          if msg = [] then validate_from args (Suc index) vs
          else bridgeFail ''bridge.invalid_payload'' msg (JObj [(''index'', JNum (int index))])
      | None \<Rightarrow> validate_from args (Suc index) vs)"

definition validateBridgeArgs :: "js_value list \<Rightarrow> bridge_arg_validator list \<Rightarrow> unit api_result" where
  "validateBridgeArgs args validators = validate_from args 0 validators"

definition validator_string :: bridge_arg_validator where
  "validator_string v index =
     (case v of JStr _ \<Rightarrow> None
      | _ \<Rightarrow> Some (''Argument '' @ digits_of_nat index @ '' must be a string.''))"

definition validator_nonEmptyString :: bridge_arg_validator where
  "validator_nonEmptyString v index =
     (case v of
        JStr s \<Rightarrow>
          if js_trim s \<noteq> [] then None
          else Some (''Argument '' @ digits_of_nat index @ '' must be a non-empty string.'')
      | _ \<Rightarrow> Some (''Argument '' @ digits_of_nat index @ '' must be a non-empty string.''))"

definition validator_object :: bridge_arg_validator where
  "validator_object v index =
     (case v of JObj _ \<Rightarrow> None
      | _ \<Rightarrow> Some (''Argument '' @ digits_of_nat index @ '' must be an object.''))"

definition validator_boolean :: bridge_arg_validator where
  "validator_boolean v index =
     (case v of JBool _ \<Rightarrow> None
      | _ \<Rightarrow> Some (''Argument '' @ digits_of_nat index @ '' must be a boolean.''))"

section \<open>Registered handlers\<close>

record bridge_handler =
  h_channel :: string
  h_permission :: "string option"
  h_validate :: "bridge_arg_validator list"
  h_handle :: "js_value list \<Rightarrow> thrown + js_value"

definition bridge_call ::
  "string list option \<Rightarrow> bridge_handler \<Rightarrow> js_value list \<Rightarrow> js_value api_result \<times> js_value list" where
  \<comment> \<open>the function \<open>registerBridgeHandlers\<close> registers: its result, and the diagnostics it emits\<close>
  "bridge_call grants h args =
     (case requireBridgePermission grants (h_permission h) of
        Inl e \<Rightarrow> (Inl e, [])
      | Inr _ \<Rightarrow>
         (case validateBridgeArgs args (h_validate h) of
            Inl e \<Rightarrow> (Inl e, [])
          | Inr _ \<Rightarrow>
             (case h_handle h args of
                Inr v \<Rightarrow> (bridgeOk v, [])
              | Inl exn \<Rightarrow>
                 (let e = mapBridgeError exn ''bridge.handler_failed'' in
                  (Inl e,
                   [JObj [(''level'', JStr ''warn''), (''message'', JStr ''Bridge handler failed.''),
                          (''context'', JObj [(''channel'', JStr (h_channel h)),
                             (''code'', JStr (err_code e)), (''details'', err_details e)])]])))))"

definition invokeBridge :: "(thrown + js_value) \<Rightarrow> js_value + js_value api_result" where
  \<comment> \<open>the caller's side: an object that has a member \<open>ok\<close> is handed on as it came (\<open>Inl\<close>), any
     other reply is wrapped\<close>
  "invokeBridge reply =
     (case reply of
        Inl exn \<Rightarrow> Inr (Inl (mapBridgeError exn ''bridge.handler_failed''))
      | Inr (JObj kvs) \<Rightarrow>
         (if map_of kvs ''ok'' \<noteq> None then Inl (JObj kvs) else Inr (bridgeOk (JObj kvs)))
      | Inr v \<Rightarrow> Inr (bridgeOk v))"

section \<open>Shell capabilities\<close>

record shell_capability =
  cap_id :: string
  cap_supported :: bool
  cap_platforms :: "string list"
  cap_permission :: string
  cap_bridgeMethod :: string
  cap_notes :: "string option"

record capability_override =
  ov_id :: "string option"
  ov_supported :: "bool option"
  ov_platforms :: "string list option"
  ov_permission :: "string option"
  ov_bridgeMethod :: "string option"
  ov_notes :: "string option"

definition no_override :: capability_override where
  "no_override = \<lparr>ov_id = None, ov_supported = None, ov_platforms = None, ov_permission = None,
     ov_bridgeMethod = None, ov_notes = None\<rparr>"

definition capability ::
  "string \<Rightarrow> string list \<Rightarrow> string \<Rightarrow> string \<Rightarrow> string option \<Rightarrow> shell_capability" where
  "capability i ps perm meth notes = \<lparr>cap_id = i, cap_supported = True, cap_platforms = ps,
     cap_permission = perm, cap_bridgeMethod = meth, cap_notes = notes\<rparr>"

definition all_platforms :: "string list" where
  "all_platforms = [''darwin'', ''win32'', ''linux'']"

definition desktop_platforms :: "string list" where
  "desktop_platforms = [''darwin'', ''win32'']"

definition DEFAULT_SHELL_CAPABILITIES :: "shell_capability list" where
  "DEFAULT_SHELL_CAPABILITIES =
    [capability ''windows'' all_platforms ''app:read'' ''app.getInfo''
       (Some ''Window lifecycle stays in the Electron main process.''),
     capability ''title-bar'' all_platforms ''shell:write'' ''shell.setTitleBarTheme''
       (Some ''Window chrome theming stays in the shell adapter; Windows and Linux use renderer-owned controls through shell window commands.''),
     capability ''menus'' all_platforms ''shell:read'' ''shell.getCapability'' None,
     capability ''tray'' all_platforms ''shell:read'' ''shell.getCapability'' None,
     capability ''menu-bar'' [''darwin''] ''shell:read'' ''shell.getCapability''
       (Some ''Menu bar behavior is macOS-first; Windows should use tray or menu commands.''),
     capability ''notifications'' desktop_platforms ''os:permission'' ''shell.getCapability'' None,
     capability ''clipboard'' all_platforms ''clipboard:read'' ''shell.getCapability'' None,
     capability ''native-dialogs'' all_platforms ''dialog:open'' ''shell.getCapability'' None,
     capability ''protocols'' desktop_platforms ''shell:read'' ''shell.getCapability'' None,
     capability ''file-associations'' desktop_platforms ''shell:read'' ''shell.getCapability'' None,
     capability ''deep-links'' desktop_platforms ''shell:read'' ''shell.getCapability'' None,
     capability ''auto-update'' desktop_platforms ''shell:read'' ''shell.getCapability''
       (Some ''Signing and publishing credentials remain outside app source.''),
     capability ''secure-storage'' desktop_platforms ''shell:read'' ''shell.getCapability'' None,
     capability ''os-permissions'' desktop_platforms ''os:permission'' ''shell.getCapability'' None]"

definition orElse :: "'a option \<Rightarrow> 'a \<Rightarrow> 'a" where
  "orElse x d = (case x of None \<Rightarrow> d | Some v \<Rightarrow> v)"

definition override_capability ::
  "string \<Rightarrow> capability_override \<Rightarrow> shell_capability \<Rightarrow> shell_capability" where
  "override_capability platform ov c =
     (let platforms = orElse (ov_platforms ov) (cap_platforms c) in
      \<lparr>cap_id = orElse (ov_id ov) (cap_id c),
       cap_supported = (orElse (ov_supported ov) (cap_supported c) \<and> platform \<in> set platforms),
       cap_platforms = platforms,
       cap_permission = orElse (ov_permission ov) (cap_permission c),
       cap_bridgeMethod = orElse (ov_bridgeMethod ov) (cap_bridgeMethod c),
       cap_notes = (case ov_notes ov of None \<Rightarrow> cap_notes c | Some n \<Rightarrow> Some n)\<rparr>)"

definition createShellCapabilityRegistry ::
  "string \<Rightarrow> (string \<times> capability_override) list \<Rightarrow> shell_capability list" where
  "createShellCapabilityRegistry platform overrides =
     map (\<lambda>c. override_capability platform (orElse (map_of overrides (cap_id c)) no_override) c)
       DEFAULT_SHELL_CAPABILITIES"

definition getShellCapability :: "shell_capability list \<Rightarrow> string \<Rightarrow> shell_capability api_result" where
  "getShellCapability registry i =
     (case find (\<lambda>c. cap_id c = i) registry of
        None \<Rightarrow> bridgeFail ''bridge.unsupported_capability''
                  (''Unsupported shell capability: '' @ i) (JObj [(''id'', JStr i)])
      | Some c \<Rightarrow> bridgeOk c)"

definition callPlatformCapability ::
  "string \<Rightarrow> shell_capability list \<Rightarrow> string \<Rightarrow> (thrown + 'a) \<Rightarrow> 'a api_result" where
  "callPlatformCapability platform registry i handler =
     (case getShellCapability registry i of
        Inl e \<Rightarrow> Inl e
      | Inr c \<Rightarrow>
         (if \<not> cap_supported c then
            bridgeFail ''bridge.unsupported_capability''
              (''Shell capability is unavailable: '' @ i)
              (JObj [(''id'', JStr i), (''platform'', JStr platform)])
          else case handler of
                 Inr v \<Rightarrow> bridgeOk v
               | Inl exn \<Rightarrow> Inl (mapBridgeError exn ''bridge.handler_failed'')))"

section \<open>Lemmas\<close>

lemmas bridge_simps = bridgeOk_def bridgeFail_def

lemma is_ok_bridge [simp]: "is_ok (bridgeOk a)" "\<not> is_ok (bridgeFail c m d)"
  by (simp_all add: bridge_simps)

lemma bridge_eqs [simp]:
  "bridgeOk a = Inr b \<longleftrightarrow> a = b" "Inr b = bridgeOk a \<longleftrightarrow> b = a"
  "bridgeOk a \<noteq> Inl e" "Inl e \<noteq> bridgeOk a"
  "bridgeFail c m d \<noteq> Inr b" "Inr b \<noteq> bridgeFail c m d"
  by (auto simp: bridge_simps)

text \<open>What may remain in redacted details: no secret-named member but the marker, no long token.\<close>

fun clean_details :: "js_value \<Rightarrow> bool" where
  "clean_details (JArr vs) = (\<forall>v \<in> set vs. clean_details v)"
| "clean_details (JObj kvs) =
     (\<forall>kv \<in> set kvs. if secret_key (fst kv) then snd kv = redacted else clean_details (snd kv))"
| "clean_details (JStr s) = (\<not> token_run 0 s)"
| "clean_details v = True"

lemma clean_redacted [simp]: "clean_details redacted"
  by (simp add: redacted_def token_char_def js_is_alpha_def js_is_digit_def code_unit_def)

lemma redact_clean: "clean_details (redactBridgeDetails v)"
  by (induction v rule: redactBridgeDetails.induct) auto

lemma redact_fixes_clean: "clean_details v \<Longrightarrow> redactBridgeDetails v = v"
  by (induction v rule: redactBridgeDetails.induct) (auto intro!: map_idI split: if_splits)

lemma validate_from_Inr:
  "validate_from args i vs = Inr () \<longleftrightarrow>
     (\<forall>j < length vs. case (vs ! j) (js_arg args (i + j)) (i + j) of None \<Rightarrow> True | Some m \<Rightarrow> m = [])"
proof (induction vs arbitrary: i)
  case (Cons v vs)
  show ?case
    unfolding length_Cons All_less_Suc2 by (auto simp: Cons split: option.splits)
qed simp

lemma find_registry:
  "find (\<lambda>c. cap_id c = i) xs = Some c \<Longrightarrow> c \<in> set xs \<and> cap_id c = i"
  by (auto simp: find_Some_iff)

lemma supported_on_platform:
  "c \<in> set (createShellCapabilityRegistry platform overrides) \<Longrightarrow> cap_supported c \<Longrightarrow>
     platform \<in> set (cap_platforms c)"
  by (auto simp: createShellCapabilityRegistry_def override_capability_def Let_def)

section \<open>Properties\<close>


text \<open>
  A registered handler runs only behind its guards: without the permission, or with an
  argument a validator refuses, the reply is that refusal whatever the handler would do.
\<close>

lemma bridge_call_guarded:
  assumes "\<not> hasBridgePermission grants (h_permission h) \<or>
           \<not> is_ok (validateBridgeArgs args (h_validate h))"
  shows "\<not> is_ok (fst (bridge_call grants (h\<lparr>h_handle := f\<rparr>) args)) \<and>
         bridge_call grants (h\<lparr>h_handle := f\<rparr>) args = bridge_call grants (h\<lparr>h_handle := g\<rparr>) args"
  using assms
  by (auto simp: bridge_call_def requireBridgePermission_def is_ok_def split: sum.splits)

lemma bridge_call_guarded_witness:
  "\<not> is_ok (fst (bridge_call (Some [''app:read''])
      (\<lparr>h_channel = ''c'', h_permission = Some ''vfs:write'', h_validate = [], h_handle = Inr \<circ> JArr\<rparr>
         \<lparr>h_handle := Inr \<circ> JArr\<rparr>) []))"
proof -
  let ?h = "\<lparr>h_channel = ''c'', h_permission = Some ''vfs:write'', h_validate = [], h_handle = Inr \<circ> JArr\<rparr>"
  have "\<not> hasBridgePermission (Some [''app:read'']) (h_permission ?h)"
    by (simp add: hasBridgePermission_def)
  then show ?thesis using bridge_call_guarded [of "Some [''app:read'']" ?h "[]"] by blast
qed

text \<open>
  A platform capability is reachable only on its platforms: if a call through the registry of
  a platform succeeds, the capability found is marked supported and lists that platform, whatever
  the overrides say.
\<close>

lemma callPlatformCapability_supported:
  assumes "callPlatformCapability platform (createShellCapabilityRegistry platform overrides) i handler = Inr v"
  shows "\<exists>c \<in> set (createShellCapabilityRegistry platform overrides).
           cap_id c = i \<and> cap_supported c \<and> platform \<in> set (cap_platforms c) \<and> handler = Inr v"
proof -
  let ?r = "createShellCapabilityRegistry platform overrides"
  from assms obtain c where c: "find (\<lambda>c. cap_id c = i) ?r = Some c" "cap_supported c" "handler = Inr v"
    by (auto simp: callPlatformCapability_def getShellCapability_def
        split: option.splits sum.splits if_splits)
  then have "c \<in> set ?r" "cap_id c = i" by (auto dest: find_registry)
  with c supported_on_platform show ?thesis by blast
qed

lemma callPlatformCapability_supported_witness:
  "\<exists>c \<in> set (createShellCapabilityRegistry ''darwin'' []).
     cap_id c = ''tray'' \<and> ''darwin'' \<in> set (cap_platforms c)"
proof -
  have "callPlatformCapability ''darwin'' (createShellCapabilityRegistry ''darwin'' []) ''tray''
      (Inr ()) = Inr ()" by code_simp
  from callPlatformCapability_supported [OF this] show ?thesis by blast
qed

end
