(* ===== verification/Vfs_Paths.thy ===== *)
theory Vfs_Paths
  imports Bridge "HOL-Library.Word"
begin

text \<open>
  \<open>packages/desktop-foundation/src/vfs-paths.ts\<close> with the types of \<open>vfs-types.ts\<close> it uses:
  portable relative paths, references and \<open>vfs://\<close> URIs, resolution below a root, the
  permission check, content fingerprints (32-bit FNV-1a), extensions and pagination. The root
  map is an association list from root id to root record (the own properties of the object).
\<close>

unbundle bit_operations_syntax

section \<open>Types\<close>

type_synonym byte = "8 word"

datatype vfs_operation =
  Op_read | Op_write | Op_delete | Op_list | Op_stat | Op_mkdir | Op_copy | Op_move
  | Op_import | Op_export | Op_package | Op_cleanup

fun op_name :: "vfs_operation \<Rightarrow> string" where
  "op_name Op_read = ''read''"
| "op_name Op_write = ''write''"
| "op_name Op_delete = ''delete''"
| "op_name Op_list = ''list''"
| "op_name Op_stat = ''stat''"
| "op_name Op_mkdir = ''mkdir''"
| "op_name Op_copy = ''copy''"
| "op_name Op_move = ''move''"
| "op_name Op_import = ''import''"
| "op_name Op_export = ''export''"
| "op_name Op_package = ''package''"
| "op_name Op_cleanup = ''cleanup''"

datatype cleanup_kind = CleanupNever | CleanupCache | CleanupTmp | CleanupLogs

record vfs_root =
  root_id :: string
  root_path :: string
  root_mutable :: bool
  root_cleanup :: "cleanup_kind option"
  root_caseSensitive :: "bool option"
  root_maxFileBytes :: "int option"
  root_allowedExtensions :: "string list option"

type_synonym vfs_root_map = "vfs_root js_map"

record vfs_policy =
  policy_permissions :: "(string \<times> vfs_operation list) list"
  policy_maxFileBytes :: "(string \<times> int) list"

record vfs_ref =
  ref_root :: string
  ref_path :: string

record resolved_path =
  res_root :: string
  res_path :: string
  res_fullPath :: string
  res_segments :: "string list"
  res_mutable :: bool

datatype vfs_content = Text string | Bytes "byte list"

record 'a vfs_page =
  page_items :: "'a list"
  page_nextCursor :: "string option"
  page_total :: nat

section \<open>Portable paths\<close>

definition is_slash :: "char \<Rightarrow> bool" where
  "is_slash c \<longleftrightarrow> c = CHR ''/'' \<or> c = CHR 0x5C"

definition slashes :: "string \<Rightarrow> string" where
  \<comment> \<open>\<open>.replace(/\\/g, '/')\<close>\<close>
  "slashes = map (\<lambda>c. if is_slash c then CHR ''/'' else c)"

definition default_root ::
  "string \<Rightarrow> string \<Rightarrow> bool \<Rightarrow> cleanup_kind \<Rightarrow> string \<times> vfs_root" where
  "default_root base i mut cleanup =
     (i, \<lparr>root_id = i, root_path = base @ ''/'' @ i, root_mutable = mut, root_cleanup = Some cleanup,
          root_caseSensitive = None, root_maxFileBytes = None, root_allowedExtensions = None\<rparr>)"

definition createDefaultVfsRoots :: "string \<Rightarrow> vfs_root_map" where
  "createDefaultVfsRoots basePath =
     (let root = js_strip_end is_slash basePath in
      [default_root root ''app-data'' True CleanupNever,
       default_root root ''projects'' True CleanupNever,
       default_root root ''imports'' True CleanupNever,
       default_root root ''assets'' False CleanupNever,
       default_root root ''cache'' True CleanupCache,
       default_root root ''logs'' True CleanupLogs,
       default_root root ''tmp'' True CleanupTmp,
       default_root root ''exports'' True CleanupNever])"

fun isAbsolutePath :: "string \<Rightarrow> bool" where
  "isAbsolutePath (a # b # c # s) \<longleftrightarrow>
     is_slash a \<or> (js_is_alpha a \<and> b = CHR '':'' \<and> is_slash c)"
| "isAbsolutePath (a # s) \<longleftrightarrow> is_slash a"
| "isAbsolutePath [] \<longleftrightarrow> False"

definition illegal_segment_char :: "char \<Rightarrow> bool" where
  "illegal_segment_char c \<longleftrightarrow>
     c \<in> set ''<>:|?*'' \<or> code_unit c = 34 \<or> code_unit c < 32"

definition RESERVED_WINDOWS_NAMES :: "string list" where
  "RESERVED_WINDOWS_NAMES = [''con'', ''prn'', ''aux'', ''nul''] @
     map (\<lambda>d. ''com'' @ [d]) ''123456789'' @ map (\<lambda>d. ''lpt'' @ [d]) ''123456789''"

definition line_terminator :: "char \<Rightarrow> bool" where
  "line_terminator c \<longleftrightarrow> code_unit c = 10 \<or> code_unit c = 13"

definition reserved_name :: "string \<Rightarrow> bool" where
  "reserved_name s =
     list_ex (\<lambda>n. prefix n (js_lower s) \<and>
        (case drop (length n) (js_lower s) of
           [] \<Rightarrow> True
         | c # rest \<Rightarrow> c = CHR ''.'' \<and> \<not> list_ex line_terminator rest)) RESERVED_WINDOWS_NAMES"

definition validateSegment :: "string \<Rightarrow> string option" where
  "validateSegment segment =
     (if segment = [] \<or> segment = ''.'' \<or> segment = ''..'' then
        Some ''VFS path cannot escape its root.''
      else if length segment > 255 then Some ''VFS path segment is too long.''
      else if js_trim segment \<noteq> segment \<or> last segment = CHR ''.'' \<or> last segment = CHR '' '' then
        Some ''VFS path segment has unsupported whitespace or trailing punctuation.''
      else if list_ex illegal_segment_char segment \<or> reserved_name segment then
        Some ''VFS path segment is not portable across macOS and Windows.''
      else None)"

fun validate_segments :: "string list \<Rightarrow> string list api_result" where
  "validate_segments [] = bridgeOk []"
| "validate_segments (s # ss) =
     (case validateSegment s of
        Some err \<Rightarrow> bridgeFail ''vfs.invalid_path'' err (JObj [(''segment'', JStr s)])
      | None \<Rightarrow> (case validate_segments ss of Inl e \<Rightarrow> Inl e | Inr ss' \<Rightarrow> bridgeOk (s # ss')))"

definition normalizeVfsPath :: "bool \<Rightarrow> string \<Rightarrow> string list api_result" where
  "normalizeVfsPath allowEmpty v =
     (if v = [] \<and> allowEmpty then bridgeOk []
      else if v = [] \<or> isAbsolutePath v then
        bridgeFail ''vfs.invalid_path'' ''VFS path must be relative.'' JUndefined
      else validate_segments (js_pieces (CHR ''/'') (slashes v)))"

definition createVfsRef :: "string \<Rightarrow> string \<Rightarrow> vfs_ref api_result" where
  "createVfsRef root path =
     bind_result (normalizeVfsPath False path)
       (\<lambda>segs. bridgeOk \<lparr>ref_root = root, ref_path = js_join ''/'' segs\<rparr>)"

section \<open>URIs\<close>

datatype js_exn =
    URIError
  | WideCodePoint  \<comment> \<open>an escape that starts a code point above 255, outside this string type\<close>

definition hex_upper :: "nat \<Rightarrow> char" where
  "hex_upper n = (if n < 10 then char_of (48 + n) else char_of (55 + n))"

definition uri_unreserved :: "char \<Rightarrow> bool" where
  "uri_unreserved c \<longleftrightarrow> js_is_alpha c \<or> js_is_digit c \<or> c \<in> set ''-_.!~*()'' \<or> code_unit c = 39"

definition percent :: "nat \<Rightarrow> string" where
  "percent b = [CHR ''%'', hex_upper (b div 16), hex_upper (b mod 16)]"

definition encode_char :: "char \<Rightarrow> string" where
  "encode_char c = (if uri_unreserved c then [c] else concat (map percent (utf8_char c)))"

definition encodeURIComponent :: "string \<Rightarrow> string" where
  "encodeURIComponent s = concat (map encode_char s)"

fun hex_pair :: "string \<Rightarrow> (nat \<times> string) option" where
  "hex_pair (p # a # b # rest) =
     (if p = CHR ''%'' then
        (case (hex_value a, hex_value b) of
           (Some x, Some y) \<Rightarrow> Some (16 * x + y, rest) | _ \<Rightarrow> None)
      else None)"
| "hex_pair _ = None"

lemma hex_pair_length: "hex_pair s = Some (b, rest) \<Longrightarrow> length rest < length s"
  by (induction s rule: hex_pair.induct) (auto split: option.splits if_splits)

function decodeURIComponent :: "string \<Rightarrow> js_exn + string" where
  "decodeURIComponent s =
     (case s of
        [] \<Rightarrow> Inr []
      | c # cs \<Rightarrow>
         (if c \<noteq> CHR ''%'' then bind_result (decodeURIComponent cs) (\<lambda>t. Inr (c # t))
          else case hex_pair s of
            None \<Rightarrow> Inl URIError
          | Some (b, rest) \<Rightarrow>
             (if b < 128 then bind_result (decodeURIComponent rest) (\<lambda>t. Inr (char_of b # t))
              else if b = 194 \<or> b = 195 then
                (case hex_pair rest of
                   None \<Rightarrow> Inl URIError
                 | Some (b2, rest2) \<Rightarrow>
                    (if 128 \<le> b2 \<and> b2 < 192 then
                       bind_result (decodeURIComponent rest2)
                         (\<lambda>t. Inr (char_of ((b - 192) * 64 + (b2 - 128)) # t))
                     else Inl URIError))
              else if 196 \<le> b \<and> b < 245 then Inl WideCodePoint
              else Inl URIError)))"
  by pat_completeness auto
termination
  by (relation "measure length") (auto dest!: hex_pair_length)

declare decodeURIComponent.simps [simp del]

definition toVfsUri :: "vfs_ref \<Rightarrow> string api_result" where
  "toVfsUri ref =
     bind_result (normalizeVfsPath False (ref_path ref))
       (\<lambda>segs. bridgeOk (''vfs://'' @ ref_root ref @ ''/'' @
          js_join ''/'' (map encodeURIComponent segs)))"

definition parseVfsUri :: "string \<Rightarrow> js_exn + vfs_ref api_result" where
  "parseVfsUri uri =
     (if \<not> prefix ''vfs://'' uri then
        Inr (bridgeFail ''vfs.invalid_uri'' ''VFS URI must use vfs://.'' JUndefined)
      else
        let withoutScheme = drop 6 uri in
        (case js_index_of (CHR ''/'') withoutScheme of
           None \<Rightarrow> Inr (bridgeFail ''vfs.invalid_uri'' ''VFS URI is missing a root or path.'' JUndefined)
         | Some slashIndex \<Rightarrow>
            (if slashIndex = 0 then
               Inr (bridgeFail ''vfs.invalid_uri'' ''VFS URI is missing a root or path.'' JUndefined)
             else
               bind_result
                 (traverse_result decodeURIComponent
                    (js_pieces (CHR ''/'') (drop (Suc slashIndex) withoutScheme)))
                 (\<lambda>parts. Inr (createVfsRef (take slashIndex withoutScheme) (js_join ''/'' parts))))))"

section \<open>Resolution and permission\<close>

definition getExtension :: "string \<Rightarrow> string" where
  "getExtension path =
     (let name = last (js_split (CHR ''/'') path) in
      case js_last_index_of (CHR ''.'') name of
        None \<Rightarrow> []
      | Some i \<Rightarrow> if 0 < i then js_lower (drop (Suc i) name) else [])"

definition resolveVfsPath :: "vfs_root_map \<Rightarrow> string \<Rightarrow> string \<Rightarrow> resolved_path api_result" where
  "resolveVfsPath roots rootId relativePath =
     (case map_of roots rootId of
        None \<Rightarrow> bridgeFail ''vfs.unknown_root'' (''Unknown VFS root: '' @ rootId) JUndefined
      | Some root \<Rightarrow>
         bind_result (normalizeVfsPath False relativePath)
          (\<lambda>segs.
            let extension = getExtension (js_join ''/'' segs) in
            if root_allowedExtensions root \<noteq> None \<and> the (root_allowedExtensions root) \<noteq> [] \<and>
               extension \<noteq> [] \<and> extension \<notin> set (the (root_allowedExtensions root))
            then bridgeFail ''vfs.extension_denied'' ''VFS path extension is not allowed.''
                   (JObj [(''root'', JStr rootId), (''extension'', JStr extension)])
            else bridgeOk
              \<lparr>res_root = rootId, res_path = js_join ''/'' segs,
               res_fullPath = js_strip_end is_slash (root_path root) @ ''/'' @ js_join ''/'' segs,
               res_segments = segs, res_mutable = root_mutable root\<rparr>))"

definition MUTATING_OPERATIONS :: "vfs_operation list" where
  "MUTATING_OPERATIONS = [Op_write, Op_delete, Op_mkdir, Op_move, Op_import]"

definition ALL_OPERATIONS :: "vfs_operation list" where
  "ALL_OPERATIONS = [Op_read, Op_write, Op_delete, Op_list, Op_stat, Op_mkdir, Op_copy, Op_move,
     Op_import, Op_export, Op_package, Op_cleanup]"

definition READONLY_OPERATIONS :: "vfs_operation list" where
  "READONLY_OPERATIONS = [Op_read, Op_list, Op_stat, Op_copy, Op_export, Op_package]"

definition operationsForRoot :: "vfs_root \<Rightarrow> vfs_policy option \<Rightarrow> vfs_operation list" where
  "operationsForRoot root policy =
     (case Option.bind policy (\<lambda>p. map_of (policy_permissions p) (root_id root)) of
        Some ops \<Rightarrow> ops
      | None \<Rightarrow> if root_mutable root then ALL_OPERATIONS else READONLY_OPERATIONS)"

definition assertVfsPermission ::
  "vfs_root_map \<Rightarrow> string \<Rightarrow> vfs_operation \<Rightarrow> vfs_policy option \<Rightarrow> vfs_root api_result" where
  "assertVfsPermission roots rootId operation policy =
     (case map_of roots rootId of
        None \<Rightarrow> bridgeFail ''vfs.unknown_root'' (''Unknown VFS root: '' @ rootId) JUndefined
      | Some root \<Rightarrow>
         (if operation \<in> set MUTATING_OPERATIONS \<and> \<not> root_mutable root then
            bridgeFail ''vfs.immutable_root'' ''VFS root is immutable.''
              (JObj [(''root'', JStr rootId), (''operation'', JStr (op_name operation))])
          else if operation \<notin> set (operationsForRoot root policy) then
            bridgeFail ''vfs.permission_denied'' (''VFS operation is not allowed: '' @ op_name operation)
              (JObj [(''root'', JStr rootId), (''operation'', JStr (op_name operation))])
          else bridgeOk root))"

definition assertVfsWritable :: "vfs_root_map \<Rightarrow> vfs_ref \<Rightarrow> resolved_path api_result" where
  "assertVfsWritable roots ref =
     bind_result (assertVfsPermission roots (ref_root ref) Op_write None)
       (\<lambda>_. resolveVfsPath roots (ref_root ref) (ref_path ref))"

section \<open>Content\<close>

definition text_encode :: "string \<Rightarrow> byte list" where
  \<comment> \<open>\<open>TextEncoder.encode\<close>: UTF-8\<close>
  "text_encode s = map of_nat (concat (map utf8_char s))"

fun content_bytes :: "vfs_content \<Rightarrow> byte list" where
  "content_bytes (Text s) = text_encode s"
| "content_bytes (Bytes bs) = bs"

definition byteLength :: "vfs_content \<Rightarrow> nat" where
  "byteLength content = length (content_bytes content)"

definition fnv_step :: "byte \<Rightarrow> 32 word \<Rightarrow> 32 word" where
  "fnv_step b hash = (hash XOR ucast b) * 16777619"

definition fnv1a :: "byte list \<Rightarrow> 32 word" where
  "fnv1a bytes = fold fnv_step bytes 2166136261"

definition hex_lower :: "nat \<Rightarrow> char" where
  "hex_lower n = (if n < 10 then char_of (48 + n) else char_of (87 + n))"

fun to_hex :: "nat \<Rightarrow> string" where
  \<comment> \<open>\<open>.toString(16)\<close>\<close>
  "to_hex n = (if n < 16 then [hex_lower n] else to_hex (n div 16) @ [hex_lower (n mod 16)])"

declare to_hex.simps [simp del]

definition pad_start :: "nat \<Rightarrow> char \<Rightarrow> string \<Rightarrow> string" where
  "pad_start n c s = replicate (n - length s) c @ s"

definition fingerprintContent :: "vfs_content \<Rightarrow> string" where
  "fingerprintContent content =
     ''fnv1a32:'' @ pad_start 8 (CHR ''0'') (to_hex (unat (fnv1a (content_bytes content))))"

section \<open>Names, pages and prefixes\<close>

definition basename :: "string \<Rightarrow> string" where
  "basename path = js_or (last (js_split (CHR ''/'') (slashes path))) path"

text \<open>
  \<open>Number(text)\<close> as a decimal \<open>(m, e)\<close> standing for \<open>m * 10 ^ e\<close>, before rounding to a double;
  \<open>None\<close> is \<open>NaN\<close> or an infinity.
\<close>

definition take_digits :: "string \<Rightarrow> string \<times> string" where
  "take_digits s = (takeWhile js_is_digit s, dropWhile js_is_digit s)"

definition js_exponent :: "string \<Rightarrow> int option" where
  "js_exponent s =
     (case s of
        [] \<Rightarrow> Some 0
      | c # r \<Rightarrow>
         (if c \<noteq> CHR ''e'' \<and> c \<noteq> CHR ''E'' then None
          else let (neg, d) = (case r of
                   x # r' \<Rightarrow> if x = CHR ''-'' then (True, r')
                             else if x = CHR ''+'' then (False, r') else (False, r)
                 | [] \<Rightarrow> (False, []))
               in if d \<noteq> [] \<and> list_all js_is_digit d
                  then Some (if neg then - int (nat_of_digits d) else int (nat_of_digits d)) else None))"

definition js_decimal :: "string \<Rightarrow> (int \<times> int) option" where
  "js_decimal s =
     (let (whole, rest) = take_digits s;
          (frac, rest2) = (case rest of
             c # r \<Rightarrow> if c = CHR ''.'' then take_digits r else ([], rest) | [] \<Rightarrow> ([], []))
      in if whole = [] \<and> frac = [] then None
         else map_option (\<lambda>e. (int (nat_of_digits (whole @ frac)), e - int (length frac)))
                (js_exponent rest2))"

definition radix_digits :: "nat \<Rightarrow> string \<Rightarrow> int option" where
  "radix_digits r s =
     (if s \<noteq> [] \<and> list_all (\<lambda>c. case hex_value c of None \<Rightarrow> False | Some d \<Rightarrow> d < r) s
      then Some (foldl (\<lambda>n c. int r * n + int (the (hex_value c))) 0 s) else None)"

definition finite_double :: "int \<times> int \<Rightarrow> bool" where
  "finite_double d =
     (case d of (m, e) \<Rightarrow> if e < 0 then True else \<bar>m\<bar> * 10 ^ nat e < 2 ^ 1024 - 2 ^ 970)"

definition js_number :: "string \<Rightarrow> (int \<times> int) option" where
  "js_number text =
     (let s = js_trim text in
      case s of
        [] \<Rightarrow> Some (0, 0)
      | c # r \<Rightarrow>
         (let radix = (case r of
              x # ds \<Rightarrow>
               (if c = CHR ''0'' \<and> (x = CHR ''x'' \<or> x = CHR ''X'') then Some (16, ds)
                else if c = CHR ''0'' \<and> (x = CHR ''o'' \<or> x = CHR ''O'') then Some (8, ds)
                else if c = CHR ''0'' \<and> (x = CHR ''b'' \<or> x = CHR ''B'') then Some (2, ds) else None)
            | [] \<Rightarrow> None)
          in case radix of
               Some (b, ds) \<Rightarrow> map_option (\<lambda>n. (n, 0)) (radix_digits b ds)
             | None \<Rightarrow>
                (case (if c = CHR ''-'' then map_option (\<lambda>(m, e). (- m, e)) (js_decimal r)
                       else if c = CHR ''+'' then js_decimal r else js_decimal s) of
                   None \<Rightarrow> None
                 | Some d \<Rightarrow> if finite_double d then Some d else None)))"

definition decimal_integer :: "int \<times> int \<Rightarrow> int option" where
  "decimal_integer d =
     (case d of (m, e) \<Rightarrow>
        if 0 \<le> e then Some (m * 10 ^ nat e)
        else if m mod 10 ^ nat (- e) = 0 then Some (m div 10 ^ nat (- e)) else None)"

definition parseCursor :: "string option \<Rightarrow> nat" where
  "parseCursor cursor =
     (case cursor of
        None \<Rightarrow> 0
      | Some text \<Rightarrow>
         (if text = [] then 0
          else case Option.bind (js_number text) decimal_integer of
                 None \<Rightarrow> 0 | Some v \<Rightarrow> if 0 \<le> v then nat v else 0))"

definition paginate :: "'a list \<Rightarrow> string option \<Rightarrow> int option \<Rightarrow> 'a vfs_page" where
  "paginate items cursor limit =
     (let start = parseCursor cursor;
          pageLimit = nat (max 1 (min (case limit of None \<Rightarrow> 100 | Some l \<Rightarrow> l) 1000));
          pageItems = js_slice start (start + pageLimit) items
      in \<lparr>page_items = pageItems,
          page_nextCursor = (if start + length pageItems < length items
                             then Some (digits_of_nat (start + length pageItems)) else None),
          page_total = length items\<rparr>)"

definition joinVfsPath :: "string list \<Rightarrow> string" where
  "joinVfsPath parts = js_join ''/'' (js_pieces (CHR ''/'') (slashes (js_join ''/'' parts)))"

definition replacePrefix :: "string \<Rightarrow> string \<Rightarrow> string \<Rightarrow> string" where
  "replacePrefix path sourcePrefix targetPrefix =
     (let rest = (if path = sourcePrefix then []
                  else dropWhile (\<lambda>c. c = CHR ''/'') (drop (length sourcePrefix) path))
      in joinVfsPath [targetPrefix, rest])"

section \<open>Normalised paths\<close>

abbreviation slash :: char where "slash \<equiv> CHR ''/''"


definition safe_segment :: "string \<Rightarrow> bool" where
  "safe_segment s \<longleftrightarrow> validateSegment s = None \<and> slash \<notin> set s \<and> backslash \<notin> set s"

lemma slashes_no_backslash [simp]: "backslash \<notin> set (slashes v)"
  by (auto simp: slashes_def is_slash_def)

lemma slashes_id: "backslash \<notin> set v \<Longrightarrow> slashes v = v"
  unfolding slashes_def by (rule map_idI) (auto simp: is_slash_def)

lemma slashes_append [simp]: "slashes (s @ t) = slashes s @ slashes t"
  by (simp add: slashes_def)

lemma slashes_eq_Nil [simp]: "slashes v = [] \<longleftrightarrow> v = []"
  by (simp add: slashes_def)

lemma set_js_pieces: "w \<in> set (js_pieces d s) \<Longrightarrow> set w \<subseteq> set s"
proof -
  have "set w \<subseteq> set s" if "w \<in> set (js_split d s)" for w
    using that by (induction s arbitrary: w) (fastforce split: list.splits if_splits)+
  then show "w \<in> set (js_pieces d s) \<Longrightarrow> set w \<subseteq> set s" by (auto simp: js_pieces_def)
qed

lemma validate_segments_Inr:
  "validate_segments ss = Inr ss' \<longleftrightarrow> ss' = ss \<and> (\<forall>s \<in> set ss. validateSegment s = None)"
  by (induction ss arbitrary: ss') (auto split: option.splits sum.splits)

lemma js_pieces_first: "s \<noteq> [] \<Longrightarrow> hd s \<noteq> d \<Longrightarrow> js_pieces d s \<noteq> []"
  by (cases s) (auto simp: js_pieces_def split: list.splits)

lemma isAbsolutePath_hd: "v \<noteq> [] \<Longrightarrow> \<not> isAbsolutePath v \<Longrightarrow> \<not> is_slash (hd v)"
  by (induction v rule: isAbsolutePath.induct) auto

lemma normalize_Inr:
  assumes "normalizeVfsPath False v = Inr segs"
  shows "segs \<noteq> []" and "\<forall>s \<in> set segs. safe_segment s"
    and "segs = js_pieces slash (slashes v)"
proof -
  from assms have v: "v \<noteq> []" "\<not> isAbsolutePath v"
    and seg: "segs = js_pieces slash (slashes v)" "\<forall>s \<in> set segs. validateSegment s = None"
    by (auto simp: normalizeVfsPath_def validate_segments_Inr split: if_splits)
  from v have "hd (slashes v) \<noteq> slash"
    using isAbsolutePath_hd [OF v] by (cases v) (auto simp: slashes_def is_slash_def)
  with v show "segs \<noteq> []" unfolding seg(1) by (intro js_pieces_first) auto
  show "\<forall>s \<in> set segs. safe_segment s"
    using seg js_pieces_wf [of _ slash "slashes v"] set_js_pieces [of _ slash "slashes v"]
      slashes_no_backslash [of v]
    by (fastforce simp: safe_segment_def)
  show "segs = js_pieces slash (slashes v)" by (rule seg(1))
qed

lemma safe_segment_chars:
  assumes "safe_segment s"
  shows "s \<noteq> []" "s \<noteq> ''.''" "s \<noteq> ''..''" "length s \<le> 255" "\<forall>c \<in> set s. \<not> illegal_segment_char c"
    "\<not> reserved_name s" "CHR '':'' \<notin> set s" "slash \<notin> set s" "backslash \<notin> set s"
  using assms
  by (auto simp: safe_segment_def validateSegment_def list_ex_iff illegal_segment_char_def
           split: if_splits)

lemma relative_join:
  assumes "segs \<noteq> []" and safe: "\<forall>s \<in> set segs. safe_segment s"
  shows "\<not> isAbsolutePath (js_join ''/'' segs)"
proof -
  obtain s ss where segs: "segs = s # ss" using assms(1) by (cases segs) auto
  with safe have s: "s \<noteq> []" "CHR '':'' \<notin> set s" "slash \<notin> set s" "backslash \<notin> set s"
    by (auto dest: safe_segment_chars)
  obtain a r where a: "s = a # r" using s(1) by (cases s) auto
  obtain t where t: "js_join ''/'' segs = a # r @ t" and "t = [] \<or> hd t = slash"
    using segs a by (cases "ss = []") (auto simp: js_join_Cons)
  then have "r @ t = [] \<or> hd (r @ t) \<noteq> CHR '':''"
    using s(2) a by (cases r) auto
  moreover have "\<not> is_slash a" using s a by (auto simp: is_slash_def)
  ultimately show ?thesis
    unfolding t by (cases "r @ t" rule: isAbsolutePath.cases) auto
qed

lemma slashes_join_safe:
  "\<forall>s \<in> set segs. safe_segment s \<Longrightarrow> slashes (js_join ''/'' segs) = js_join ''/'' segs"
  using set_js_join [of "''/''" segs]
  by (intro slashes_id) (use safe_segment_chars(9) in fastforce)

lemma normalize_join:
  assumes "segs \<noteq> []" and safe: "\<forall>s \<in> set segs. safe_segment s"
  shows "normalizeVfsPath False (js_join ''/'' segs) = Inr segs"
proof -
  have "\<forall>s \<in> set segs. s \<noteq> []" using safe by (auto dest: safe_segment_chars)
  then have ne: "js_join ''/'' segs \<noteq> []" using assms(1) by (simp add: js_join_eq_Nil)
  have "js_pieces slash (js_join ''/'' segs) = segs"
    using safe by (intro js_pieces_join) (auto dest: safe_segment_chars)
  moreover have "\<forall>s \<in> set segs. validateSegment s = None" using safe by (simp add: safe_segment_def)
  ultimately show ?thesis
    using ne relative_join [OF assms]
    by (simp add: normalizeVfsPath_def slashes_join_safe [OF safe] validate_segments_Inr)
qed

lemmas normalize_idem = normalize_join [OF normalize_Inr(1,2)]

lemma resolve_Inr:
  assumes "resolveVfsPath roots r p = Inr x"
  shows "\<exists>root segs. map_of roots r = Some root \<and> normalizeVfsPath False p = Inr segs \<and>
    x = \<lparr>res_root = r, res_path = js_join ''/'' segs,
         res_fullPath = js_strip_end is_slash (root_path root) @ ''/'' @ js_join ''/'' segs,
         res_segments = segs, res_mutable = root_mutable root\<rparr>"
  using assms
  by (auto simp: resolveVfsPath_def bind_result_Inr Let_def split: option.splits if_splits)

lemma resolve_idem:
  assumes "resolveVfsPath roots r p = Inr x"
  shows "resolveVfsPath roots r (res_path x) = Inr x"
  using assms
  by (auto simp: resolveVfsPath_def bind_result_Inr Let_def normalize_idem split: option.splits if_splits)

section \<open>Escapes\<close>

lemma code_unit_char_of [simp]: "n < 256 \<Longrightarrow> code_unit (char_of n) = n"
  by (simp add: code_unit_def)

lemma char_of_code_unit [simp]: "char_of (code_unit c) = c"
  by (simp add: code_unit_def)

lemma hex_value_upper [simp]: "n < 16 \<Longrightarrow> hex_value (hex_upper n) = Some n"
  by (simp add: hex_value_def hex_upper_def)

lemma hex_pair_percent [simp]: "b < 256 \<Longrightarrow> hex_pair (percent b @ t) = Some (b, t)"
  by (simp add: percent_def)

lemma percent_Cons: "percent b @ t = CHR ''%'' # hex_upper (b div 16) # hex_upper (b mod 16) # t"
  by (simp add: percent_def)

lemma decode_Nil [simp]: "decodeURIComponent [] = Inr []"
  by (simp add: decodeURIComponent.simps)

lemma decode_plain: "c \<noteq> CHR ''%'' \<Longrightarrow>
  decodeURIComponent (c # t) = bind_result (decodeURIComponent t) (\<lambda>u. Inr (c # u))"
  by (subst decodeURIComponent.simps) simp

lemma decode_ascii: "b < 128 \<Longrightarrow>
  decodeURIComponent (percent b @ t) = bind_result (decodeURIComponent t) (\<lambda>u. Inr (char_of b # u))"
  by (subst decodeURIComponent.simps) (simp add: percent_Cons hex_pair_percent [unfolded percent_Cons])

lemma decode_latin1:
  assumes "128 \<le> u" "u < 256"
  shows "decodeURIComponent (percent (192 + u div 64) @ percent (128 + u mod 64) @ t) =
           bind_result (decodeURIComponent t) (\<lambda>v. Inr (char_of u # v))"
proof -
  have "192 + u div 64 = 194 \<or> 192 + u div 64 = 195" and lt: "192 + u div 64 < 256"
    using assms by linarith+
  moreover have "u mod 64 < 64" by simp
  then have "128 + u mod 64 < 192" by linarith
  moreover have "(192 + u div 64 - 192) * 64 + (128 + u mod 64 - 128) = u" by simp
  ultimately show ?thesis
    by (subst decodeURIComponent.simps)
      (simp add: percent_Cons hex_pair_percent [unfolded percent_Cons])
qed

lemma decode_encode_char:
  "decodeURIComponent (encode_char c @ t) = bind_result (decodeURIComponent t) (\<lambda>u. Inr (c # u))"
proof (cases "uri_unreserved c")
  case True
  then have "c \<noteq> CHR ''%''"
    by (auto simp: uri_unreserved_def js_is_alpha_def js_is_digit_def code_unit_def)
  with True show ?thesis by (simp add: encode_char_def decode_plain)
next
  case False
  then show ?thesis
    using decode_latin1 [of "code_unit c" t]
    by (cases "code_unit c < 128") (auto simp: encode_char_def utf8_char_def decode_ascii)
qed

lemma decode_encode_append:
  "decodeURIComponent (encodeURIComponent s @ t) = bind_result (decodeURIComponent t) (\<lambda>u. Inr (s @ u))"
proof (induction s)
  case Nil
  then show ?case by (cases "decodeURIComponent t") (auto simp: encodeURIComponent_def)
next
  case (Cons c s)
  then show ?case
    by (cases "decodeURIComponent t")
      (auto simp: encodeURIComponent_def decode_encode_char)
qed

lemma decode_encode: "decodeURIComponent (encodeURIComponent s) = Inr s"
  using decode_encode_append [of s "[]"] by simp

lemma traverse_decode_encode:
  "traverse_result decodeURIComponent (map encodeURIComponent ss) = Inr ss"
  by (induction ss) (auto simp: decode_encode)

lemma hex_upper_no_slash: "n < 16 \<Longrightarrow> hex_upper n \<noteq> slash"
proof
  assume "n < 16" and "hex_upper n = slash"
  then have "code_unit (hex_upper n) = 47" by (simp add: code_unit_def)
  with \<open>n < 16\<close> show False by (simp add: hex_upper_def split: if_splits)
qed

lemma percent_no_slash: "b < 256 \<Longrightarrow> slash \<notin> set (percent b)"
  using hex_upper_no_slash [of "b div 16"] hex_upper_no_slash [of "b mod 16"]
  by (auto simp: percent_def less_mult_imp_div_less)

lemma encode_char_no_slash: "slash \<notin> set (encode_char c)"
proof (cases "uri_unreserved c")
  case True
  then show ?thesis
    by (auto simp: encode_char_def uri_unreserved_def js_is_alpha_def js_is_digit_def code_unit_def)
next
  case False
  have "code_unit c mod 64 < 64" by simp
  then have "128 + code_unit c mod 64 < 256" by linarith
  moreover have "192 + code_unit c div 64 < 256" using code_unit_less [of c] by linarith
  ultimately show ?thesis
    using False code_unit_less [of c] percent_no_slash
    by (auto simp: encode_char_def utf8_char_def)
qed

lemma encode_no_slash: "slash \<notin> set (encodeURIComponent s)"
  using encode_char_no_slash by (auto simp: encodeURIComponent_def)

lemma encode_char_not_Nil: "encode_char c \<noteq> []"
  by (simp add: encode_char_def utf8_char_def percent_def)

lemma encode_eq_Nil: "encodeURIComponent s = [] \<longleftrightarrow> s = []"
  by (cases s) (auto simp: encodeURIComponent_def encode_char_not_Nil)

lemma pieces_encoded:
  "\<forall>s \<in> set segs. s \<noteq> [] \<Longrightarrow>
     js_pieces slash (js_join ''/'' (map encodeURIComponent segs)) = map encodeURIComponent segs"
  by (rule js_pieces_join) (auto simp: encode_no_slash encode_eq_Nil)

section \<open>Fingerprints\<close>

text \<open>The FNV prime is odd, hence invertible modulo \<open>2 ^ 32\<close>.\<close>

lemma fnv_prime_inverse: "(16777619 :: 32 word) * 899433627 = 1"
  by simp

lemma fnv_prime_cancel: "a * (16777619 :: 32 word) = b * 16777619 \<longleftrightarrow> a = b"
proof
  assume "a * (16777619 :: 32 word) = b * 16777619"
  then have "a * 16777619 * 899433627 = b * 16777619 * (899433627 :: 32 word)"
    by (rule arg_cong [where f = "\<lambda>x. x * 899433627"])
  then show "a = b" by (simp only: mult.assoc fnv_prime_inverse mult_1_right)
qed simp

lemma xor_cancel_right: "(a XOR c) = (b XOR c) \<longleftrightarrow> a = (b :: 'a::len word)"
  by (metis xor.assoc xor.right_neutral xor_self_eq)

lemma xor_cancel_left: "(c XOR a) = (c XOR b) \<longleftrightarrow> a = (b :: 'a::len word)"
  by (metis xor.commute xor_cancel_right)

lemma ucast_byte_inject: "(ucast (b :: byte) :: 32 word) = ucast c \<longleftrightarrow> b = c"
  by transfer simp

lemma fnv_step_inject_hash: "fnv_step b g = fnv_step b h \<longleftrightarrow> g = h"
  by (simp add: fnv_step_def fnv_prime_cancel xor_cancel_right)

lemma fnv_step_inject_byte: "fnv_step b h = fnv_step c h \<longleftrightarrow> b = c"
  by (simp add: fnv_step_def fnv_prime_cancel xor_cancel_left ucast_byte_inject)

lemma fold_fnv_inject: "fold fnv_step bs g = fold fnv_step bs h \<longleftrightarrow> g = h"
  by (induction bs arbitrary: g h) (auto simp: fnv_step_inject_hash)

lemma fnv1a_one_byte: "fnv1a (xs @ b # ys) = fnv1a (xs @ c # ys) \<longleftrightarrow> b = c"
  by (simp add: fnv1a_def fold_fnv_inject fnv_step_inject_byte)

lemma hex_value_lower [simp]: "n < 16 \<Longrightarrow> hex_value (hex_lower n) = Some n"
  by (simp add: hex_value_def hex_lower_def)

definition nat_of_hex :: "string \<Rightarrow> nat" where
  "nat_of_hex s = foldl (\<lambda>n c. 16 * n + the (hex_value c)) 0 s"

lemma nat_of_hex_snoc [simp]: "nat_of_hex (s @ [c]) = 16 * nat_of_hex s + the (hex_value c)"
  by (simp add: nat_of_hex_def)

lemma nat_of_hex_single: "nat_of_hex [c] = the (hex_value c)"
  by (simp add: nat_of_hex_def)

lemma nat_of_hex_to_hex [simp]: "nat_of_hex (to_hex n) = n"
proof (induction n rule: to_hex.induct)
  case (1 n)
  then show ?case
    by (cases "n < 16") (simp_all add: to_hex.simps [of n] nat_of_hex_single)
qed

lemma nat_of_hex_pad: "nat_of_hex (replicate k (CHR ''0'') @ s) = nat_of_hex s"
proof (induction k)
  case (Suc k)
  then show ?case by (simp add: nat_of_hex_def hex_value_def code_unit_def)
qed simp

lemma length_to_hex: "n < 16 ^ Suc k \<Longrightarrow> length (to_hex n) \<le> Suc k"
proof (induction k arbitrary: n)
  case 0
  then show ?case by (simp add: to_hex.simps [of n])
next
  case (Suc k)
  show ?case
  proof (cases "n < 16")
    case True
    then show ?thesis by (simp add: to_hex.simps [of n])
  next
    case False
    have "n div 16 < 16 ^ Suc k" using Suc.prems by (simp add: less_mult_imp_div_less mult.commute)
    with Suc.IH False show ?thesis by (simp add: to_hex.simps [of n])
  qed
qed

lemma fingerprint_eq_iff:
  "fingerprintContent a = fingerprintContent b \<longleftrightarrow>
     fnv1a (content_bytes a) = fnv1a (content_bytes b)"
proof
  assume "fingerprintContent a = fingerprintContent b"
  then have "pad_start 8 (CHR ''0'') (to_hex (unat (fnv1a (content_bytes a)))) =
             pad_start 8 (CHR ''0'') (to_hex (unat (fnv1a (content_bytes b))))"
    by (simp add: fingerprintContent_def)
  then have "unat (fnv1a (content_bytes a)) = unat (fnv1a (content_bytes b))"
    by (metis nat_of_hex_pad nat_of_hex_to_hex pad_start_def)
  then show "fnv1a (content_bytes a) = fnv1a (content_bytes b)" by (simp add: word_unat_eq_iff)
qed (simp add: fingerprintContent_def)

lemma fingerprint_length: "length (fingerprintContent a) = 16"
proof -
  let ?n = "unat (fnv1a (content_bytes a))"
  have "?n < 16 ^ Suc 7" using unsigned_less [of "fnv1a (content_bytes a)"] by simp
  then have "length (to_hex ?n) \<le> 8" using length_to_hex [of ?n 7] by simp
  then show ?thesis by (simp add: fingerprintContent_def pad_start_def)
qed

section \<open>Cursors and pages\<close>

lemma digits_not_space: "js_is_digit c \<Longrightarrow> \<not> js_is_space c"
  by (auto simp: js_is_digit_def js_is_space_def)

lemma trim_digits: "s \<noteq> [] \<Longrightarrow> list_all js_is_digit s \<Longrightarrow> js_trim s = s"
proof -
  assume s: "s \<noteq> []" "list_all js_is_digit s"
  then have "dropWhile js_is_space s = s"
    by (cases s) (auto simp: digits_not_space)
  moreover have "dropWhile js_is_space (rev s) = rev s"
    using s by (cases "rev s") (auto simp: list_all_iff digits_not_space
      dest: arg_cong [where f = set])
  ultimately show ?thesis by (simp add: js_trim_def js_trim_end_def js_trim_start_def)
qed

lemma takeWhile_digits: "list_all js_is_digit s \<Longrightarrow> take_digits s = (s, [])"
  by (simp add: take_digits_def list_all_iff)

lemma decimal_digits:
  "s \<noteq> [] \<Longrightarrow> list_all js_is_digit s \<Longrightarrow> js_decimal s = Some (int (nat_of_digits s), 0)"
  by (simp add: js_decimal_def takeWhile_digits js_exponent_def)

lemma radix_letters: "\<not> js_is_digit (CHR ''x'')" "\<not> js_is_digit (CHR ''X'')"
  "\<not> js_is_digit (CHR ''o'')" "\<not> js_is_digit (CHR ''O'')" "\<not> js_is_digit (CHR ''b'')"
  "\<not> js_is_digit (CHR ''B'')" "\<not> js_is_digit (CHR ''-'')" "\<not> js_is_digit (CHR ''+'')"
  by (simp_all add: js_is_digit_def code_unit_def)

lemma number_digits:
  assumes "s \<noteq> []" "list_all js_is_digit s" "nat_of_digits s < 2 ^ 53"
  shows "js_number s = Some (int (nat_of_digits s), 0)"
proof -
  obtain c r where s: "s = c # r" using assms(1) by (cases s) auto
  with assms(2) have "c \<noteq> CHR ''-''" "c \<noteq> CHR ''+''"
    and "r \<noteq> [] \<Longrightarrow> hd r \<notin> set ''xXoObB''"
    by (auto simp: radix_letters, (cases r, auto simp: radix_letters)+)
  moreover have "finite_double (int (nat_of_digits s), 0)"
  proof -
    have "int (nat_of_digits s) < 2 ^ 53" using assms(3) by simp
    also have "(2::int) ^ 53 \<le> 2 ^ 1024 - 2 ^ 970" by simp
    finally show ?thesis by (simp add: finite_double_def)
  qed
  ultimately show ?thesis
    using assms s by (cases r) (auto simp: js_number_def trim_digits decimal_digits)
qed

lemma parseCursor_digits: "n < 2 ^ 53 \<Longrightarrow> parseCursor (Some (digits_of_nat n)) = n"
  using number_digits [of "digits_of_nat n"] digits_of_nat_digits [of n]
  by (simp add: parseCursor_def decimal_integer_def)

lemma parseCursor_None [simp]: "parseCursor None = 0"
  by (simp add: parseCursor_def)

definition page_size :: "int option \<Rightarrow> nat" where
  "page_size limit = nat (max 1 (min (case limit of None \<Rightarrow> 100 | Some l \<Rightarrow> l) 1000))"

lemma page_size_pos: "0 < page_size limit" and page_size_le: "page_size limit \<le> 1000"
  by (auto simp: page_size_def)

lemma paginate_items:
  "page_items (paginate items cursor limit) = take (page_size limit) (drop (parseCursor cursor) items)"
  by (simp add: paginate_def page_size_def js_slice_def Let_def)

lemma paginate_next:
  "page_nextCursor (paginate items cursor limit) =
     (if parseCursor cursor + page_size limit < length items
      then Some (digits_of_nat (parseCursor cursor + page_size limit)) else None)"
  by (auto simp: paginate_def page_size_def js_slice_def Let_def min_def)

text \<open>A reader that follows \<open>nextCursor\<close> until it is undefined.\<close>

fun read_pages :: "nat \<Rightarrow> 'a list \<Rightarrow> int option \<Rightarrow> string option \<Rightarrow> 'a list option" where
  "read_pages 0 items limit cursor = None"
| "read_pages (Suc fuel) items limit cursor =
     (let page = paginate items cursor limit in
      case page_nextCursor page of
        None \<Rightarrow> Some (page_items page)
      | Some next \<Rightarrow> map_option ((@) (page_items page)) (read_pages fuel items limit (Some next)))"

lemma read_pages_from:
  assumes "length items < 2 ^ 53" and "length items - parseCursor cursor < fuel"
  shows "read_pages fuel items limit cursor = Some (drop (parseCursor cursor) items)"
  using assms(2)
proof (induction fuel arbitrary: cursor)
  case (Suc fuel)
  let ?p = "parseCursor cursor" and ?k = "page_size limit"
  show ?case
  proof (cases "?p + ?k < length items")
    case True
    then have c: "parseCursor (Some (digits_of_nat (?p + ?k))) = ?p + ?k"
      using assms(1) by (intro parseCursor_digits) linarith
    have "length items - (?p + ?k) < fuel" using Suc.prems True page_size_pos [of limit] by linarith
    then have "read_pages fuel items limit (Some (digits_of_nat (?p + ?k))) = Some (drop (?p + ?k) items)"
      using Suc.IH [of "Some (digits_of_nat (?p + ?k))"] c by simp
    with True show ?thesis
      by (simp add: Let_def paginate_next paginate_items)
        (metis add.commute append_take_drop_id drop_drop)
  next
    case False
    then show ?thesis by (simp add: Let_def paginate_next paginate_items)
  qed
qed simp

section \<open>Joining and moving path prefixes\<close>

lemma pieces_slashes_join_safe:
  "\<forall>s \<in> set segs. safe_segment s \<Longrightarrow> js_pieces slash (slashes (js_join ''/'' segs)) = segs"
  by (simp add: slashes_join_safe) (rule js_pieces_join, auto dest: safe_segment_chars)

lemma joinVfsPath_two:
  assumes "\<forall>s \<in> set a. safe_segment s" "\<forall>s \<in> set b. safe_segment s"
  shows "joinVfsPath [js_join ''/'' a, js_join ''/'' b] = js_join ''/'' (a @ b)"
proof -
  have sl: "slashes ''/'' = ''/''" by (simp add: slashes_def is_slash_def)
  have "slashes (js_join ''/'' [js_join ''/'' a, js_join ''/'' b]) =
        slashes (js_join ''/'' a) @ slash # slashes (js_join ''/'' b)"
    using sl by (simp add: slashes_def is_slash_def)
  then have "js_pieces slash (slashes (js_join ''/'' [js_join ''/'' a, js_join ''/'' b])) = a @ b"
    using assms by (simp only: js_pieces_append pieces_slashes_join_safe)
  then show ?thesis by (simp add: joinVfsPath_def)
qed

lemma joinVfsPath_single:
  "\<forall>s \<in> set a. safe_segment s \<Longrightarrow> joinVfsPath [js_join ''/'' a] = js_join ''/'' a"
  using joinVfsPath_def pieces_slashes_join_safe by simp

lemma dropWhile_join_safe:
  assumes "\<forall>s \<in> set b. safe_segment s"
  shows "dropWhile (\<lambda>c. c = slash) (js_join ''/'' b) = js_join ''/'' b"
proof (cases b)
  case (Cons s ss)
  with assms have "s \<noteq> []" "slash \<notin> set s" by (auto dest: safe_segment_chars)
  with Cons show ?thesis
    by (cases s; cases "ss = []") (auto simp: js_join_Cons)
qed simp

lemma replacePrefix_safe:
  assumes "\<forall>s \<in> set (a @ b @ c). safe_segment s" and "a \<noteq> []"
  shows "replacePrefix (js_join ''/'' (a @ b)) (js_join ''/'' a) (js_join ''/'' c) =
           js_join ''/'' (c @ b)"
proof (cases "b = []")
  case True
  with assms joinVfsPath_two [of c "[]"] show ?thesis by (simp add: replacePrefix_def)
next
  case False
  then have split: "js_join ''/'' (a @ b) = js_join ''/'' a @ slash # js_join ''/'' b"
    using assms(2) by (simp add: js_join_append)
  with assms have "dropWhile (\<lambda>c. c = slash) (drop (length (js_join ''/'' a)) (js_join ''/'' (a @ b))) =
      js_join ''/'' b"
    by (simp add: dropWhile_join_safe)
  moreover have "js_join ''/'' (a @ b) \<noteq> js_join ''/'' a" by (simp add: split)
  ultimately show ?thesis
    using assms joinVfsPath_two [of c b] by (simp add: replacePrefix_def)
qed

section \<open>Properties\<close>

text \<open>
  A path \<open>normalizeVfsPath\<close> accepts is a non-empty list of segments, none of which is
  empty, \<open>.\<close> or \<open>..\<close>, holds a separator, a control or reserved character, is longer than 255
  or is a reserved device name; and the joined path is accepted again with the same segments.
\<close>

lemma normalizeVfsPath_portable:
  assumes "normalizeVfsPath False v = Inr segs"
  shows "segs \<noteq> [] \<and>
    (\<forall>s \<in> set segs. s \<notin> {[], ''.'', ''..''} \<and> length s \<le> 255 \<and> slash \<notin> set s \<and>
       backslash \<notin> set s \<and> (\<forall>c \<in> set s. \<not> illegal_segment_char c) \<and> \<not> reserved_name s) \<and>
    normalizeVfsPath False (js_join ''/'' segs) = Inr segs"
  using normalize_Inr(1,2) [OF assms] normalize_idem [OF assms assms]
  by (auto dest: safe_segment_chars)

lemma normalizeVfsPath_portable_witness:
  "normalizeVfsPath False [CHR ''a'', CHR 0x5C, CHR ''b'', CHR ''/'', CHR ''c''] = Inr [''a'', ''b'', ''c''] \<and>
   normalizeVfsPath False ''a/b/c'' = Inr [''a'', ''b'', ''c'']"
proof -
  have h: "normalizeVfsPath False [CHR ''a'', CHR 0x5C, CHR ''b'', CHR ''/'', CHR ''c''] =
    Inr [''a'', ''b'', ''c'']" by code_simp
  show ?thesis using h normalizeVfsPath_portable [OF h] by simp
qed

text \<open>
  (C1) A resolved path lies below its root: the full path is the root's path, a separator and the
  joined segments, no segment steps up, and resolving the normalised path again gives the same
  answer.
\<close>

theorem resolveVfsPath_confined:
  assumes "resolveVfsPath roots rootId p = Inr x"
  shows "\<exists>root. map_of roots rootId = Some root \<and> res_root x = rootId \<and>
     res_mutable x = root_mutable root \<and>
     res_fullPath x = js_strip_end is_slash (root_path root) @ ''/'' @ res_path x \<and>
     js_split slash (res_path x) = res_segments x \<and>
     (\<forall>s \<in> set (res_segments x). s \<notin> {[], ''.'', ''..''}) \<and>
     resolveVfsPath roots rootId (res_path x) = Inr x"
proof -
  from resolve_Inr [OF assms] obtain root segs where
    "map_of roots rootId = Some root" and n: "normalizeVfsPath False p = Inr segs" and
    x: "x = \<lparr>res_root = rootId, res_path = js_join ''/'' segs,
         res_fullPath = js_strip_end is_slash (root_path root) @ ''/'' @ js_join ''/'' segs,
         res_segments = segs, res_mutable = root_mutable root\<rparr>" by blast
  moreover have "js_split slash (js_join ''/'' segs) = segs"
    using normalize_Inr(1,2) [OF n] by (intro js_split_join) (auto dest: safe_segment_chars)
  ultimately show ?thesis
    using normalize_Inr(2) [OF n] resolve_idem [OF assms] by (auto dest: safe_segment_chars)
qed

theorem resolveVfsPath_confined_witness:
  "\<exists>root x. resolveVfsPath (createDefaultVfsRoots ''/base/'') ''tmp'' ''a/b.txt'' = Inr x \<and>
     map_of (createDefaultVfsRoots ''/base/'') ''tmp'' = Some root \<and>
     res_fullPath x = js_strip_end is_slash (root_path root) @ ''/'' @ res_path x"
proof -
  have ok: "is_ok (resolveVfsPath (createDefaultVfsRoots ''/base/'') ''tmp'' ''a/b.txt'')"
    by code_simp
  then obtain x where x: "resolveVfsPath (createDefaultVfsRoots ''/base/'') ''tmp'' ''a/b.txt'' = Inr x"
    by (cases "resolveVfsPath (createDefaultVfsRoots ''/base/'') ''tmp'' ''a/b.txt''") auto
  show ?thesis using resolveVfsPath_confined [OF x] x by blast
qed

text \<open>
  URIs round-trip: the URI \<open>toVfsUri\<close> prints for a reference parses back, without an
  exception, to the same root and the normalised path.
\<close>

lemma vfsUri_roundtrip:
  assumes "toVfsUri ref = Inr uri" and "ref_root ref \<noteq> []" and "slash \<notin> set (ref_root ref)"
  shows "parseVfsUri uri = Inr (createVfsRef (ref_root ref) (ref_path ref)) \<and>
         is_ok (createVfsRef (ref_root ref) (ref_path ref))"
proof -
  from assms(1) obtain segs where n: "normalizeVfsPath False (ref_path ref) = Inr segs"
    and uri: "uri = ''vfs://'' @ ref_root ref @ slash # js_join ''/'' (map encodeURIComponent segs)"
    by (auto simp: toVfsUri_def bind_result_Inr)
  have safe: "\<forall>s \<in> set segs. s \<noteq> []"
    using normalize_Inr(2) [OF n] by (auto dest: safe_segment_chars)
  have idx: "js_index_of slash (ref_root ref @ slash # t) = Some (length (ref_root ref))" for t
    using assms(3) by (rule js_index_of_append)
  have "parseVfsUri uri = Inr (createVfsRef (ref_root ref) (js_join ''/'' segs))"
    using assms(2) unfolding parseVfsUri_def uri
    by (simp add: idx Let_def pieces_encoded [OF safe] traverse_decode_encode)
  moreover have "createVfsRef (ref_root ref) (js_join ''/'' segs) = createVfsRef (ref_root ref) (ref_path ref)"
    by (simp add: createVfsRef_def n normalize_idem [OF n n])
  ultimately show ?thesis by (simp add: createVfsRef_def n)
qed

lemma vfsUri_roundtrip_witness:
  "toVfsUri \<lparr>ref_root = ''projects'', ref_path = ''a b/c%d''\<rparr> = Inr ''vfs://projects/a%20b/c%25d'' \<and>
   parseVfsUri ''vfs://projects/a%20b/c%25d'' =
     Inr (createVfsRef ''projects'' ''a b/c%d'')"
proof -
  have h: "toVfsUri \<lparr>ref_root = ''projects'', ref_path = ''a b/c%d''\<rparr> = Inr ''vfs://projects/a%20b/c%25d''"
    by code_simp
  show ?thesis using vfsUri_roundtrip [OF h] h by simp
qed

text \<open>
  No policy can open an immutable root: whatever the policy grants, every mutating operation
  on it is refused, and an operation the check admits is in the root's operation list.
\<close>

lemma assertVfsPermission_sound:
  assumes "assertVfsPermission roots rootId operation policy = Inr root"
  shows "map_of roots rootId = Some root \<and> operation \<in> set (operationsForRoot root policy) \<and>
    (operation \<in> {Op_write, Op_delete, Op_mkdir, Op_move, Op_import} \<longrightarrow> root_mutable root)"
  using assms
  by (auto simp: assertVfsPermission_def MUTATING_OPERATIONS_def split: option.splits if_splits)

lemma assertVfsPermission_sound_witness:
  "\<exists>root. assertVfsPermission (createDefaultVfsRoots ''/b'') ''projects'' Op_write None = Inr root \<and>
     root_mutable root"
proof -
  have "is_ok (assertVfsPermission (createDefaultVfsRoots ''/b'') ''projects'' Op_write None)"
    by code_simp
  then obtain root where
    r: "assertVfsPermission (createDefaultVfsRoots ''/b'') ''projects'' Op_write None = Inr root"
    by (cases "assertVfsPermission (createDefaultVfsRoots ''/b'') ''projects'' Op_write None") auto
  show ?thesis using assertVfsPermission_sound [OF r] r by auto
qed

text \<open>
  The content fingerprint is sixteen characters long and detects every change of a single
  byte.
\<close>

lemma fingerprint_detects_one_byte:
  "length (fingerprintContent (Bytes (xs @ b # ys))) = 16 \<and>
   (fingerprintContent (Bytes (xs @ b # ys)) = fingerprintContent (Bytes (xs @ c # ys))) = (b = c)"
  by (simp add: fingerprint_length fingerprint_eq_iff fnv1a_one_byte)

text \<open>
  (C2) Following \<open>nextCursor\<close> from the first page reads every item exactly once and in order, and
  stops after at most as many pages as there are items (plus one).
\<close>

theorem paginate_reads_everything:
  assumes "length items < 2 ^ 53"
  shows "read_pages (Suc (length items)) items limit None = Some items"
  using read_pages_from [OF assms, of None "Suc (length items)" limit] by simp

theorem paginate_reads_everything_witness:
  "read_pages (Suc (length [10, 20, 30::nat])) [10, 20, 30::nat] (Some 2) None = Some [10, 20, 30]"
proof -
  have "length [10, 20, 30::nat] < 2 ^ 53" by simp
  then show ?thesis by (rule paginate_reads_everything)
qed

end
