(* ===== verification/Vfs_Catalog.thy ===== *)
theory Vfs_Catalog
  imports Vfs_Paths "HOL-Library.Multiset"
begin

text \<open>
  \<open>packages/desktop-foundation/src/vfs-catalog.ts\<close>: the resource catalog. Its state is the two
  insertion-ordered maps of \<open>createResourceCatalog\<close>; every method is one function that returns the
  new state next to the method's result. \<open>Date.now()\<close> defaults are passed in by the caller. The
  locale's collation (\<open>localeCompare\<close>) is a parameter of the sorting operation.
\<close>

section \<open>Types\<close>

datatype resource_origin = Packaged | Project | Imported | Generated | Exported

datatype source_kind = LocalFile | BrowserCapture | DragDrop | Clipboard | WatchedFolder | PackageSource

datatype derivative_kind = Thumbnail | Preview | Proxy | Histogram | Sidecar

datatype metadata_status = Ready | Failed | Stale

record derivative_record =
  dr_id :: string
  dr_resourceId :: string
  dr_kind :: derivative_kind
  dr_root :: string
  dr_path :: string
  dr_sourceFingerprint :: string
  dr_pluginId :: "string option"
  dr_pluginVersion :: "string option"
  dr_width :: "int option"
  dr_height :: "int option"
  dr_size :: "int option"
  dr_invalidatedAtMs :: "int option"

record import_provenance =
  ip_sourceKind :: source_kind
  ip_importBatchId :: "string option"
  ip_originalPath :: "string option"
  ip_sourceUrl :: "string option"
  ip_title :: "string option"
  ip_referrer :: "string option"
  ip_licenseNote :: "string option"
  ip_capturedAtMs :: "int option"

record versioned_metadata =
  vm_pluginId :: string
  vm_pluginVersion :: string
  vm_schemaVersion :: string
  vm_status :: metadata_status
  vm_updatedAtMs :: int
  vm_data :: "(string \<times> js_value) list"
  vm_errorCode :: "string option"

record resource_record =
  rr_id :: string
  rr_type :: string
  rr_origin :: resource_origin
  rr_fingerprint :: string
  rr_size :: nat
  rr_createdAtMs :: int
  rr_updatedAtMs :: int
  rr_root :: string
  rr_path :: string
  rr_uri :: string
  rr_mutable :: bool
  rr_contentType :: "string option"
  rr_projectId :: "string option"
  rr_tags :: "string list option"
  rr_rating :: "int option"
  rr_colorLabel :: "string option"
  rr_notes :: "string option"
  rr_annotations :: "js_value list option"
  rr_favorite :: "bool option"
  rr_virtualFolders :: "string list option"
  rr_collections :: "string list option"
  rr_importBatchId :: "string option"
  rr_source :: "import_provenance option"
  rr_derivatives :: "derivative_record list option"
  rr_pluginMetadata :: "(string \<times> versioned_metadata) list option"
  rr_deletedAtMs :: "int option"
  rr_trashedAtMs :: "int option"

record import_batch =
  ib_id :: string
  ib_sourceKind :: source_kind
  ib_createdAtMs :: int
  ib_title :: "string option"
  ib_sourceUrl :: "string option"
  ib_originalPath :: "string option"
  ib_referrer :: "string option"
  ib_licenseNote :: "string option"
  ib_tags :: "string list option"
  ib_resourceIds :: "string list"

record catalog_filter =
  f_root :: "string option"
  f_type :: "string option"
  f_origin :: "resource_origin option"
  f_mutable :: "bool option"
  f_projectId :: "string option"
  f_tag :: "string option"
  f_ratingMin :: "int option"
  f_ratingMax :: "int option"
  f_colorLabel :: "string option"
  f_favorite :: "bool option"
  f_fingerprint :: "string option"
  f_extension :: "string option"
  f_contentType :: "string option"
  f_pathPrefix :: "string option"
  f_virtualFolder :: "string option"
  f_collection :: "string option"
  f_duplicateOf :: "string option"
  f_importBatchId :: "string option"
  f_sourceKind :: "source_kind option"
  f_pluginId :: "string option"
  f_pluginStatus :: "metadata_status option"
  f_includeTrashed :: "bool option"
  f_cursor :: "string option"
  f_limit :: "int option"

definition no_filter :: catalog_filter where
  "no_filter = \<lparr>f_root = None, f_type = None, f_origin = None, f_mutable = None, f_projectId = None,
     f_tag = None, f_ratingMin = None, f_ratingMax = None, f_colorLabel = None, f_favorite = None,
     f_fingerprint = None, f_extension = None, f_contentType = None, f_pathPrefix = None,
     f_virtualFolder = None, f_collection = None, f_duplicateOf = None, f_importBatchId = None,
     f_sourceKind = None, f_pluginId = None, f_pluginStatus = None, f_includeTrashed = None,
     f_cursor = None, f_limit = None\<rparr>"

datatype sort_field = SortPath | SortUpdatedAtMs | SortCreatedAtMs | SortSize | SortRating

record sort_item =
  si_field :: sort_field
  si_desc :: bool

record smart_folder =
  sf_id :: string
  sf_name :: string
  sf_filter :: catalog_filter
  sf_sort :: "sort_item list"

record catalog_state =
  cat_records :: "resource_record js_map"
  cat_batches :: "import_batch js_map"

section \<open>Creation\<close>

record record_input =
  in_id :: string
  in_type :: string
  in_origin :: resource_origin
  in_content :: vfs_content
  in_root :: string
  in_path :: string
  in_mutable :: bool
  in_uri :: "string option"
  in_contentType :: "string option"
  in_projectId :: "string option"
  in_tags :: "string list option"
  in_rating :: "int option"
  in_colorLabel :: "string option"
  in_notes :: "string option"
  in_annotations :: "js_value list option"
  in_favorite :: "bool option"
  in_virtualFolders :: "string list option"
  in_collections :: "string list option"
  in_importBatchId :: "string option"
  in_source :: "import_provenance option"
  in_derivatives :: "derivative_record list option"
  in_pluginMetadata :: "(string \<times> versioned_metadata) list option"
  in_nowMs :: "int option"

definition createResourceRecord :: "int \<Rightarrow> record_input \<Rightarrow> resource_record" where
  "createResourceRecord dateNow inp =
     (let now = (case in_nowMs inp of None \<Rightarrow> dateNow | Some t \<Rightarrow> t) in
      \<lparr>rr_id = in_id inp, rr_type = in_type inp, rr_origin = in_origin inp,
       rr_fingerprint = fingerprintContent (in_content inp), rr_size = byteLength (in_content inp),
       rr_createdAtMs = now, rr_updatedAtMs = now, rr_root = in_root inp, rr_path = in_path inp,
       rr_uri = js_or_opt (in_uri inp) (''vfs://'' @ in_root inp @ ''/'' @ in_path inp),
       rr_mutable = in_mutable inp, rr_contentType = in_contentType inp,
       rr_projectId = in_projectId inp, rr_tags = in_tags inp, rr_rating = in_rating inp,
       rr_colorLabel = in_colorLabel inp, rr_notes = in_notes inp,
       rr_annotations = in_annotations inp, rr_favorite = in_favorite inp,
       rr_virtualFolders = in_virtualFolders inp, rr_collections = in_collections inp,
       rr_importBatchId = in_importBatchId inp, rr_source = in_source inp,
       rr_derivatives = in_derivatives inp, rr_pluginMetadata = in_pluginMetadata inp,
       rr_deletedAtMs = None, rr_trashedAtMs = None\<rparr>)"

definition createResourceCatalog :: "resource_record list \<Rightarrow> catalog_state" where
  "createResourceCatalog initialRecords =
     \<lparr>cat_records = fold (\<lambda>r. AList.update (rr_id r) r) initialRecords [], cat_batches = []\<rparr>"

section \<open>Queries\<close>

definition opt_matches :: "'a option \<Rightarrow> ('a \<Rightarrow> bool) \<Rightarrow> bool" where
  "opt_matches f p = (case f of None \<Rightarrow> True | Some x \<Rightarrow> p x)"

definition opt_list :: "'a list option \<Rightarrow> 'a list" where
  "opt_list xs = (case xs of None \<Rightarrow> [] | Some ys \<Rightarrow> ys)"

definition path_below :: "string \<Rightarrow> string \<Rightarrow> bool" where
  \<comment> \<open>\<open>path === p || path.startsWith(`${p}/`)\<close>\<close>
  "path_below p path \<longleftrightarrow> path = p \<or> prefix (p @ ''/'') path"

definition matches :: "catalog_state \<Rightarrow> resource_record \<Rightarrow> catalog_filter \<Rightarrow> bool" where
  "matches cat r f =
     (let duplicateOfRecord = (case f_duplicateOf f of
            None \<Rightarrow> None
          | Some i \<Rightarrow> if i = [] then None else map_of (cat_records cat) i);
          rating = (case rr_rating r of None \<Rightarrow> 0 | Some n \<Rightarrow> n)
      in
      opt_matches (f_root f) (\<lambda>x. rr_root r = x) \<and>
      opt_matches (f_type f) (\<lambda>x. rr_type r = x) \<and>
      opt_matches (f_origin f) (\<lambda>x. rr_origin r = x) \<and>
      opt_matches (f_mutable f) (\<lambda>x. rr_mutable r = x) \<and>
      opt_matches (f_projectId f) (\<lambda>x. rr_projectId r = Some x) \<and>
      opt_matches (f_tag f) (\<lambda>x. x \<in> set (opt_list (rr_tags r))) \<and>
      opt_matches (f_ratingMin f) (\<lambda>x. rating \<ge> x) \<and>
      opt_matches (f_ratingMax f) (\<lambda>x. rating \<le> x) \<and>
      opt_matches (f_colorLabel f) (\<lambda>x. rr_colorLabel r = Some x) \<and>
      opt_matches (f_favorite f) (\<lambda>x. rr_favorite r = Some x) \<and>
      opt_matches (f_fingerprint f) (\<lambda>x. rr_fingerprint r = x) \<and>
      opt_matches (f_extension f) (\<lambda>x. getExtension (rr_path r) = x) \<and>
      opt_matches (f_contentType f) (\<lambda>x. rr_contentType r = Some x) \<and>
      opt_matches (f_pathPrefix f) (\<lambda>x. path_below x (rr_path r)) \<and>
      opt_matches (f_virtualFolder f) (\<lambda>x. x \<in> set (opt_list (rr_virtualFolders r))) \<and>
      opt_matches (f_collection f) (\<lambda>x. x \<in> set (opt_list (rr_collections r))) \<and>
      opt_matches (f_importBatchId f) (\<lambda>x. rr_importBatchId r = Some x) \<and>
      opt_matches (f_sourceKind f) (\<lambda>x. map_option ip_sourceKind (rr_source r) = Some x) \<and>
      opt_matches (f_pluginId f) (\<lambda>x. map_of (opt_list (rr_pluginMetadata r)) x \<noteq> None) \<and>
      opt_matches (f_pluginStatus f)
        (\<lambda>x. list_ex (\<lambda>m. vm_status m = x) (js_values (opt_list (rr_pluginMetadata r)))) \<and>
      (f_includeTrashed f = Some True \<or> rr_trashedAtMs r = None) \<and>
      opt_matches duplicateOfRecord
        (\<lambda>d. rr_id r \<noteq> rr_id d \<and> rr_fingerprint r = rr_fingerprint d))"

definition cat_find :: "catalog_state \<Rightarrow> catalog_filter \<Rightarrow> resource_record list" where
  "cat_find cat f = filter (\<lambda>r. matches cat r f) (js_values (cat_records cat))"

definition cat_get :: "catalog_state \<Rightarrow> string \<Rightarrow> resource_record option" where
  "cat_get cat i = map_of (cat_records cat) i"

definition cat_findPage :: "catalog_state \<Rightarrow> catalog_filter \<Rightarrow> resource_record vfs_page" where
  "cat_findPage cat f = paginate (cat_find cat f) (f_cursor f) (f_limit f)"

definition cat_count :: "catalog_state \<Rightarrow> catalog_filter \<Rightarrow> nat" where
  "cat_count cat f = length (filter (\<lambda>r. matches cat r f) (js_values (cat_records cat)))"

definition cat_findDuplicates :: "catalog_state \<Rightarrow> string \<Rightarrow> resource_record list" where
  "cat_findDuplicates cat fp = cat_find cat (no_filter\<lparr>f_fingerprint := Some fp\<rparr>)"

definition cat_list :: "catalog_state \<Rightarrow> resource_record list" where
  "cat_list cat = cat_find cat no_filter"

fun string_less :: "string \<Rightarrow> string \<Rightarrow> bool" where
  "string_less [] [] = False"
| "string_less [] (d # ds) = True"
| "string_less (c # cs) [] = False"
| "string_less (c # cs) (d # ds) =
     (code_unit c < code_unit d \<or> (c = d \<and> string_less cs ds))"

fun numeric_field :: "sort_field \<Rightarrow> resource_record \<Rightarrow> int" where
  "numeric_field SortUpdatedAtMs r = rr_updatedAtMs r"
| "numeric_field SortCreatedAtMs r = rr_createdAtMs r"
| "numeric_field SortSize r = int (rr_size r)"
| "numeric_field SortRating r = (case rr_rating r of None \<Rightarrow> 0 | Some n \<Rightarrow> n)"
| "numeric_field SortPath r = 0"

definition field_less :: "sort_field \<Rightarrow> resource_record \<Rightarrow> resource_record \<Rightarrow> bool" where
  "field_less fld l r =
     (if fld = SortPath then string_less (rr_path l) (rr_path r)
      else numeric_field fld l < numeric_field fld r)"

fun compare_records ::
  "(string \<Rightarrow> string \<Rightarrow> int) \<Rightarrow> sort_item list \<Rightarrow> resource_record \<Rightarrow> resource_record \<Rightarrow> int" where
  "compare_records localeCompare [] l r = localeCompare (rr_path l) (rr_path r)"
| "compare_records localeCompare (item # items) l r =
     (let direction = (if si_desc item then -1 else 1) in
      if field_less (si_field item) l r then -1 * direction
      else if field_less (si_field item) r l then 1 * direction
      else compare_records localeCompare items l r)"

fun insert_record :: "('a \<Rightarrow> 'a \<Rightarrow> int) \<Rightarrow> 'a \<Rightarrow> 'a list \<Rightarrow> 'a list" where
  "insert_record cmp x [] = [x]"
| "insert_record cmp x (y # ys) = (if cmp x y \<le> 0 then x # y # ys else y # insert_record cmp x ys)"

definition stable_sort :: "('a \<Rightarrow> 'a \<Rightarrow> int) \<Rightarrow> 'a list \<Rightarrow> 'a list" where
  \<comment> \<open>\<open>Array.prototype.sort\<close>: stable for a consistent comparator\<close>
  "stable_sort cmp xs = foldr (insert_record cmp) xs []"

definition sortRecords ::
  "(string \<Rightarrow> string \<Rightarrow> int) \<Rightarrow> resource_record list \<Rightarrow> sort_item list \<Rightarrow> resource_record list" where
  "sortRecords localeCompare nextRecords items =
     stable_sort (compare_records localeCompare items) nextRecords"

definition querySmartFolder ::
  "(string \<Rightarrow> string \<Rightarrow> int) \<Rightarrow> catalog_state \<Rightarrow> smart_folder \<Rightarrow> resource_record vfs_page" where
  "querySmartFolder localeCompare cat folder =
     paginate (sortRecords localeCompare (cat_find cat (sf_filter folder)) (sf_sort folder))
       (f_cursor (sf_filter folder)) (f_limit (sf_filter folder))"

section \<open>Updates\<close>

definition put_record :: "string \<Rightarrow> resource_record \<Rightarrow> catalog_state \<Rightarrow> catalog_state" where
  \<comment> \<open>\<open>records.set(id, record)\<close>\<close>
  "put_record i r cat = cat\<lparr>cat_records := AList.update i r (cat_records cat)\<rparr>"

definition cat_upsert :: "resource_record \<Rightarrow> catalog_state \<Rightarrow> resource_record \<times> catalog_state" where
  "cat_upsert r cat = (r, put_record (rr_id r) r cat)"

definition cat_upsertMany ::
  "resource_record list \<Rightarrow> catalog_state \<Rightarrow> resource_record list \<times> catalog_state" where
  "cat_upsertMany rs cat = (rs, fold (\<lambda>r. put_record (rr_id r) r) rs cat)"

definition modify_record ::
  "string \<Rightarrow> (resource_record \<Rightarrow> resource_record) \<Rightarrow> catalog_state \<Rightarrow>
     resource_record option \<times> catalog_state" where
  \<comment> \<open>the shared shape: look the id up, give up when absent, store and return the next record\<close>
  "modify_record i f cat =
     (case map_of (cat_records cat) i of
        None \<Rightarrow> (None, cat)
      | Some r \<Rightarrow> (Some (f r), put_record i (f r) cat))"

definition moved_record :: "string \<Rightarrow> string \<Rightarrow> resource_record \<Rightarrow> resource_record" where
  "moved_record source target r =
     (let path = replacePrefix (rr_path r) source target in
      r\<lparr>rr_path := path, rr_uri := ''vfs://'' @ rr_root r @ ''/'' @ path\<rparr>)"

definition cat_movePathPrefix ::
  "string \<Rightarrow> string \<Rightarrow> string \<Rightarrow> catalog_state \<Rightarrow> nat \<times> catalog_state" where
  "cat_movePathPrefix root sourcePrefix targetPrefix cat =
     (let source = joinVfsPath [sourcePrefix]; target = joinVfsPath [targetPrefix];
          affected = (\<lambda>r. rr_root r = root \<and> path_below source (rr_path r))
      in (length (filter affected (js_values (cat_records cat))),
          cat\<lparr>cat_records :=
            map (\<lambda>(i, r). (i, if affected r then moved_record source target r else r)) (cat_records cat)\<rparr>))"

definition cat_upsertDerivative ::
  "string \<Rightarrow> derivative_record \<Rightarrow> catalog_state \<Rightarrow> resource_record option \<times> catalog_state" where
  "cat_upsertDerivative resourceId d cat =
     modify_record resourceId
       (\<lambda>r. r\<lparr>rr_derivatives := Some (filter (\<lambda>x. dr_id x \<noteq> dr_id d) (opt_list (rr_derivatives r)) @ [d])\<rparr>)
       cat"

definition cat_listDerivatives :: "catalog_state \<Rightarrow> string \<Rightarrow> derivative_record list" where
  "cat_listDerivatives cat resourceId =
     opt_list (Option.bind (map_of (cat_records cat) resourceId) rr_derivatives)"

definition invalidate_all :: "int \<Rightarrow> resource_record \<Rightarrow> derivative_record list" where
  "invalidate_all nowMs r =
     map (\<lambda>d. d\<lparr>dr_invalidatedAtMs := Some nowMs\<rparr>) (opt_list (rr_derivatives r))"

definition cat_invalidateDerivatives ::
  "string \<Rightarrow> int \<Rightarrow> catalog_state \<Rightarrow> derivative_record list \<times> catalog_state" where
  "cat_invalidateDerivatives resourceId nowMs cat =
     (let (r, cat') = modify_record resourceId (\<lambda>r. r\<lparr>rr_derivatives := Some (invalidate_all nowMs r)\<rparr>) cat
      in (opt_list (Option.bind r rr_derivatives), cat'))"

definition invalid_at :: "int \<Rightarrow> derivative_record \<Rightarrow> bool" where
  "invalid_at nowMs d = (case dr_invalidatedAtMs d of None \<Rightarrow> False | Some t \<Rightarrow> t \<le> nowMs)"

definition drop_invalid :: "int \<Rightarrow> resource_record \<Rightarrow> resource_record" where
  "drop_invalid nowMs r =
     (let ds = opt_list (rr_derivatives r); kept = filter (\<lambda>d. \<not> invalid_at nowMs d) ds
      in if length kept \<noteq> length ds then r\<lparr>rr_derivatives := Some kept\<rparr> else r)"

definition cat_cleanupInvalidDerivatives ::
  "int \<Rightarrow> catalog_state \<Rightarrow> derivative_record list \<times> catalog_state" where
  "cat_cleanupInvalidDerivatives nowMs cat =
     (concat (map (\<lambda>r. filter (invalid_at nowMs) (opt_list (rr_derivatives r))) (js_values (cat_records cat))),
      cat\<lparr>cat_records := map (\<lambda>(i, r). (i, drop_invalid nowMs r)) (cat_records cat)\<rparr>)"

definition batch_record :: "import_batch \<Rightarrow> resource_record \<Rightarrow> resource_record" where
  "batch_record b r =
     r\<lparr>rr_importBatchId := Some (ib_id b),
       rr_tags := Some (rev (remdups (rev (opt_list (rr_tags r) @ opt_list (ib_tags b))))),
       rr_source := Some \<lparr>ip_sourceKind = ib_sourceKind b, ip_importBatchId = Some (ib_id b),
          ip_originalPath = ib_originalPath b, ip_sourceUrl = ib_sourceUrl b, ip_title = ib_title b,
          ip_referrer = ib_referrer b, ip_licenseNote = ib_licenseNote b,
          ip_capturedAtMs = Some (ib_createdAtMs b)\<rparr>\<rparr>"

definition cat_recordImportBatch ::
  "import_batch \<Rightarrow> catalog_state \<Rightarrow> import_batch \<times> catalog_state" where
  "cat_recordImportBatch b cat =
     (b, fold (\<lambda>i c. snd (modify_record i (batch_record b) c)) (ib_resourceIds b)
           (cat\<lparr>cat_batches := AList.update (ib_id b) b (cat_batches cat)\<rparr>))"

definition cat_getImportBatch :: "catalog_state \<Rightarrow> string \<Rightarrow> import_batch option" where
  "cat_getImportBatch cat i = map_of (cat_batches cat) i"

definition cat_listImportBatches :: "catalog_state \<Rightarrow> import_batch list" where
  "cat_listImportBatches cat = js_values (cat_batches cat)"

definition stalePluginMetadata ::
  "(string \<times> versioned_metadata) list option \<Rightarrow> int \<Rightarrow> (string \<times> versioned_metadata) list option" where
  "stalePluginMetadata metadata nowMs =
     map_option (map (\<lambda>(i, m). (i, m\<lparr>vm_status := Stale, vm_updatedAtMs := nowMs\<rparr>))) metadata"

definition cat_reconcileExternalChange ::
  "string \<Rightarrow> vfs_content \<Rightarrow> int \<Rightarrow> catalog_state \<Rightarrow> resource_record option \<times> catalog_state" where
  "cat_reconcileExternalChange i content nowMs cat =
     modify_record i
       (\<lambda>r. r\<lparr>rr_fingerprint := fingerprintContent content, rr_size := byteLength content,
              rr_updatedAtMs := nowMs, rr_derivatives := Some (invalidate_all nowMs r),
              rr_pluginMetadata := stalePluginMetadata (rr_pluginMetadata r) nowMs\<rparr>) cat"

definition cat_removeFromCollection ::
  "string \<Rightarrow> string \<Rightarrow> catalog_state \<Rightarrow> resource_record option \<times> catalog_state" where
  "cat_removeFromCollection i collection cat =
     modify_record i
       (\<lambda>r. r\<lparr>rr_collections := Some (filter (\<lambda>x. x \<noteq> collection) (opt_list (rr_collections r)))\<rparr>) cat"

definition cat_markTrashed ::
  "string \<Rightarrow> int \<Rightarrow> catalog_state \<Rightarrow> resource_record option \<times> catalog_state" where
  "cat_markTrashed i nowMs cat = modify_record i (\<lambda>r. r\<lparr>rr_trashedAtMs := Some nowMs\<rparr>) cat"

definition cat_restore :: "string \<Rightarrow> catalog_state \<Rightarrow> resource_record option \<times> catalog_state" where
  "cat_restore i cat = modify_record i (\<lambda>r. r\<lparr>rr_trashedAtMs := None, rr_deletedAtMs := None\<rparr>) cat"

definition purgeable :: "int \<Rightarrow> resource_record \<Rightarrow> bool" where
  "purgeable nowMs r = (case rr_trashedAtMs r of None \<Rightarrow> False | Some t \<Rightarrow> t \<le> nowMs)"

definition cat_purgeTrashed :: "int \<Rightarrow> catalog_state \<Rightarrow> resource_record list \<times> catalog_state" where
  "cat_purgeTrashed nowMs cat =
     (map (\<lambda>r. r\<lparr>rr_deletedAtMs := Some nowMs\<rparr>) (filter (purgeable nowMs) (js_values (cat_records cat))),
      cat\<lparr>cat_records := filter (\<lambda>(i, r). \<not> purgeable nowMs r) (cat_records cat)\<rparr>)"

definition cat_remove :: "string \<Rightarrow> catalog_state \<Rightarrow> catalog_state" where
  "cat_remove i cat = cat\<lparr>cat_records := AList.delete i (cat_records cat)\<rparr>"

section \<open>The catalog as a machine\<close>

datatype catalog_call =
    Upsert resource_record
  | UpsertMany "resource_record list"
  | MovePathPrefix string string string
  | UpsertDerivative string derivative_record
  | InvalidateDerivatives string int
  | CleanupInvalidDerivatives int
  | RecordImportBatch import_batch
  | ReconcileExternalChange string vfs_content int
  | RemoveFromCollection string string
  | MarkTrashed string int
  | Restore string
  | PurgeTrashed int
  | Remove string

fun catalog_step :: "catalog_call \<Rightarrow> catalog_state \<Rightarrow> catalog_state" where
  "catalog_step (Upsert r) cat = snd (cat_upsert r cat)"
| "catalog_step (UpsertMany rs) cat = snd (cat_upsertMany rs cat)"
| "catalog_step (MovePathPrefix root s t) cat = snd (cat_movePathPrefix root s t cat)"
| "catalog_step (UpsertDerivative i d) cat = snd (cat_upsertDerivative i d cat)"
| "catalog_step (InvalidateDerivatives i t) cat = snd (cat_invalidateDerivatives i t cat)"
| "catalog_step (CleanupInvalidDerivatives t) cat = snd (cat_cleanupInvalidDerivatives t cat)"
| "catalog_step (RecordImportBatch b) cat = snd (cat_recordImportBatch b cat)"
| "catalog_step (ReconcileExternalChange i c t) cat = snd (cat_reconcileExternalChange i c t cat)"
| "catalog_step (RemoveFromCollection i c) cat = snd (cat_removeFromCollection i c cat)"
| "catalog_step (MarkTrashed i t) cat = snd (cat_markTrashed i t cat)"
| "catalog_step (Restore i) cat = snd (cat_restore i cat)"
| "catalog_step (PurgeTrashed t) cat = snd (cat_purgeTrashed t cat)"
| "catalog_step (Remove i) cat = cat_remove i cat"

definition catalog_ok :: "catalog_state \<Rightarrow> bool" where
  "catalog_ok cat \<longleftrightarrow> js_map_ok (cat_records cat) \<and> js_map_ok (cat_batches cat) \<and>
     (\<forall>(i, r) \<in> set (cat_records cat). rr_id r = i) \<and>
     (\<forall>(i, b) \<in> set (cat_batches cat). ib_id b = i)"

section \<open>The invariant\<close>

lemma alist_update_entries:
  "(j, w) \<in> set (AList.update i v m) \<Longrightarrow> (j = i \<and> w = v) \<or> (j, w) \<in> set m"
  by (induction m) (auto split: if_splits)

lemma alist_update_ball:
  "(\<forall>(j, w) \<in> set m. P j w) \<Longrightarrow> P i v \<Longrightarrow> \<forall>(j, w) \<in> set (AList.update i v m). P j w"
  by (auto dest!: alist_update_entries)

lemma put_record_ok: "catalog_ok cat \<Longrightarrow> rr_id r = i \<Longrightarrow> catalog_ok (put_record i r cat)"
  by (auto simp: catalog_ok_def put_record_def js_map.invar_put dest!: alist_update_entries)

lemma catalog_ok_get: "catalog_ok cat \<Longrightarrow> map_of (cat_records cat) i = Some r \<Longrightarrow> rr_id r = i"
  by (auto simp: catalog_ok_def dest!: map_of_SomeD)

lemma modify_record_ok:
  assumes "catalog_ok cat" and "\<And>r. rr_id (f r) = rr_id r"
  shows "catalog_ok (snd (modify_record i f cat))"
  using assms by (auto simp: modify_record_def put_record_ok catalog_ok_get split: option.splits)

lemma fold_ok:
  assumes "\<And>x c. catalog_ok c \<Longrightarrow> catalog_ok (f x c)" and "catalog_ok cat"
  shows "catalog_ok (fold f xs cat)"
  using assms(2) by (induction xs arbitrary: cat) (auto intro: assms(1))

lemma map_records_ok:
  assumes "catalog_ok cat" and "\<And>r. rr_id (f r) = rr_id r"
  shows "catalog_ok (cat\<lparr>cat_records := map (\<lambda>(i, r). (i, f r)) (cat_records cat)\<rparr>)"
  using assms js_map_ok_map_values [of "cat_records cat" "\<lambda>_. f"]
  by (auto simp: catalog_ok_def)

lemma batch_record_id [simp]: "rr_id (batch_record b r) = rr_id r"
  by (simp add: batch_record_def)

lemma recordImportBatch_ok:
  assumes "catalog_ok cat"
  shows "catalog_ok (snd (cat_recordImportBatch b cat))"
proof -
  have "catalog_ok (cat\<lparr>cat_batches := AList.update (ib_id b) b (cat_batches cat)\<rparr>)"
    using assms by (auto simp: catalog_ok_def js_map.invar_put dest!: alist_update_entries)
  then show ?thesis
    unfolding cat_recordImportBatch_def snd_conv by (intro fold_ok modify_record_ok) simp_all
qed

lemma movePathPrefix_ok:
  assumes "catalog_ok cat"
  shows "catalog_ok (snd (cat_movePathPrefix root s t cat))"
  unfolding cat_movePathPrefix_def Let_def snd_conv
  by (rule map_records_ok [OF assms]) (simp add: moved_record_def Let_def)

lemma cleanup_ok:
  assumes "catalog_ok cat"
  shows "catalog_ok (snd (cat_cleanupInvalidDerivatives t cat))"
  unfolding cat_cleanupInvalidDerivatives_def snd_conv
  by (rule map_records_ok [OF assms]) (simp add: drop_invalid_def Let_def)

lemma purge_ok: "catalog_ok cat \<Longrightarrow> catalog_ok (snd (cat_purgeTrashed t cat))"
  by (auto simp: catalog_ok_def cat_purgeTrashed_def js_map_ok_filter)

lemma remove_ok: "catalog_ok cat \<Longrightarrow> catalog_ok (cat_remove i cat)"
  by (auto simp: catalog_ok_def cat_remove_def js_map.invar_del AList.delete_eq js_map_ok_filter)

lemmas modify_defs = cat_upsertDerivative_def cat_reconcileExternalChange_def
  cat_removeFromCollection_def cat_markTrashed_def cat_restore_def

lemma catalog_step_ok: "catalog_ok cat \<Longrightarrow> catalog_ok (catalog_step c cat)"
proof (cases c)
  case (InvalidateDerivatives i t)
  assume "catalog_ok cat"
  then show ?thesis
    using InvalidateDerivatives
      modify_record_ok [of cat "\<lambda>r. r\<lparr>rr_derivatives := Some (invalidate_all t r)\<rparr>" i]
    by (simp add: cat_invalidateDerivatives_def case_prod_beta Let_def)
next
  case (UpsertMany rs)
  assume "catalog_ok cat"
  with UpsertMany show ?thesis by (simp add: cat_upsertMany_def fold_ok put_record_ok)
qed (simp_all add: cat_upsert_def put_record_ok movePathPrefix_ok cleanup_ok recordImportBatch_ok
       purge_ok remove_ok modify_defs modify_record_ok)

lemma createResourceCatalog_ok: "catalog_ok (createResourceCatalog rs)"
proof -
  have "js_map_ok m \<and> (\<forall>(i, r) \<in> set m. rr_id r = i) \<Longrightarrow>
        js_map_ok (fold (\<lambda>r. AList.update (rr_id r) r) rs m) \<and>
        (\<forall>(i, r) \<in> set (fold (\<lambda>r. AList.update (rr_id r) r) rs m). rr_id r = i)" for m
  proof (induction rs arbitrary: m)
    case (Cons r rs)
    have "js_map_ok (AList.update (rr_id r) r m) \<and>
      (\<forall>(i, q) \<in> set (AList.update (rr_id r) r m). rr_id q = i)"
      using Cons.prems by (auto simp: js_map.invar_put dest!: alist_update_entries)
    then show ?case using Cons.IH [of "AList.update (rr_id r) r m"] by simp
  qed simp
  from this [of "[]"] show ?thesis by (simp add: catalog_ok_def createResourceCatalog_def)
qed

interpretation catalog: guarded_machine
  "\<lambda>s. \<exists>rs. s = createResourceCatalog rs" catalog_step catalog_ok
  by unfold_locales (auto intro: createResourceCatalog_ok catalog_step_ok)

section \<open>Lookups after updates\<close>

lemma modify_record_get:
  "cat_get (snd (modify_record i f cat)) j =
     (if j = i then map_option f (cat_get cat i) else cat_get cat j)"
  by (auto simp: modify_record_def cat_get_def put_record_def update_conv' split: option.splits)

lemma modify_record_result: "fst (modify_record i f cat) = map_option f (cat_get cat i)"
  by (auto simp: modify_record_def cat_get_def split: option.splits)

lemma cat_get_move:
  "cat_get (snd (cat_movePathPrefix root s t cat)) i =
     map_option (\<lambda>r. if rr_root r = root \<and> path_below (joinVfsPath [s]) (rr_path r)
                     then moved_record (joinVfsPath [s]) (joinVfsPath [t]) r else r) (cat_get cat i)"
  unfolding cat_movePathPrefix_def cat_get_def Let_def by (simp add: map_of_map_values)

lemma find_in_catalog:
  assumes "catalog_ok cat"
  shows "r \<in> set (cat_find cat f) \<longleftrightarrow> cat_get cat (rr_id r) = Some r \<and> matches cat r f"
proof -
  have "r \<in> set (js_values (cat_records cat)) \<longleftrightarrow> cat_get cat (rr_id r) = Some r"
  proof
    assume "r \<in> set (js_values (cat_records cat))"
    then obtain i where i: "(i, r) \<in> set (cat_records cat)" by (auto simp: js_values_def)
    with assms have "rr_id r = i" and "js_map_ok (cat_records cat)" by (auto simp: catalog_ok_def)
    with i show "cat_get cat (rr_id r) = Some r" by (simp add: cat_get_def js_map_okD)
  next
    assume "cat_get cat (rr_id r) = Some r"
    then show "r \<in> set (js_values (cat_records cat))"
      by (force simp: cat_get_def js_values_def dest: map_of_SomeD)
  qed
  then show ?thesis by (auto simp: cat_find_def)
qed

lemma matches_no_filter: "matches cat r no_filter \<longleftrightarrow> rr_trashedAtMs r = None"
  by (simp add: matches_def no_filter_def opt_matches_def)

lemma matches_trashed: "matches cat r f \<Longrightarrow> rr_trashedAtMs r \<noteq> None \<Longrightarrow> f_includeTrashed f = Some True"
  by (auto simp: matches_def Let_def)

section \<open>Sorting\<close>

lemma mset_insert_record [simp]: "mset (insert_record cmp x ys) = add_mset x (mset ys)"
  by (induction ys) auto

lemma mset_stable_sort [simp]: "mset (stable_sort cmp xs) = mset xs"
  unfolding stable_sort_def by (induction xs) auto

lemma set_insert_record [simp]: "set (insert_record cmp x ys) = insert x (set ys)"
  by (induction ys) auto

lemma sorted_insert_record:
  assumes "\<And>a b. cmp a b \<le> 0 \<or> cmp b a \<le> 0"
    and "\<And>a b c. cmp a b \<le> 0 \<Longrightarrow> cmp b c \<le> 0 \<Longrightarrow> cmp a c \<le> 0"
    and "sorted_wrt (\<lambda>a b. cmp a b \<le> 0) ys"
  shows "sorted_wrt (\<lambda>a b. cmp a b \<le> 0) (insert_record cmp x ys)"
  using assms(3)
proof (induction ys)
  case (Cons y ys)
  then show ?case using assms(1) [of x y] assms(2) by auto
qed simp

lemma sorted_stable_sort:
  assumes "\<And>a b. cmp a b \<le> 0 \<or> cmp b a \<le> 0"
    and "\<And>a b c. cmp a b \<le> 0 \<Longrightarrow> cmp b c \<le> 0 \<Longrightarrow> cmp a c \<le> 0"
  shows "sorted_wrt (\<lambda>a b. cmp a b \<le> 0) (stable_sort cmp xs)"
  unfolding stable_sort_def by (induction xs) (auto intro!: sorted_insert_record [OF assms])

lemma string_less_lexordp: "string_less a b \<longleftrightarrow> ord_class.lexordp (map code_unit a) (map code_unit b)"
  by (induction a b rule: string_less.induct) auto

text \<open>A comparison of one field, in either direction, is a strict weak order.\<close>

definition item_less :: "sort_item \<Rightarrow> resource_record \<Rightarrow> resource_record \<Rightarrow> bool" where
  "item_less item l r =
     (if si_desc item then field_less (si_field item) r l else field_less (si_field item) l r)"

lemma string_less_weak_order:
  "string_less a b \<Longrightarrow> \<not> string_less b a"
  "string_less a b \<Longrightarrow> string_less b c \<Longrightarrow> string_less a c"
  "\<not> string_less a b \<Longrightarrow> \<not> string_less b c \<Longrightarrow> \<not> string_less a c"
  unfolding string_less_lexordp
  by (blast dest: lexordp_antisym, blast intro: lexordp_trans, metis lexordp_linear lexordp_trans)

lemma item_less_weak_order:
  "item_less i a b \<Longrightarrow> \<not> item_less i b a"
  "item_less i a b \<Longrightarrow> item_less i b c \<Longrightarrow> item_less i a c"
  "\<not> item_less i a b \<Longrightarrow> \<not> item_less i b c \<Longrightarrow> \<not> item_less i a c"
  unfolding item_less_def field_less_def
  by (auto split: if_splits dest: string_less_weak_order)

lemma compare_records_le:
  "compare_records lc (item # items) a b \<le> 0 \<longleftrightarrow>
     item_less item a b \<or> (\<not> item_less item b a \<and> compare_records lc items a b \<le> 0)"
  using item_less_weak_order(1) [of item a b] item_less_weak_order(1) [of item b a]
  by (auto simp: item_less_def Let_def)

definition collation :: "(string \<Rightarrow> string \<Rightarrow> int) \<Rightarrow> bool" where
  \<comment> \<open>what \<open>localeCompare\<close> is documented to be: a consistent comparison\<close>
  "collation lc \<longleftrightarrow> (\<forall>a b. lc a b \<le> 0 \<or> lc b a \<le> 0) \<and>
     (\<forall>a b c. lc a b \<le> 0 \<longrightarrow> lc b c \<le> 0 \<longrightarrow> lc a c \<le> 0)"

lemma compare_records_total:
  "collation lc \<Longrightarrow> compare_records lc items a b \<le> 0 \<or> compare_records lc items b a \<le> 0"
proof (induction items)
  case (Cons i items)
  then show ?case unfolding compare_records_le by blast
qed (auto simp: collation_def)

lemma compare_records_trans:
  "collation lc \<Longrightarrow> compare_records lc items a b \<le> 0 \<Longrightarrow> compare_records lc items b c \<le> 0 \<Longrightarrow>
     compare_records lc items a c \<le> 0"
proof (induction items)
  case (Cons i items)
  then show ?case
    unfolding compare_records_le using item_less_weak_order [of i] by blast
next
  case Nil
  then show ?case unfolding collation_def compare_records.simps by blast
qed

lemma sortRecords_sorted:
  "collation lc \<Longrightarrow>
     sorted_wrt (\<lambda>a b. compare_records lc items a b \<le> 0) (sortRecords lc rs items)"
  unfolding sortRecords_def
  by (rule sorted_stable_sort [OF compare_records_total compare_records_trans])

section \<open>Properties\<close>

text \<open>
  Whatever sequence of catalog calls is made on a fresh catalog, every record is stored exactly
  once, under its own id, and so is every import batch.
\<close>

lemma catalog_ids_consistent:
  "catalog_ok (fold catalog_step calls (createResourceCatalog initial))"
  by (rule catalog.inv_reachable) blast

lemma trash_facts:
  assumes "catalog_ok cat" and "cat_get cat i = Some r" and "rr_trashedAtMs r = None"
    and "rr_deletedAtMs r = None" and "t \<le> now" and "f_includeTrashed f \<noteq> Some True"
  shows "\<forall>q \<in> set (cat_find (snd (cat_markTrashed i t cat)) f). rr_id q \<noteq> i"
    and "cat_get (snd (cat_restore i (snd (cat_markTrashed i t cat)))) i = Some r"
    and "cat_get (snd (cat_purgeTrashed now (snd (cat_markTrashed i t cat)))) i = None"
    and "r\<lparr>rr_trashedAtMs := Some t, rr_deletedAtMs := Some now\<rparr>
           \<in> set (fst (cat_purgeTrashed now (snd (cat_markTrashed i t cat))))"
    and "cat_get (snd (cat_purgeTrashed now cat)) j =
           (case cat_get cat j of None \<Rightarrow> None | Some q \<Rightarrow> if purgeable now q then None else Some q)"
proof -
  show "cat_get (snd (cat_purgeTrashed now cat)) j =
      (case cat_get cat j of None \<Rightarrow> None | Some q \<Rightarrow> if purgeable now q then None else Some q)"
    using assms(1) by (simp add: cat_get_def cat_purgeTrashed_def catalog_ok_def map_of_filter_values split: option.split)
  let ?c = "snd (cat_markTrashed i t cat)" and ?r = "r\<lparr>rr_trashedAtMs := Some t\<rparr>"
  have ok: "catalog_ok ?c" using catalog_step_ok [OF assms(1), of "MarkTrashed i t"] by simp
  have g: "cat_get ?c i = Some ?r" using assms(2) by (simp add: cat_markTrashed_def modify_record_get)
  show "\<forall>q \<in> set (cat_find ?c f). rr_id q \<noteq> i"
  proof
    fix q assume "q \<in> set (cat_find ?c f)"
    then have q: "cat_get ?c (rr_id q) = Some q" "matches ?c q f"
      by (auto simp: find_in_catalog [OF ok])
    show "rr_id q \<noteq> i"
    proof
      assume "rr_id q = i"
      with q g have "rr_trashedAtMs q = Some t" by auto
      with matches_trashed [OF q(2)] assms(6) show False by simp
    qed
  qed
  have "r\<lparr>rr_trashedAtMs := None, rr_deletedAtMs := None\<rparr> = r" using assms(3,4) by simp
  with g show "cat_get (snd (cat_restore i ?c)) i = Some r"
    by (simp add: cat_restore_def modify_record_get)
  have p: "purgeable now ?r" using assms(5) by (simp add: purgeable_def)
  then show "cat_get (snd (cat_purgeTrashed now ?c)) i = None"
    using ok g by (simp add: cat_get_def cat_purgeTrashed_def catalog_ok_def map_of_filter_values)
  have "?r \<in> set (js_values (cat_records ?c))"
    using g by (force simp: cat_get_def js_values_def dest: map_of_SomeD)
  with p have "?r\<lparr>rr_deletedAtMs := Some now\<rparr> \<in> set (fst (cat_purgeTrashed now ?c))"
    by (auto simp: cat_purgeTrashed_def)
  then show "r\<lparr>rr_trashedAtMs := Some t, rr_deletedAtMs := Some now\<rparr>
      \<in> set (fst (cat_purgeTrashed now ?c))" by simp
qed

text \<open>
  The trash: a record marked trashed is no longer found by any query that does not ask for
  trashed records; restoring it brings back the record as it was; purging removes exactly the
  records trashed no later than the given time and reports each of them.
\<close>

lemma catalog_trash_lifecycle:
  assumes "catalog_ok cat" and "cat_get cat i = Some r" and "rr_trashedAtMs r = None"
    and "rr_deletedAtMs r = None" and "t \<le> now" and "f_includeTrashed f \<noteq> Some True"
  shows "(\<forall>q \<in> set (cat_find (snd (cat_markTrashed i t cat)) f). rr_id q \<noteq> i) \<and>
     cat_get (snd (cat_restore i (snd (cat_markTrashed i t cat)))) i = Some r \<and>
     cat_get (snd (cat_purgeTrashed now (snd (cat_markTrashed i t cat)))) i = None \<and>
     r\<lparr>rr_trashedAtMs := Some t, rr_deletedAtMs := Some now\<rparr>
       \<in> set (fst (cat_purgeTrashed now (snd (cat_markTrashed i t cat)))) \<and>
     (\<forall>j. cat_get (snd (cat_purgeTrashed now cat)) j =
        (case cat_get cat j of None \<Rightarrow> None | Some q \<Rightarrow> if purgeable now q then None else Some q))"
  using trash_facts [OF assms] by blast

definition sample_record :: resource_record where
  "sample_record = createResourceRecord 7
     \<lparr>in_id = ''r1'', in_type = ''file'', in_origin = Imported, in_content = Text ''x'',
      in_root = ''projects'', in_path = ''a/b'', in_mutable = True, in_uri = None,
      in_contentType = None, in_projectId = None, in_tags = None, in_rating = None,
      in_colorLabel = None, in_notes = None, in_annotations = None, in_favorite = None,
      in_virtualFolders = None, in_collections = None, in_importBatchId = None, in_source = None,
      in_derivatives = None, in_pluginMetadata = None, in_nowMs = None\<rparr>"

lemma sample_fields [simp]: "rr_id sample_record = ''r1''" "rr_trashedAtMs sample_record = None"
  "rr_deletedAtMs sample_record = None" "rr_root sample_record = ''projects''"
  "rr_path sample_record = ''a/b''"
  by (simp_all add: sample_record_def createResourceRecord_def Let_def)

definition sample_catalog :: catalog_state where
  "sample_catalog = createResourceCatalog [sample_record]"

lemma sample_catalog_facts: "catalog_ok sample_catalog" "cat_get sample_catalog ''r1'' = Some sample_record"
  unfolding sample_catalog_def
  by (rule createResourceCatalog_ok) (simp add: createResourceCatalog_def cat_get_def)

lemma catalog_trash_lifecycle_witness:
  "cat_get (snd (cat_purgeTrashed 9 (snd (cat_markTrashed ''r1'' 8 sample_catalog)))) ''r1'' = None"
  using catalog_trash_lifecycle [OF sample_catalog_facts, of 8 9 no_filter]
  by (simp add: no_filter_def)

lemma move_facts:
  assumes "\<forall>s \<in> set (src @ rest @ tgt). safe_segment s" and "src \<noteq> []"
    and "cat_get cat i = Some r" and "rr_path r = js_join ''/'' (src @ rest)"
  shows "cat_get (snd (cat_movePathPrefix (rr_root r) (js_join ''/'' src) (js_join ''/'' tgt) cat)) i =
      Some (r\<lparr>rr_path := js_join ''/'' (tgt @ rest),
              rr_uri := ''vfs://'' @ rr_root r @ ''/'' @ js_join ''/'' (tgt @ rest)\<rparr>)"
    and "\<not> (rr_root q = root \<and> path_below (joinVfsPath [s]) (rr_path q)) \<Longrightarrow>
      cat_get cat j = Some q \<Longrightarrow> cat_get (snd (cat_movePathPrefix root s t cat)) j = Some q"
    and "js_keys (cat_records (snd (cat_movePathPrefix root s t cat))) = js_keys (cat_records cat)"
proof -
  have below: "path_below (js_join ''/'' src) (rr_path r)"
    using assms(2,4) by (cases "rest = []") (auto simp: path_below_def js_join_append)
  then show "cat_get (snd (cat_movePathPrefix (rr_root r) (js_join ''/'' src) (js_join ''/'' tgt) cat)) i =
      Some (r\<lparr>rr_path := js_join ''/'' (tgt @ rest),
              rr_uri := ''vfs://'' @ rr_root r @ ''/'' @ js_join ''/'' (tgt @ rest)\<rparr>)"
    using assms
    by (simp add: cat_get_move joinVfsPath_single moved_record_def replacePrefix_safe Let_def)
next
  assume "\<not> (rr_root q = root \<and> path_below (joinVfsPath [s]) (rr_path q))" "cat_get cat j = Some q"
  then show "cat_get (snd (cat_movePathPrefix root s t cat)) j = Some q"
    by (auto simp: cat_get_move)
next
  show "js_keys (cat_records (snd (cat_movePathPrefix root s t cat))) = js_keys (cat_records cat)"
    by (simp add: cat_movePathPrefix_def js_keys_def Let_def case_prod_beta)
qed

text \<open>
  \<open>movePathPrefix\<close> moves one subtree: a record of the given root at or below the source
  prefix keeps its id and everything else but gets the source segments replaced by the target
  segments (and the matching URI); every other record is untouched; ids and their order stay.
\<close>

lemma movePathPrefix_moves_subtree:
  assumes "\<forall>s \<in> set (src @ rest @ tgt). safe_segment s" and "src \<noteq> []"
    and "cat_get cat i = Some r" and "rr_path r = js_join ''/'' (src @ rest)"
  shows "cat_get (snd (cat_movePathPrefix (rr_root r) (js_join ''/'' src) (js_join ''/'' tgt) cat)) i =
      Some (r\<lparr>rr_path := js_join ''/'' (tgt @ rest),
              rr_uri := ''vfs://'' @ rr_root r @ ''/'' @ js_join ''/'' (tgt @ rest)\<rparr>) \<and>
    (\<forall>j q. cat_get cat j = Some q \<and> \<not> (rr_root q = root \<and> path_below (joinVfsPath [s]) (rr_path q)) \<longrightarrow>
       cat_get (snd (cat_movePathPrefix root s t cat)) j = Some q) \<and>
    js_keys (cat_records (snd (cat_movePathPrefix root s t cat))) = js_keys (cat_records cat)"
  using move_facts [OF assms] by blast

lemma movePathPrefix_moves_subtree_witness:
  "map_option rr_path (cat_get (snd (cat_movePathPrefix ''projects'' ''a'' ''c'' sample_catalog)) ''r1'') =
     Some ''c/b''"
proof -
  have "\<forall>s \<in> set ([''a''] @ [''b''] @ [''c'']). safe_segment s" by code_simp
  from movePathPrefix_moves_subtree [OF this, OF _ sample_catalog_facts(2)] show ?thesis by simp
qed

text \<open>
  A smart folder shows its matches and nothing else, in order: the listing its pages are cut
  from is a permutation of the catalog's matching records, sorted by the folder's fields with ties
  broken by the collation of the paths.
\<close>

lemma querySmartFolder_sorted:
  assumes "collation lc"
  shows "\<exists>listing. querySmartFolder lc cat folder =
            paginate listing (f_cursor (sf_filter folder)) (f_limit (sf_filter folder)) \<and>
          mset listing = mset (cat_find cat (sf_filter folder)) \<and>
          sorted_wrt (\<lambda>a b. compare_records lc (sf_sort folder) a b \<le> 0) listing"
  using sortRecords_sorted [OF assms]
  unfolding querySmartFolder_def sortRecords_def by (metis mset_stable_sort)

definition code_unit_order :: "string \<Rightarrow> string \<Rightarrow> int" where
  "code_unit_order a b = (if string_less a b then -1 else if string_less b a then 1 else 0)"

lemma code_unit_order_collation: "collation code_unit_order"
  unfolding collation_def code_unit_order_def
  by (auto split: if_splits dest: string_less_weak_order)

lemma querySmartFolder_sorted_witness:
  "\<exists>listing. querySmartFolder code_unit_order sample_catalog
      \<lparr>sf_id = ''f'', sf_name = ''n'', sf_filter = no_filter, sf_sort = []\<rparr> = paginate listing None None \<and>
    mset listing = mset (cat_find sample_catalog no_filter)"
proof -
  have "f_cursor no_filter = None" "f_limit no_filter = None" by (simp_all add: no_filter_def)
  then show ?thesis
    using querySmartFolder_sorted [OF code_unit_order_collation, of sample_catalog
      "\<lparr>sf_id = ''f'', sf_name = ''n'', sf_filter = no_filter, sf_sort = []\<rparr>"] by auto
qed

end
