(* ===== verification/Vfs_Memory.thy ===== *)
theory Vfs_Memory
  imports Vfs_Catalog
begin

text \<open>
  \<open>packages/desktop-foundation/src/vfs-memory.ts\<close>: the in-memory VFS. The closure variables of
  \<open>createMemoryVfs\<close> that never change (roots, policy, clock, text decoder) form \<open>vfs_env\<close>; the two
  that do (the entry map and the catalog) form \<open>vfs_state\<close>, with the number of clock readings so far:
  the clock is a function of that number. Each method runs to completion and is one function from
  state to result and state.
\<close>

section \<open>State\<close>

datatype entry_type = FileEntry | DirectoryEntry

record vfs_entry =
  en_ref :: vfs_ref
  en_uri :: string
  en_fullPath :: string
  en_size :: nat
  en_createdAtMs :: int
  en_updatedAtMs :: int
  en_type :: entry_type
  en_contentType :: "string option"

record stored_entry =
  se_entry :: vfs_entry
  se_content :: "vfs_content option"

record vfs_env =
  env_roots :: vfs_root_map
  env_policy :: "vfs_policy option"
  env_clock :: "nat \<Rightarrow> int"
  env_decode :: "byte list \<Rightarrow> string"

record vfs_state =
  st_entries :: "stored_entry js_map"
  st_ticks :: nat
  st_catalog :: catalog_state

definition empty_vfs :: vfs_state where
  "empty_vfs = \<lparr>st_entries = [], st_ticks = 0, st_catalog = createResourceCatalog []\<rparr>"

definition ref_value :: "vfs_ref \<Rightarrow> js_value" where
  "ref_value ref = JObj [(''root'', JStr (ref_root ref)), (''path'', JStr (ref_path ref))]"

section \<open>Helpers\<close>

definition keyForResolved :: "vfs_env \<Rightarrow> resolved_path \<Rightarrow> string" where
  "keyForResolved env x =
     (case map_of (env_roots env) (res_root x) of
        Some root \<Rightarrow> if root_caseSensitive root = Some True then res_fullPath x
                     else js_lower (res_fullPath x)
      | None \<Rightarrow> js_lower (res_fullPath x))"

definition keyForRef :: "vfs_env \<Rightarrow> vfs_ref \<Rightarrow> string api_result" where
  "keyForRef env ref =
     bind_result (resolveVfsPath (env_roots env) (ref_root ref) (ref_path ref))
       (\<lambda>x. bridgeOk (keyForResolved env x))"

definition deleteByRef :: "vfs_env \<Rightarrow> vfs_ref \<Rightarrow> vfs_state \<Rightarrow> vfs_state" where
  "deleteByRef env ref st =
     (case keyForRef env ref of
        Inl _ \<Rightarrow> st
      | Inr key \<Rightarrow> st\<lparr>st_entries := AList.delete key (st_entries st)\<rparr>)"

definition entryFor :: "vfs_env \<Rightarrow> vfs_ref \<Rightarrow> vfs_state \<Rightarrow> stored_entry api_result" where
  "entryFor env ref st =
     bind_result (assertVfsPermission (env_roots env) (ref_root ref) Op_read (env_policy env)) (\<lambda>_.
     bind_result (keyForRef env ref) (\<lambda>key.
       case map_of (st_entries st) key of
         Some e \<Rightarrow> bridgeOk e
       | None \<Rightarrow> bridgeFail ''vfs.not_found'' ''VFS entry not found.'' (ref_value ref)))"

definition toEntry ::
  "vfs_env \<Rightarrow> resolved_path \<Rightarrow> entry_type \<Rightarrow> vfs_content \<Rightarrow> string option \<Rightarrow> vfs_state \<Rightarrow>
     vfs_entry \<times> vfs_state" where
  "toEntry env x typ content contentType st =
     (let existing = map_of (st_entries st) (keyForResolved env x);
          now = env_clock env (st_ticks st);
          ref = \<lparr>ref_root = res_root x, ref_path = res_path x\<rparr>
      in (\<lparr>en_ref = ref,
           en_uri = (if is_ok (toVfsUri ref)
                     then ''vfs://'' @ res_root x @ ''/'' @
                            js_join ''/'' (map encodeURIComponent (res_segments x))
                     else []),
           en_fullPath = res_fullPath x,
           en_size = (if typ = DirectoryEntry then 0 else byteLength content),
           en_createdAtMs = (case existing of
               None \<Rightarrow> now
             | Some e \<Rightarrow> if en_createdAtMs (se_entry e) = 0 then now else en_createdAtMs (se_entry e)),
           en_updatedAtMs = now, en_type = typ, en_contentType = contentType\<rparr>,
          st\<lparr>st_ticks := Suc (st_ticks st)\<rparr>))"

definition checkWriteSize :: "vfs_env \<Rightarrow> string \<Rightarrow> vfs_content \<Rightarrow> unit api_result" where
  "checkWriteSize env rootId content =
     (let maxBytes =
        (case Option.bind (env_policy env) (\<lambda>p. map_of (policy_maxFileBytes p) rootId) of
           Some n \<Rightarrow> Some n
         | None \<Rightarrow> Option.bind (map_of (env_roots env) rootId) root_maxFileBytes)
      in case maxBytes of
           None \<Rightarrow> bridgeOk ()
         | Some n \<Rightarrow>
            if int (byteLength content) > n then
              bridgeFail ''vfs.file_too_large'' ''VFS file exceeds the configured size limit.''
                (JObj [(''root'', JStr rootId), (''maxBytes'', JNum n)])
            else bridgeOk ())"

definition put_entry :: "vfs_env \<Rightarrow> resolved_path \<Rightarrow> stored_entry \<Rightarrow> vfs_state \<Rightarrow> vfs_state" where
  \<comment> \<open>\<open>entries.set(keyForResolved(resolved), ...)\<close>\<close>
  "put_entry env x e st = st\<lparr>st_entries := AList.update (keyForResolved env x) e (st_entries st)\<rparr>"

definition store_directory :: "vfs_env \<Rightarrow> resolved_path \<Rightarrow> vfs_state \<Rightarrow> vfs_entry \<times> vfs_state" where
  "store_directory env x st =
     (let (entry, st') = toEntry env x DirectoryEntry (Text []) None st
      in (entry, put_entry env x \<lparr>se_entry = entry, se_content = None\<rparr> st'))"

definition ensure_parent :: "vfs_env \<Rightarrow> resolved_path \<Rightarrow> nat \<Rightarrow> vfs_state \<Rightarrow> vfs_state" where
  "ensure_parent env x index st =
     (case resolveVfsPath (env_roots env) (res_root x) (js_join ''/'' (take index (res_segments x))) of
        Inl _ \<Rightarrow> st
      | Inr dir \<Rightarrow>
          if map_of (st_entries st) (keyForResolved env dir) \<noteq> None then st
          else snd (store_directory env dir st))"

definition ensureParentDirectories :: "vfs_env \<Rightarrow> resolved_path \<Rightarrow> vfs_state \<Rightarrow> vfs_state" where
  "ensureParentDirectories env x st = fold (ensure_parent env x) [1..<length (res_segments x)] st"

definition writeEntry ::
  "vfs_env \<Rightarrow> vfs_ref \<Rightarrow> vfs_content \<Rightarrow> string option \<Rightarrow> vfs_state \<Rightarrow> vfs_entry api_result \<times> vfs_state" where
  "writeEntry env ref content contentType st =
     (case assertVfsPermission (env_roots env) (ref_root ref) Op_write (env_policy env) of
        Inl e \<Rightarrow> (Inl e, st)
      | Inr _ \<Rightarrow>
         (case checkWriteSize env (ref_root ref) content of
            Inl e \<Rightarrow> (Inl e, st)
          | Inr _ \<Rightarrow>
             (case resolveVfsPath (env_roots env) (ref_root ref) (ref_path ref) of
                Inl e \<Rightarrow> (Inl e, st)
              | Inr x \<Rightarrow>
                 (let st1 = ensureParentDirectories env x st;
                      (entry, st2) = toEntry env x FileEntry content contentType st1
                  in (bridgeOk entry,
                      put_entry env x \<lparr>se_entry = entry, se_content = Some content\<rparr> st2)))))"

definition dir_prefix :: "vfs_entry \<Rightarrow> string" where
  "dir_prefix d = (if suffix ''/'' (en_fullPath d) then en_fullPath d else en_fullPath d @ ''/'')"

definition entriesBelow :: "vfs_entry \<Rightarrow> vfs_state \<Rightarrow> stored_entry list" where
  "entriesBelow d st =
     filter (\<lambda>e. prefix (dir_prefix d) (en_fullPath (se_entry e))) (js_values (st_entries st))"

definition make_directory :: "vfs_env \<Rightarrow> vfs_ref \<Rightarrow> vfs_state \<Rightarrow> vfs_entry api_result \<times> vfs_state" where
  \<comment> \<open>the body \<open>ensureDirectory\<close> and the directory branch of \<open>cloneStoredEntry\<close> share\<close>
  "make_directory env ref st =
     (case assertVfsPermission (env_roots env) (ref_root ref) Op_mkdir (env_policy env) of
        Inl e \<Rightarrow> (Inl e, st)
      | Inr _ \<Rightarrow>
         (case resolveVfsPath (env_roots env) (ref_root ref) (ref_path ref) of
            Inl e \<Rightarrow> (Inl e, st)
          | Inr x \<Rightarrow>
             (let (entry, st') = store_directory env x (ensureParentDirectories env x st)
              in (bridgeOk entry, st'))))"

definition stored_content :: "stored_entry \<Rightarrow> vfs_content" where
  \<comment> \<open>\<open>source.content || ''\<close>\<close>
  "stored_content e = (case se_content e of None \<Rightarrow> Text [] | Some c \<Rightarrow> c)"

definition cloneStoredEntry ::
  "vfs_env \<Rightarrow> vfs_ref \<Rightarrow> stored_entry \<Rightarrow> vfs_state \<Rightarrow> vfs_entry api_result \<times> vfs_state" where
  "cloneStoredEntry env targetRef source st =
     (if en_type (se_entry source) = DirectoryEntry then make_directory env targetRef st
      else writeEntry env targetRef (stored_content source) (en_contentType (se_entry source)) st)"

section \<open>Methods\<close>

definition vfs_exists :: "vfs_env \<Rightarrow> vfs_ref \<Rightarrow> vfs_state \<Rightarrow> bool api_result" where
  "vfs_exists env ref st =
     bind_result (keyForRef env ref) (\<lambda>key. bridgeOk (map_of (st_entries st) key \<noteq> None))"

definition vfs_stat :: "vfs_env \<Rightarrow> vfs_ref \<Rightarrow> vfs_state \<Rightarrow> vfs_entry api_result" where
  "vfs_stat env ref st = bind_result (entryFor env ref st) (\<lambda>e. bridgeOk (se_entry e))"

definition ensureDirectory :: "vfs_env \<Rightarrow> vfs_ref \<Rightarrow> vfs_state \<Rightarrow> vfs_entry api_result \<times> vfs_state" where
  "ensureDirectory env ref st = make_directory env ref st"

definition readText :: "vfs_env \<Rightarrow> vfs_ref \<Rightarrow> vfs_state \<Rightarrow> string api_result" where
  "readText env ref st =
     bind_result (entryFor env ref st) (\<lambda>e.
       if en_type (se_entry e) \<noteq> FileEntry then
         bridgeFail ''vfs.not_file'' ''VFS entry is not a file.'' (ref_value ref)
       else case se_content e of
              Some (Text s) \<Rightarrow> bridgeOk s
            | Some (Bytes bs) \<Rightarrow> bridgeOk (env_decode env bs)
            | None \<Rightarrow> bridgeOk (env_decode env []))"

definition readBytes :: "vfs_env \<Rightarrow> vfs_ref \<Rightarrow> vfs_state \<Rightarrow> byte list api_result" where
  "readBytes env ref st =
     bind_result (entryFor env ref st) (\<lambda>e.
       if en_type (se_entry e) \<noteq> FileEntry then
         bridgeFail ''vfs.not_file'' ''VFS entry is not a file.'' (ref_value ref)
       else case se_content e of
              Some c \<Rightarrow> bridgeOk (content_bytes c)
            | None \<Rightarrow> bridgeOk [])"

definition writeText ::
  "vfs_env \<Rightarrow> vfs_ref \<Rightarrow> string \<Rightarrow> string option \<Rightarrow> vfs_state \<Rightarrow> vfs_entry api_result \<times> vfs_state" where
  "writeText env ref content contentType st = writeEntry env ref (Text content) contentType st"

definition writeBytes ::
  "vfs_env \<Rightarrow> vfs_ref \<Rightarrow> byte list \<Rightarrow> string option \<Rightarrow> vfs_state \<Rightarrow> vfs_entry api_result \<times> vfs_state" where
  "writeBytes env ref content contentType st = writeEntry env ref (Bytes content) contentType st"

definition writeTextAtomic ::
  "vfs_env \<Rightarrow> vfs_ref \<Rightarrow> string \<Rightarrow> string option \<Rightarrow> vfs_state \<Rightarrow> vfs_entry api_result \<times> vfs_state" where
  "writeTextAtomic env ref content contentType st = writeEntry env ref (Text content) contentType st"

definition vfs_delete :: "vfs_env \<Rightarrow> vfs_ref \<Rightarrow> bool \<Rightarrow> vfs_state \<Rightarrow> unit api_result \<times> vfs_state" where
  "vfs_delete env ref recursive st =
     (case assertVfsPermission (env_roots env) (ref_root ref) Op_delete (env_policy env) of
        Inl e \<Rightarrow> (Inl e, st)
      | Inr _ \<Rightarrow>
         (case keyForRef env ref of
            Inl e \<Rightarrow> (Inl e, st)
          | Inr key \<Rightarrow>
             (case map_of (st_entries st) key of
                None \<Rightarrow> (bridgeOk (), st)
              | Some e \<Rightarrow>
                 (if en_type (se_entry e) = DirectoryEntry then
                    (let children = entriesBelow (se_entry e) st in
                     if children \<noteq> [] \<and> \<not> recursive then
                       (bridgeFail ''vfs.directory_not_empty'' ''VFS directory is not empty.'' (ref_value ref), st)
                     else
                       (let st1 = fold (\<lambda>c. deleteByRef env (en_ref (se_entry c))) children st
                        in (bridgeOk (), st1\<lparr>st_entries := AList.delete key (st_entries st1)\<rparr>)))
                  else (bridgeOk (), st\<lparr>st_entries := AList.delete key (st_entries st)\<rparr>)))))"

fun copy_children ::
  "vfs_env \<Rightarrow> string \<Rightarrow> string \<Rightarrow> string \<Rightarrow> stored_entry list \<Rightarrow> vfs_state \<Rightarrow>
     bridge_error option \<times> vfs_state" where
  "copy_children env root source target [] st = (None, st)"
| "copy_children env root source target (c # cs) st =
     (case cloneStoredEntry env
             \<lparr>ref_root = root, ref_path = replacePrefix (ref_path (en_ref (se_entry c))) source target\<rparr> c st of
        (Inl e, st') \<Rightarrow> (Some e, st')
      | (Inr _, st') \<Rightarrow> copy_children env root source target cs st')"

definition vfs_copy ::
  "vfs_env \<Rightarrow> vfs_ref \<Rightarrow> vfs_ref \<Rightarrow> bool \<Rightarrow> vfs_state \<Rightarrow> vfs_entry api_result \<times> vfs_state" where
  "vfs_copy env source target overwrite st =
     (case assertVfsPermission (env_roots env) (ref_root source) Op_copy (env_policy env) of
        Inl e \<Rightarrow> (Inl e, st)
      | Inr _ \<Rightarrow>
     (case assertVfsPermission (env_roots env) (ref_root target) Op_write (env_policy env) of
        Inl e \<Rightarrow> (Inl e, st)
      | Inr _ \<Rightarrow>
     (if vfs_exists env target st = Inr True \<and> \<not> overwrite then
        (bridgeFail ''vfs.already_exists'' ''VFS target already exists.'' (ref_value target), st)
      else
     (case entryFor env source st of
        Inl e \<Rightarrow> (Inl e, st)
      | Inr src \<Rightarrow>
     (if en_type (se_entry src) = DirectoryEntry then
        (case resolveVfsPath (env_roots env) (ref_root target) (ref_path target) of
           Inl e \<Rightarrow> (Inl e, st)
         | Inr t \<Rightarrow>
            (if res_fullPath t = en_fullPath (se_entry src) \<or>
                prefix (dir_prefix (se_entry src)) (res_fullPath t) then
               (bridgeFail ''vfs.invalid_target'' ''Cannot copy a directory into itself.''
                  (JObj [(''source'', ref_value source), (''target'', ref_value target)]), st)
             else
               (let children = entriesBelow (se_entry src) st in
                case cloneStoredEntry env target src st of
                  (Inl e, st1) \<Rightarrow> (Inl e, st1)
                | (Inr dir, st1) \<Rightarrow>
                   (case copy_children env (ref_root target) (ref_path (en_ref (se_entry src)))
                           (ref_path (en_ref dir)) children st1 of
                      (Some e, st2) \<Rightarrow> (Inl e, st2)
                    | (None, st2) \<Rightarrow> (bridgeOk dir, st2)))))
      else cloneStoredEntry env target src st)))))"

definition vfs_move ::
  "vfs_env \<Rightarrow> vfs_ref \<Rightarrow> vfs_ref \<Rightarrow> bool \<Rightarrow> vfs_state \<Rightarrow> vfs_entry api_result \<times> vfs_state" where
  "vfs_move env source target overwrite st =
     (case assertVfsPermission (env_roots env) (ref_root source) Op_move (env_policy env) of
        Inl e \<Rightarrow> (Inl e, st)
      | Inr _ \<Rightarrow>
         (case vfs_copy env source target overwrite st of
            (Inl e, st1) \<Rightarrow> (Inl e, st1)
          | (Inr copied, st1) \<Rightarrow>
             (case vfs_delete env source True st1 of
                (Inl e, st2) \<Rightarrow> (Inl e, st2)
              | (Inr _, st2) \<Rightarrow>
                 (bridgeOk copied,
                  if ref_root source = ref_root target
                  then st2\<lparr>st_catalog := snd (cat_movePathPrefix (ref_root source) (ref_path source)
                                                (ref_path target) (st_catalog st2))\<rparr>
                  else st2))))"

definition vfs_list :: "vfs_env \<Rightarrow> string \<Rightarrow> string \<Rightarrow> bool \<Rightarrow> vfs_state \<Rightarrow> vfs_entry list api_result" where
  "vfs_list env rootId dir recursive st =
     (case map_of (env_roots env) rootId of
        None \<Rightarrow> bridgeFail ''vfs.unknown_root'' (''Unknown VFS root: '' @ rootId) JUndefined
      | Some rootConfig \<Rightarrow>
         bind_result (assertVfsPermission (env_roots env) rootId Op_list (env_policy env)) (\<lambda>_.
         bind_result (if dir = [] then bridgeOk (root_path rootConfig)
                      else bind_result (resolveVfsPath (env_roots env) rootId dir)
                             (\<lambda>x. bridgeOk (js_or (res_fullPath x) (root_path rootConfig)))) (\<lambda>basePath.
           let pre = (if suffix ''/'' basePath then basePath else basePath @ ''/'') in
           bridgeOk
             (filter (\<lambda>en. recursive \<or>
                 (let rest = drop (length pre) (en_fullPath en) in rest \<noteq> [] \<and> slash \<notin> set rest))
               (filter (\<lambda>en. prefix pre (en_fullPath en)) (map se_entry (js_values (st_entries st))))))))"

definition listPage ::
  "vfs_env \<Rightarrow> string \<Rightarrow> string \<Rightarrow> bool \<Rightarrow> string option \<Rightarrow> int option \<Rightarrow> vfs_state \<Rightarrow>
     vfs_entry vfs_page api_result" where
  "listPage env rootId dir recursive cursor limit st =
     bind_result (vfs_list env rootId dir recursive st) (\<lambda>xs. bridgeOk (paginate xs cursor limit))"

record import_options =
  io_type :: "string option"
  io_origin :: "resource_origin option"
  io_contentType :: "string option"
  io_projectId :: "string option"
  io_tags :: "string list option"

definition no_record_input :: record_input where
  "no_record_input = \<lparr>in_id = [], in_type = [], in_origin = Imported, in_content = Text [], in_root = [],
     in_path = [], in_mutable = False, in_uri = None, in_contentType = None, in_projectId = None,
     in_tags = None, in_rating = None, in_colorLabel = None, in_notes = None, in_annotations = None,
     in_favorite = None, in_virtualFolders = None, in_collections = None, in_importBatchId = None,
     in_source = None, in_derivatives = None, in_pluginMetadata = None, in_nowMs = None\<rparr>"

definition root_is_mutable :: "vfs_env \<Rightarrow> string \<Rightarrow> bool" where
  "root_is_mutable env rootId =
     (case map_of (env_roots env) rootId of None \<Rightarrow> False | Some root \<Rightarrow> root_mutable root)"

definition importText ::
  "vfs_env \<Rightarrow> vfs_ref \<Rightarrow> string \<Rightarrow> import_options \<Rightarrow> vfs_state \<Rightarrow> resource_record api_result \<times> vfs_state" where
  "importText env ref content io st =
     (case assertVfsPermission (env_roots env) (ref_root ref) Op_import (env_policy env) of
        Inl e \<Rightarrow> (Inl e, st)
      | Inr _ \<Rightarrow>
         (case writeTextAtomic env ref content (io_contentType io) st of
            (Inl e, st1) \<Rightarrow> (Inl e, st1)
          | (Inr written, st1) \<Rightarrow>
             (let path = ref_path (en_ref written);
                  r = createResourceRecord 0
                    (no_record_input\<lparr>in_id := ref_root ref @ '':'' @ path,
                       in_type := js_or_opt (io_type io) (js_or (getExtension path) ''file''),
                       in_origin := (case io_origin io of None \<Rightarrow> Imported | Some orig \<Rightarrow> orig),
                       in_content := Text content, in_root := ref_root ref, in_path := path,
                       in_uri := Some (en_uri written), in_mutable := root_is_mutable env (ref_root ref),
                       in_contentType := io_contentType io, in_projectId := io_projectId io,
                       in_tags := io_tags io, in_nowMs := Some (en_updatedAtMs written)\<rparr>);
                  (r', cat) = cat_upsert r (st_catalog st1)
              in (bridgeOk r', st1\<lparr>st_catalog := cat\<rparr>))))"

fun importManyText ::
  "vfs_env \<Rightarrow> (vfs_ref \<times> string \<times> import_options) list \<Rightarrow> vfs_state \<Rightarrow>
     resource_record list api_result \<times> vfs_state" where
  "importManyText env [] st = (bridgeOk [], st)"
| "importManyText env ((ref, content, io) # items) st =
     (case importText env ref content io st of
        (Inl e, st1) \<Rightarrow> (Inl e, st1)
      | (Inr r, st1) \<Rightarrow>
         (case importManyText env items st1 of
            (Inl e, st2) \<Rightarrow> (Inl e, st2)
          | (Inr rs, st2) \<Rightarrow> (bridgeOk (r # rs), st2)))"

definition exportText :: "vfs_env \<Rightarrow> vfs_ref \<Rightarrow> vfs_state \<Rightarrow> (string \<times> string) api_result" where
  "exportText env ref st =
     bind_result (assertVfsPermission (env_roots env) (ref_root ref) Op_export (env_policy env)) (\<lambda>_.
     bind_result (readText env ref st) (\<lambda>content. bridgeOk (basename (ref_path ref), content)))"

section \<open>Packages\<close>

record package_file_manifest =
  pf_root :: string
  pf_path :: string
  pf_relativePath :: string
  pf_fingerprint :: string
  pf_size :: nat
  pf_contentType :: "string option"
  pf_resourceId :: "string option"
  pf_parserVersions :: "(string \<times> string) list option"

record package_manifest =
  pk_schemaVersion :: int
  pk_packageId :: string
  pk_createdAtMs :: int
  pk_files :: "package_file_manifest list"
  pk_roots :: "(string \<times> string) list"
  pk_metadata :: "(string \<times> js_value) list option"

record vfs_package =
  pkg_manifest :: package_manifest
  pkg_files :: "(package_file_manifest \<times> byte list) list"  \<comment> \<open>\<open>VfsPackageFile\<close>: the manifest entry and its content\<close>

record export_options =
  xo_packageId :: "string option"
  xo_nowMs :: "int option"
  xo_metadata :: "(string \<times> js_value) list option"

definition package_file ::
  "vfs_entry \<Rightarrow> string \<Rightarrow> byte list \<Rightarrow> package_file_manifest \<times> byte list" where
  "package_file en relativePath content =
     (\<lparr>pf_root = ref_root (en_ref en), pf_path = ref_path (en_ref en), pf_relativePath = relativePath,
       pf_fingerprint = fingerprintContent (Bytes content), pf_size = length content,
       pf_contentType = en_contentType en,
       pf_resourceId = Some (ref_root (en_ref en) @ '':'' @ ref_path (en_ref en)),
       pf_parserVersions = None\<rparr>, content)"

definition export_ref ::
  "vfs_env \<Rightarrow> vfs_state \<Rightarrow> vfs_ref \<Rightarrow> (package_file_manifest \<times> byte list) list api_result" where
  \<comment> \<open>the files one reference contributes: itself, or every file below a directory\<close>
  "export_ref env st ref =
     bind_result (vfs_stat env ref st) (\<lambda>en.
       if en_type en = DirectoryEntry then
         bind_result (vfs_list env (ref_root ref) (ref_path ref) True st) (\<lambda>listed.
           traverse_result
             (\<lambda>c. bind_result (readBytes env (en_ref c) st) (\<lambda>content.
                bridgeOk (package_file c
                  (replacePrefix (ref_path (en_ref c)) (ref_path ref) (basename (ref_path ref))) content)))
             (filter (\<lambda>c. en_type c = FileEntry) listed))
       else
         bind_result (readBytes env ref st) (\<lambda>content.
           bridgeOk [package_file en (basename (ref_path (en_ref en))) content]))"

definition exportPackage ::
  "vfs_env \<Rightarrow> vfs_ref list \<Rightarrow> export_options \<Rightarrow> vfs_state \<Rightarrow> vfs_package api_result \<times> vfs_state" where
  "exportPackage env refs xo st =
     (case traverse_result
             (\<lambda>ref. assertVfsPermission (env_roots env) (ref_root ref) Op_package (env_policy env)) refs of
        Inl e \<Rightarrow> (Inl e, st)
      | Inr _ \<Rightarrow>
         (case traverse_result (export_ref env st) refs of
            Inl e \<Rightarrow> (Inl e, st)
          | Inr groups \<Rightarrow>
             (let files = concat groups;
                  (now, st') = (case xo_nowMs xo of
                     Some t \<Rightarrow> (t, st)
                   | None \<Rightarrow> (env_clock env (st_ticks st), st\<lparr>st_ticks := Suc (st_ticks st)\<rparr>))
              in (bridgeOk
                   \<lparr>pkg_manifest =
                      \<lparr>pk_schemaVersion = 1,
                       pk_packageId = js_or_opt (xo_packageId xo)
                         (''pkg:'' @ js_join '':'' (map (\<lambda>f. pf_fingerprint (fst f)) files)),
                       pk_createdAtMs = now,
                       pk_files = map fst files,
                       pk_roots = map (\<lambda>r. (r, r)) (rev (remdups (rev (map (\<lambda>f. pf_root (fst f)) files)))),
                       pk_metadata = xo_metadata xo\<rparr>,
                    pkg_files = files\<rparr>, st'))))"

record import_package_options =
  po_targetRoot :: "string option"
  po_pathPrefix :: "string option"
  po_rootMap :: "(string \<times> string) list"
  po_origin :: "resource_origin option"

definition target_root :: "import_package_options \<Rightarrow> string \<Rightarrow> string" where
  "target_root po root = js_or_opt (po_targetRoot po) (js_or_opt (map_of (po_rootMap po) root) root)"

definition package_provenance :: "package_manifest \<Rightarrow> import_provenance" where
  "package_provenance m = \<lparr>ip_sourceKind = PackageSource, ip_importBatchId = Some (pk_packageId m),
     ip_originalPath = None, ip_sourceUrl = None, ip_title = None, ip_referrer = None,
     ip_licenseNote = None, ip_capturedAtMs = Some (pk_createdAtMs m)\<rparr>"

fun import_files ::
  "vfs_env \<Rightarrow> package_manifest \<Rightarrow> import_package_options \<Rightarrow>
     (package_file_manifest \<times> byte list) list \<Rightarrow> vfs_state \<Rightarrow>
     resource_record list api_result \<times> vfs_state" where
  "import_files env m po [] st = (bridgeOk [], st)"
| "import_files env m po ((file, content) # files) st =
     (if \<not> list_ex (\<lambda>x. pf_relativePath x = pf_relativePath file \<and>
                         pf_fingerprint x = pf_fingerprint file) (pk_files m) then
        (bridgeFail ''vfs.package_invalid'' ''VFS package file is missing from manifest.''
           (JObj [(''relativePath'', JStr (pf_relativePath file))]), st)
      else if fingerprintContent (Bytes content) \<noteq> pf_fingerprint file then
        (bridgeFail ''vfs.package_fingerprint_mismatch'' ''VFS package file fingerprint does not match.''
           (JObj [(''relativePath'', JStr (pf_relativePath file))]), st)
      else
        (let root = target_root po (pf_root file);
             path = joinVfsPath [js_or_opt (po_pathPrefix po) [], pf_relativePath file]
         in case writeBytes env \<lparr>ref_root = root, ref_path = path\<rparr> content (pf_contentType file) st of
              (Inl e, st1) \<Rightarrow> (Inl e, st1)
            | (Inr written, st1) \<Rightarrow>
               (let wpath = ref_path (en_ref written);
                    r = createResourceRecord 0
                      (no_record_input\<lparr>in_id := root @ '':'' @ wpath,
                         in_type := js_or (getExtension wpath) ''file'',
                         in_origin := (case po_origin po of None \<Rightarrow> Imported | Some orig \<Rightarrow> orig),
                         in_content := Bytes content, in_root := root, in_path := wpath,
                         in_uri := Some (en_uri written), in_mutable := root_is_mutable env root,
                         in_contentType := pf_contentType file,
                         in_nowMs := Some (en_updatedAtMs written),
                         in_importBatchId := Some (pk_packageId m),
                         in_source := Some (package_provenance m)\<rparr>);
                    st2 = st1\<lparr>st_catalog := snd (cat_upsert r (st_catalog st1))\<rparr>
                in case import_files env m po files st2 of
                     (Inl e, st3) \<Rightarrow> (Inl e, st3)
                   | (Inr rs, st3) \<Rightarrow> (bridgeOk (r # rs), st3))))"

definition importPackage ::
  "vfs_env \<Rightarrow> vfs_package \<Rightarrow> import_package_options \<Rightarrow> vfs_state \<Rightarrow>
     resource_record list api_result \<times> vfs_state" where
  "importPackage env pkg po st =
     (if pk_schemaVersion (pkg_manifest pkg) \<noteq> 1 then
        (bridgeFail ''vfs.package_unsupported'' ''VFS package schema is not supported.''
           (JObj [(''schemaVersion'', JNum (pk_schemaVersion (pkg_manifest pkg)))]), st)
      else import_files env (pkg_manifest pkg) po (pkg_files pkg) st)"

section \<open>Cleanup\<close>

record cleanup_policy =
  cp_roots :: "string list option"
  cp_nowMs :: "int option"
  cp_maxAgeMs :: "int option"
  cp_dryRun :: bool

definition cleanup_selects :: "vfs_env \<Rightarrow> string list \<Rightarrow> int \<Rightarrow> int \<Rightarrow> stored_entry \<Rightarrow> bool" where
  "cleanup_selects env rootsToClean now maxAgeMs e =
     (let root = ref_root (en_ref (se_entry e));
          cleanup = Option.bind (map_of (env_roots env) root) root_cleanup;
          oldEnough = (maxAgeMs \<le> 0 \<or> now - en_updatedAtMs (se_entry e) \<ge> maxAgeMs)
      in (cleanup = Some CleanupCache \<or> cleanup = Some CleanupTmp) \<and> root \<in> set rootsToClean \<and> oldEnough)"

definition vfs_cleanup ::
  "vfs_env \<Rightarrow> cleanup_policy \<Rightarrow> vfs_state \<Rightarrow> (vfs_entry list \<times> vfs_entry list) api_result \<times> vfs_state" where
  "vfs_cleanup env cp st =
     (let rootsToClean = (case cp_roots cp of None \<Rightarrow> [''cache'', ''tmp''] | Some rs \<Rightarrow> rs) in
      case traverse_result (\<lambda>r. assertVfsPermission (env_roots env) r Op_cleanup (env_policy env)) rootsToClean of
        Inl e \<Rightarrow> (Inl e, st)
      | Inr _ \<Rightarrow>
         (let maxAgeMs = (case cp_maxAgeMs cp of None \<Rightarrow> 0 | Some n \<Rightarrow> n);
              (now, st1) = (case cp_nowMs cp of
                 Some t \<Rightarrow> (t, st)
               | None \<Rightarrow> (env_clock env (st_ticks st), st\<lparr>st_ticks := Suc (st_ticks st)\<rparr>));
              sel = cleanup_selects env rootsToClean now maxAgeMs
          in (bridgeOk (map se_entry (filter sel (js_values (st_entries st1))),
                        map se_entry (filter (\<lambda>e. \<not> sel e) (js_values (st_entries st1)))),
              if cp_dryRun cp then st1
              else st1\<lparr>st_entries := filter (\<lambda>(k, e). \<not> sel e) (st_entries st1)\<rparr>)))"

section \<open>The store as a machine\<close>

datatype vfs_call =
    EnsureDirectory vfs_ref
  | WriteText vfs_ref string "string option"
  | WriteBytes vfs_ref "byte list" "string option"
  | WriteTextAtomic vfs_ref string "string option"
  | Delete vfs_ref bool
  | Copy vfs_ref vfs_ref bool
  | Move vfs_ref vfs_ref bool
  | ImportText vfs_ref string import_options
  | ImportManyText "(vfs_ref \<times> string \<times> import_options) list"
  | ExportPackage "vfs_ref list" export_options
  | ImportPackage vfs_package import_package_options
  | Cleanup cleanup_policy

fun vfs_step :: "vfs_env \<Rightarrow> vfs_call \<Rightarrow> vfs_state \<Rightarrow> vfs_state" where
  "vfs_step env (EnsureDirectory r) st = snd (ensureDirectory env r st)"
| "vfs_step env (WriteText r s ct) st = snd (writeText env r s ct st)"
| "vfs_step env (WriteBytes r bs ct) st = snd (writeBytes env r bs ct st)"
| "vfs_step env (WriteTextAtomic r s ct) st = snd (writeTextAtomic env r s ct st)"
| "vfs_step env (Delete r rec) st = snd (vfs_delete env r rec st)"
| "vfs_step env (Copy s t ow) st = snd (vfs_copy env s t ow st)"
| "vfs_step env (Move s t ow) st = snd (vfs_move env s t ow st)"
| "vfs_step env (ImportText r s io) st = snd (importText env r s io st)"
| "vfs_step env (ImportManyText items) st = snd (importManyText env items st)"
| "vfs_step env (ExportPackage refs xo) st = snd (exportPackage env refs xo st)"
| "vfs_step env (ImportPackage pkg po) st = snd (importPackage env pkg po st)"
| "vfs_step env (Cleanup cp) st = snd (vfs_cleanup env cp st)"

definition entry_ok :: "vfs_env \<Rightarrow> string \<Rightarrow> stored_entry \<Rightarrow> bool" where
  "entry_ok env key e =
     (case resolveVfsPath (env_roots env) (ref_root (en_ref (se_entry e))) (ref_path (en_ref (se_entry e))) of
        Inl _ \<Rightarrow> False
      | Inr x \<Rightarrow>
          key = keyForResolved env x \<and> res_mutable x \<and> res_path x = ref_path (en_ref (se_entry e)) \<and>
          res_fullPath x = en_fullPath (se_entry e) \<and>
          (case se_content e of
             None \<Rightarrow> en_type (se_entry e) = DirectoryEntry \<and> en_size (se_entry e) = 0
           | Some c \<Rightarrow> en_type (se_entry e) = FileEntry \<and> en_size (se_entry e) = byteLength c \<and>
                checkWriteSize env (res_root x) c = bridgeOk ()))"

definition vfs_ok :: "vfs_env \<Rightarrow> vfs_state \<Rightarrow> bool" where
  "vfs_ok env st \<longleftrightarrow> js_map_ok (st_entries st) \<and>
     (\<forall>(k, e) \<in> set (st_entries st). entry_ok env k e) \<and> catalog_ok (st_catalog st)"

lemma resolve_root_mutable:
  assumes "resolveVfsPath roots r p = Inr x"
  shows "res_root x = r" and "map_of roots r = Some root \<Longrightarrow> res_mutable x \<longleftrightarrow> root_mutable root"
  using resolve_Inr [OF assms] by auto

lemma permission_mutable:
  "assertVfsPermission roots r op policy = Inr root \<Longrightarrow> op \<in> set MUTATING_OPERATIONS \<Longrightarrow>
     resolveVfsPath roots r p = Inr x \<Longrightarrow> res_mutable x"
  using resolve_root_mutable(2) [of roots r p x root]
  by (auto simp: assertVfsPermission_def split: option.splits if_splits)

lemma toEntry_simps [simp]:
  "en_ref (fst (toEntry env x typ c ct st)) = \<lparr>ref_root = res_root x, ref_path = res_path x\<rparr>"
  "en_fullPath (fst (toEntry env x typ c ct st)) = res_fullPath x"
  "en_type (fst (toEntry env x typ c ct st)) = typ"
  "en_size (fst (toEntry env x typ c ct st)) = (if typ = DirectoryEntry then 0 else byteLength c)"
  "en_contentType (fst (toEntry env x typ c ct st)) = ct"
  "st_entries (snd (toEntry env x typ c ct st)) = st_entries st"
  "st_catalog (snd (toEntry env x typ c ct st)) = st_catalog st"
  by (simp_all add: toEntry_def Let_def)

lemma put_entry_simps [simp]:
  "st_entries (put_entry env x e st) = AList.update (keyForResolved env x) e (st_entries st)"
  "st_catalog (put_entry env x e st) = st_catalog st"
  "st_ticks (put_entry env x e st) = st_ticks st"
  by (simp_all add: put_entry_def)

lemma put_entry_ok:
  "vfs_ok env st \<Longrightarrow> entry_ok env (keyForResolved env x) e \<Longrightarrow> vfs_ok env (put_entry env x e st)"
  by (auto simp: vfs_ok_def js_map.invar_put dest!: alist_update_entries)

lemma vfs_ok_toEntry [simp]: "vfs_ok env (snd (toEntry env x typ c ct st)) = vfs_ok env st"
  by (simp add: vfs_ok_def)

lemma store_directory_alt:
  "store_directory env x st =
     (fst (toEntry env x DirectoryEntry (Text []) None st),
      put_entry env x \<lparr>se_entry = fst (toEntry env x DirectoryEntry (Text []) None st), se_content = None\<rparr>
        (snd (toEntry env x DirectoryEntry (Text []) None st)))"
  by (simp add: store_directory_def case_prod_beta)

lemma store_directory_ok:
  assumes "vfs_ok env st" "resolveVfsPath (env_roots env) r p = Inr x" "res_mutable x"
  shows "vfs_ok env (snd (store_directory env x st))"
  using assms resolve_idem [OF assms(2)] resolve_root_mutable(1) [OF assms(2)]
  by (auto simp: store_directory_alt entry_ok_def intro!: put_entry_ok)

lemma ensure_parent_ok:
  assumes "vfs_ok env st" "resolveVfsPath (env_roots env) r p = Inr x" "res_mutable x"
  shows "vfs_ok env (ensure_parent env x i st)"
proof -
  have "res_mutable d" if "resolveVfsPath (env_roots env) (res_root x) q = Inr d" for q d
    using resolve_Inr [OF that] resolve_Inr [OF assms(2)] assms(3) by auto
  then show ?thesis using assms(1)
    by (auto simp: ensure_parent_def intro: store_directory_ok split: sum.splits)
qed

lemma fold_parents_ok:
  assumes "resolveVfsPath (env_roots env) r p = Inr x" "res_mutable x"
  shows "vfs_ok env st \<Longrightarrow> vfs_ok env (fold (ensure_parent env x) is st)"
  by (induction "is" arbitrary: st) (auto intro: ensure_parent_ok [OF _ assms])

lemma ensureParentDirectories_ok:
  "vfs_ok env st \<Longrightarrow> resolveVfsPath (env_roots env) r p = Inr x \<Longrightarrow> res_mutable x \<Longrightarrow>
     vfs_ok env (ensureParentDirectories env x st)"
  unfolding ensureParentDirectories_def by (rule fold_parents_ok)

lemma make_directory_ok: "vfs_ok env st \<Longrightarrow> vfs_ok env (snd (make_directory env ref st))"
  by (auto simp: make_directory_def case_prod_beta Let_def MUTATING_OPERATIONS_def split: sum.splits
      intro!: store_directory_ok ensureParentDirectories_ok elim: permission_mutable)

lemma writeEntry_alt:
  assumes "assertVfsPermission (env_roots env) (ref_root ref) Op_write (env_policy env) = Inr root"
    and "checkWriteSize env (ref_root ref) content = Inr u"
    and "resolveVfsPath (env_roots env) (ref_root ref) (ref_path ref) = Inr x"
  shows "writeEntry env ref content ct st =
    (let t = toEntry env x FileEntry content ct (ensureParentDirectories env x st)
     in (Inr (fst t), put_entry env x \<lparr>se_entry = fst t, se_content = Some content\<rparr> (snd t)))"
  using assms by (simp add: writeEntry_def case_prod_beta Let_def)

lemma writeEntry_cases:
  obtains (refused) e where "writeEntry env ref content ct st = (Inl e, st)"
  | (written) root x where
      "assertVfsPermission (env_roots env) (ref_root ref) Op_write (env_policy env) = Inr root"
      "checkWriteSize env (ref_root ref) content = Inr ()"
      "resolveVfsPath (env_roots env) (ref_root ref) (ref_path ref) = Inr x"
proof -
  show ?thesis
  proof (cases "assertVfsPermission (env_roots env) (ref_root ref) Op_write (env_policy env)")
    case Inl
    then show ?thesis using refused by (simp add: writeEntry_def)
  next
    case perm: (Inr root)
    show ?thesis
    proof (cases "checkWriteSize env (ref_root ref) content")
      case Inl
      then show ?thesis using refused perm by (simp add: writeEntry_def)
    next
      case size: (Inr u)
      then show ?thesis using refused written perm
        by (cases "resolveVfsPath (env_roots env) (ref_root ref) (ref_path ref)")
          (auto simp: writeEntry_def)
    qed
  qed
qed

lemma writeEntry_ok:
  assumes "vfs_ok env st"
  shows "vfs_ok env (snd (writeEntry env ref content ct st))"
proof (cases rule: writeEntry_cases [of env ref content ct st])
  case (written root x)
  have mut: "res_mutable x"
    using permission_mutable [OF written(1) _ written(3)] by (simp add: MUTATING_OPERATIONS_def)
  show ?thesis
    unfolding writeEntry_alt [OF written(1,2,3)] Let_def
    using ensureParentDirectories_ok [OF assms written(3) mut] resolve_idem [OF written(3)]
      resolve_root_mutable(1) [OF written(3)] mut written(2)
    by (auto simp: entry_ok_def intro!: put_entry_ok)
qed (use assms in simp)

lemma clone_ok: "vfs_ok env st \<Longrightarrow> vfs_ok env (snd (cloneStoredEntry env t s st))"
  by (simp add: cloneStoredEntry_def make_directory_ok writeEntry_ok)

lemma copy_children_ok: "vfs_ok env st \<Longrightarrow> vfs_ok env (snd (copy_children env r s t cs st))"
proof (induction cs arbitrary: st)
  case (Cons c cs)
  define p where "p = replacePrefix (ref_path (en_ref (se_entry c))) s t"
  show ?case
    using clone_ok [OF Cons.prems, of "\<lparr>ref_root = r, ref_path = p\<rparr>" c] Cons.IH
    by (auto simp: p_def split: prod.splits sum.splits)
qed simp

lemma vfs_copy_ok:
  assumes "vfs_ok env st"
  shows "vfs_ok env (snd (vfs_copy env s t ow st))"
proof -
  have "vfs_ok env st2" if "cloneStoredEntry env t src st = (r, st1)"
    "copy_children env a b c cs st1 = (q, st2)" for src r st1 a b c cs q st2
    using clone_ok [OF assms, of t src] copy_children_ok [of env st1 a b c cs] that by simp
  moreover have "vfs_ok env st1" if "cloneStoredEntry env t src st = (r, st1)" for src r st1
    using clone_ok [OF assms, of t src] that by simp
  ultimately show ?thesis
    using assms clone_ok [OF assms]
    by (auto simp: vfs_copy_def Let_def split: sum.splits prod.splits option.splits)
qed

lemma vfs_ok_entries:
  "vfs_ok env st \<Longrightarrow> js_map_ok m \<Longrightarrow> set m \<subseteq> set (st_entries st) \<Longrightarrow> vfs_ok env (st\<lparr>st_entries := m\<rparr>)"
  unfolding vfs_ok_def by auto

lemma set_alist_delete: "set (AList.delete k m) \<subseteq> set m"
  by (auto simp: AList.delete_eq)

lemma vfs_ok_delete: "vfs_ok env st \<Longrightarrow> vfs_ok env (st\<lparr>st_entries := AList.delete k (st_entries st)\<rparr>)"
  by (rule vfs_ok_entries) (auto simp: vfs_ok_def js_map.invar_del dest: set_alist_delete [THEN subsetD])

lemma deleteByRef_ok: "vfs_ok env st \<Longrightarrow> vfs_ok env (deleteByRef env r st)"
  by (auto simp: deleteByRef_def vfs_ok_delete split: sum.splits)

lemma fold_delete_ok: "vfs_ok env st \<Longrightarrow> vfs_ok env (fold (\<lambda>c. deleteByRef env (f c)) cs st)"
  by (induction cs arbitrary: st) (auto intro: deleteByRef_ok)

lemma vfs_delete_ok: "vfs_ok env st \<Longrightarrow> vfs_ok env (snd (vfs_delete env r rec st))"
  by (auto simp: vfs_delete_def Let_def vfs_ok_delete fold_delete_ok split: sum.splits option.splits)

lemma vfs_ok_catalog:
  "vfs_ok env st \<Longrightarrow> catalog_ok c \<Longrightarrow> vfs_ok env (st\<lparr>st_catalog := c\<rparr>)"
  by (simp add: vfs_ok_def)

lemma vfs_ok_catalog_step: "vfs_ok env st \<Longrightarrow> vfs_ok env (st\<lparr>st_catalog := catalog_step c (st_catalog st)\<rparr>)"
  by (rule vfs_ok_catalog) (simp_all add: vfs_ok_def catalog_step_ok)

lemmas vfs_ok_upsert = vfs_ok_catalog_step [of _ _ "Upsert r" for r, simplified]
lemmas vfs_ok_movePrefix = vfs_ok_catalog_step [of _ _ "MovePathPrefix r s t" for r s t, simplified]

lemma vfs_move_ok:
  assumes "vfs_ok env st"
  shows "vfs_ok env (snd (vfs_move env s t ow st))"
proof -
  have "vfs_ok env st1" if "vfs_copy env s t ow st = (r, st1)" for r st1
    using vfs_copy_ok [OF assms, of s t ow] that by simp
  moreover have "vfs_ok env st2" if "vfs_delete env s True st1 = (r, st2)" "vfs_ok env st1" for st1 r st2
    using vfs_delete_ok [OF that(2), of s True] that(1) by simp
  ultimately show ?thesis
    using assms by (auto simp: vfs_move_def vfs_ok_movePrefix split: sum.splits prod.splits)
qed

lemma importText_ok:
  assumes "vfs_ok env st"
  shows "vfs_ok env (snd (importText env ref s io st))"
proof -
  have "vfs_ok env st1" if "writeEntry env ref (Text s) (io_contentType io) st = (r, st1)" for r st1
    using writeEntry_ok [OF assms, of ref "Text s" "io_contentType io"] that by simp
  then show ?thesis
    using assms
    by (auto simp: importText_def writeTextAtomic_def Let_def case_prod_beta split: sum.splits
        intro!: vfs_ok_upsert) (simp_all add: prod_eq_iff)
qed

lemma importManyText_ok: "vfs_ok env st \<Longrightarrow> vfs_ok env (snd (importManyText env items st))"
proof (induction items arbitrary: st)
  case (Cons i items)
  obtain ref s io where i: "i = (ref, s, io)" by (cases i)
  have "vfs_ok env (snd (importText env ref s io st))" by (rule importText_ok [OF Cons.prems])
  with Cons.IH show ?case by (fastforce simp: i split: sum.splits prod.splits)
qed simp

lemma vfs_ok_ticks [simp]: "vfs_ok env (st\<lparr>st_ticks := n\<rparr>) = vfs_ok env st"
  by (simp add: vfs_ok_def)

lemma exportPackage_ok: "vfs_ok env st \<Longrightarrow> vfs_ok env (snd (exportPackage env refs xo st))"
  by (auto simp: exportPackage_def Let_def split: sum.splits option.splits)

lemma import_files_ok: "vfs_ok env st \<Longrightarrow> vfs_ok env (snd (import_files env m po fs st))"
proof (induction fs arbitrary: st)
  case (Cons f fs)
  obtain pf content where f: "f = (pf, content)" by (cases f)
  define root path where "root = target_root po (pf_root pf)"
    and "path = joinVfsPath [js_or_opt (po_pathPrefix po) [], pf_relativePath pf]"
  obtain w st1 where w:
    "writeBytes env \<lparr>ref_root = root, ref_path = path\<rparr> content (pf_contentType pf) st = (w, st1)"
    by fastforce
  then have st1: "vfs_ok env st1"
    using writeEntry_ok [OF Cons.prems, of "\<lparr>ref_root = root, ref_path = path\<rparr>" "Bytes content"
        "pf_contentType pf"] by (simp add: writeBytes_def)
  have tail: "vfs_ok env (snd (case import_files env m po fs (st1\<lparr>st_catalog := snd (cat_upsert r (st_catalog st1))\<rparr>) of
      (Inl e, st3) \<Rightarrow> (Inl e, st3) | (Inr rs, st3) \<Rightarrow> (bridgeOk (r # rs), st3)))" for r
    using Cons.IH [OF vfs_ok_upsert [OF st1, of r]] by (auto split: prod.split sum.split)
  show ?case
    using Cons.prems st1 tail
    by (cases w) (simp_all add: f Let_def w [unfolded root_def path_def])
qed simp

lemma importPackage_ok: "vfs_ok env st \<Longrightarrow> vfs_ok env (snd (importPackage env pkg po st))"
  by (simp add: importPackage_def import_files_ok)

lemma vfs_cleanup_ok: "vfs_ok env st \<Longrightarrow> vfs_ok env (snd (vfs_cleanup env cp st))"
proof -
  assume ok: "vfs_ok env st"
  then have "vfs_ok env (st\<lparr>st_entries := filter p (st_entries st)\<rparr>)" for p
    by (intro vfs_ok_entries) (auto simp: vfs_ok_def js_map_ok_filter)
  moreover have "vfs_ok env (st\<lparr>st_ticks := n, st_entries := filter p (st_entries st)\<rparr>)" for p n
    using ok by (intro vfs_ok_entries) (auto simp: vfs_ok_def js_map_ok_filter)
  ultimately show ?thesis using ok
    by (auto simp: vfs_cleanup_def Let_def split: sum.splits option.splits)
qed

lemmas vfs_method_ok = make_directory_ok writeEntry_ok vfs_delete_ok vfs_copy_ok vfs_move_ok
  importText_ok importManyText_ok exportPackage_ok importPackage_ok vfs_cleanup_ok

lemma vfs_step_ok: "vfs_ok env st \<Longrightarrow> vfs_ok env (vfs_step env c st)"
  by (cases c) (simp_all add: vfs_method_ok ensureDirectory_def writeText_def writeBytes_def
      writeTextAtomic_def)

lemma empty_vfs_ok: "vfs_ok env empty_vfs"
  using catalog.inv_start [of "createResourceCatalog []"]
  by (auto simp: vfs_ok_def empty_vfs_def)

interpretation memory_vfs: guarded_machine "\<lambda>st. st = empty_vfs" "vfs_step env" "vfs_ok env" for env
  by unfold_locales (auto simp: empty_vfs_ok vfs_step_ok)

lemma vfs_ok_lookup:
  assumes "vfs_ok env st" and "map_of (st_entries st) k = Some e"
  shows "entry_ok env k e"
  using assms by (auto simp: vfs_ok_def dest!: map_of_SomeD)

lemma entry_ok_keyForRef: "entry_ok env k e \<Longrightarrow> keyForRef env (en_ref (se_entry e)) = Inr k"
  by (auto simp: entry_ok_def keyForRef_def split: sum.splits)

lemma entry_ok_content:
  "entry_ok env k e \<Longrightarrow> en_type (se_entry e) = FileEntry \<Longrightarrow>
     \<exists>c. se_content e = Some c \<and> en_size (se_entry e) = byteLength c"
  "entry_ok env k e \<Longrightarrow> en_type (se_entry e) = DirectoryEntry \<Longrightarrow>
     se_content e = None \<and> en_size (se_entry e) = 0"
  by (auto simp: entry_ok_def split: sum.splits option.splits)

section \<open>Frame of a write\<close>

text \<open>Creating parents only adds directories under keys that were free.\<close>

definition adds_directories :: "vfs_state \<Rightarrow> vfs_state \<Rightarrow> bool" where
  "adds_directories st st' \<longleftrightarrow>
     (\<forall>k. map_of (st_entries st) k \<noteq> None \<longrightarrow> map_of (st_entries st') k = map_of (st_entries st) k) \<and>
     (\<forall>k e. map_of (st_entries st) k = None \<longrightarrow> map_of (st_entries st') k = Some e \<longrightarrow>
        en_type (se_entry e) = DirectoryEntry) \<and> st_catalog st' = st_catalog st"

lemma adds_directories_refl: "adds_directories st st"
  by (simp add: adds_directories_def)

lemma adds_directories_trans:
  "adds_directories a b \<Longrightarrow> adds_directories b c \<Longrightarrow> adds_directories a c"
  unfolding adds_directories_def by (metis option.collapse)

lemma ensure_parent_frame: "adds_directories st (ensure_parent env x i st)"
  by (auto simp: ensure_parent_def adds_directories_def store_directory_alt update_conv' split: sum.splits)

lemma fold_parent_frame: "adds_directories st (fold (ensure_parent env x) is st)"
  by (induction "is" arbitrary: st)
    (auto intro: adds_directories_refl adds_directories_trans [OF ensure_parent_frame])

lemma ensureParentDirectories_frame: "adds_directories st (ensureParentDirectories env x st)"
  unfolding ensureParentDirectories_def by (rule fold_parent_frame)

lemma stored_key_eq:
  "resolveVfsPath (env_roots env) (ref_root ref) (ref_path ref) = Inr x \<Longrightarrow>
     keyForRef env ref = Inr (keyForResolved env x)"
  by (simp add: keyForRef_def)

definition stored_at :: "vfs_env \<Rightarrow> vfs_ref \<Rightarrow> vfs_state \<Rightarrow> stored_entry option" where
  "stored_at env ref st = (case keyForRef env ref of Inl _ \<Rightarrow> None | Inr k \<Rightarrow> map_of (st_entries st) k)"

lemma writeEntry_effect:
  assumes "writeEntry env ref content ct st = (Inr en, st')"
  shows "\<exists>k. keyForRef env ref = Inr k \<and>
     map_of (st_entries st') k = Some \<lparr>se_entry = en, se_content = Some content\<rparr> \<and>
     en_type en = FileEntry \<and> en_size en = byteLength content \<and> en_contentType en = ct \<and>
     ref_root (en_ref en) = ref_root ref \<and>
     normalizeVfsPath False (ref_path ref) = normalizeVfsPath False (ref_path (en_ref en)) \<and>
     (\<forall>j. j \<noteq> k \<longrightarrow> map_of (st_entries st) j \<noteq> None \<longrightarrow> map_of (st_entries st') j = map_of (st_entries st) j) \<and>
     (\<forall>j e. j \<noteq> k \<longrightarrow> map_of (st_entries st) j = None \<longrightarrow> map_of (st_entries st') j = Some e \<longrightarrow>
        en_type (se_entry e) = DirectoryEntry) \<and>
     st_catalog st' = st_catalog st"
proof (cases rule: writeEntry_cases [of env ref content ct st])
  case (written root x)
  have fr: "adds_directories st (ensureParentDirectories env x st)"
    by (rule ensureParentDirectories_frame)
  show ?thesis
  proof (intro exI [of _ "keyForResolved env x"] conjI)
    show "normalizeVfsPath False (ref_path ref) = normalizeVfsPath False (ref_path (en_ref en))"
      using assms resolve_Inr [OF written(3)] normalize_idem
      by (auto simp: writeEntry_alt [OF written] Let_def)
  qed (use assms fr resolve_root_mutable(1) [OF written(3)] in
      \<open>auto simp: writeEntry_alt [OF written] Let_def update_conv' stored_key_eq [OF written(3)] adds_directories_def\<close>)
qed (use assms in simp)

lemma writeEntry_refused: "writeEntry env ref content ct st = (Inl e, st') \<Longrightarrow> st' = st"
  by (cases rule: writeEntry_cases [of env ref content ct st]) (auto simp: writeEntry_alt Let_def)

lemma make_directory_effect:
  assumes "make_directory env ref st = (Inr en, st')"
  shows "\<exists>k. keyForRef env ref = Inr k \<and>
     map_of (st_entries st') k = Some \<lparr>se_entry = en, se_content = None\<rparr> \<and>
     en_type en = DirectoryEntry \<and>
     ref_root (en_ref en) = ref_root ref \<and>
     normalizeVfsPath False (ref_path ref) = normalizeVfsPath False (ref_path (en_ref en)) \<and>
     (\<forall>j. j \<noteq> k \<longrightarrow> map_of (st_entries st) j \<noteq> None \<longrightarrow> map_of (st_entries st') j = map_of (st_entries st) j)"
proof -
  from assms obtain x where x: "resolveVfsPath (env_roots env) (ref_root ref) (ref_path ref) = Inr x"
    and sd: "store_directory env x (ensureParentDirectories env x st) = (en, st')"
    by (auto simp: make_directory_def case_prod_beta split: sum.splits)
  have fr: "adds_directories st (ensureParentDirectories env x st)"
    by (rule ensureParentDirectories_frame)
  show ?thesis
    using fr sd resolve_root_mutable(1) [OF x] resolve_Inr [OF x] normalize_idem
    by (intro exI [of _ "keyForResolved env x"])
      (auto simp: store_directory_alt update_conv' stored_key_eq [OF x] adds_directories_def)
qed

lemma clone_effect:
  assumes "cloneStoredEntry env ref src st = (Inr en, st')"
  shows "\<exists>k e. keyForRef env ref = Inr k \<and> map_of (st_entries st') k = Some e \<and> se_entry e = en \<and>
     en_type en = en_type (se_entry src) \<and>
     (en_type en = FileEntry \<longrightarrow> se_content e = Some (stored_content src) \<and>
        en_contentType en = en_contentType (se_entry src)) \<and>
     ref_root (en_ref en) = ref_root ref \<and>
     normalizeVfsPath False (ref_path ref) = normalizeVfsPath False (ref_path (en_ref en)) \<and>
     (\<forall>j. j \<noteq> k \<longrightarrow> map_of (st_entries st) j \<noteq> None \<longrightarrow> map_of (st_entries st') j = map_of (st_entries st) j)"
proof (cases "en_type (se_entry src)")
  case FileEntry
  with assms have "writeEntry env ref (stored_content src) (en_contentType (se_entry src)) st = (Inr en, st')"
    by (simp add: cloneStoredEntry_def)
  from writeEntry_effect [OF this] FileEntry show ?thesis by fastforce
next
  case DirectoryEntry
  with assms have "make_directory env ref st = (Inr en, st')" by (simp add: cloneStoredEntry_def)
  from make_directory_effect [OF this] DirectoryEntry show ?thesis by fastforce
qed

lemma entryFor_stored:
  "assertVfsPermission (env_roots env) (ref_root ref) Op_read (env_policy env) = Inr root \<Longrightarrow>
     keyForRef env ref = Inr k \<Longrightarrow> map_of (st_entries st) k = Some e \<Longrightarrow> entryFor env ref st = Inr e"
  by (simp add: entryFor_def)

lemma entryFor_Inr:
  assumes "entryFor env ref st = Inr e"
  obtains k where "keyForRef env ref = Inr k" "map_of (st_entries st) k = Some e"
  using assms by (auto simp: entryFor_def bind_result_Inr split: option.splits)

text \<open>
  (C5) A write that succeeds is read back: as text, as UTF-8 bytes and by \<open>stat\<close>, whatever the store
  held before. It replaces only the entry of its own path: every other entry is unchanged, and what it
  adds elsewhere are directories on free paths. The catalog is untouched.
\<close>

theorem write_then_read:
  assumes "writeText env ref s ct st = (Inr en, st')"
    and "assertVfsPermission (env_roots env) (ref_root ref) Op_read (env_policy env) = Inr root"
  shows "readText env ref st' = Inr s \<and> readBytes env ref st' = Inr (text_encode s) \<and>
    vfs_stat env ref st' = Inr en \<and> en_size en = byteLength (Text s) \<and> st_catalog st' = st_catalog st \<and>
    (\<exists>k. keyForRef env ref = Inr k \<and>
      (\<forall>j. j \<noteq> k \<longrightarrow> map_of (st_entries st') j \<noteq> map_of (st_entries st) j \<longrightarrow>
         map_of (st_entries st) j = None \<and>
         (\<exists>e. map_of (st_entries st') j = Some e \<and> en_type (se_entry e) = DirectoryEntry)))"
proof -
  from writeEntry_effect [OF assms(1) [unfolded writeText_def]] obtain k where
    k: "keyForRef env ref = Inr k" "map_of (st_entries st') k = Some \<lparr>se_entry = en, se_content = Some (Text s)\<rparr>"
      "en_type en = FileEntry" "en_size en = byteLength (Text s)" "st_catalog st' = st_catalog st"
    and old: "\<And>j. j \<noteq> k \<Longrightarrow> map_of (st_entries st) j \<noteq> None \<Longrightarrow> map_of (st_entries st') j = map_of (st_entries st) j"
    and new: "\<And>j e. j \<noteq> k \<Longrightarrow> map_of (st_entries st) j = None \<Longrightarrow> map_of (st_entries st') j = Some e \<Longrightarrow>
        en_type (se_entry e) = DirectoryEntry"
    by blast
  have e: "entryFor env ref st' = Inr \<lparr>se_entry = en, se_content = Some (Text s)\<rparr>"
    by (rule entryFor_stored [OF assms(2) k(1,2)])
  have "map_of (st_entries st) j = None \<and>
         (\<exists>e. map_of (st_entries st') j = Some e \<and> en_type (se_entry e) = DirectoryEntry)"
    if "j \<noteq> k" "map_of (st_entries st') j \<noteq> map_of (st_entries st) j" for j
    using that old [of j] new [of j] by (metis option.exhaust)
  with e k show ?thesis by (auto simp: readText_def readBytes_def vfs_stat_def)
qed

text \<open>A concrete store: the default roots under \<open>/b\<close>, no policy, a clock that counts readings.\<close>

definition sample_env :: vfs_env where
  "sample_env = \<lparr>env_roots = createDefaultVfsRoots ''/b'', env_policy = None,
     env_clock = (\<lambda>n. 1000 + int n), env_decode = (\<lambda>bs. map (char_of \<circ> unat) bs)\<rparr>"

theorem write_then_read_witness:
  "\<exists>en st' root. writeText sample_env \<lparr>ref_root = ''projects'', ref_path = ''p/a.txt''\<rparr> ''hi'' None empty_vfs = (Inr en, st') \<and>
     assertVfsPermission (env_roots sample_env) ''projects'' Op_read (env_policy sample_env) = Inr root \<and>
     readText sample_env \<lparr>ref_root = ''projects'', ref_path = ''p/a.txt''\<rparr> st' = Inr ''hi''"
proof -
  let ?r = "\<lparr>ref_root = ''projects'', ref_path = ''p/a.txt''\<rparr>"
  have w: "is_ok (fst (writeText sample_env ?r ''hi'' None empty_vfs))" by code_simp
  have p: "is_ok (assertVfsPermission (env_roots sample_env) (ref_root ?r) Op_read (env_policy sample_env))"
    by code_simp
  obtain en st' where "writeText sample_env ?r ''hi'' None empty_vfs = (Inr en, st')"
    using w by (cases "writeText sample_env ?r ''hi'' None empty_vfs") (auto simp: is_ok_def split: sum.splits)
  moreover obtain root where
    "assertVfsPermission (env_roots sample_env) (ref_root ?r) Op_read (env_policy sample_env) = Inr root"
    using p by (auto simp: is_ok_def split: sum.splits)
  ultimately show ?thesis using write_then_read [of sample_env ?r "''hi''" None empty_vfs en st' root] by auto
qed

text \<open>
  (C4) Whatever sequence of VFS calls is made, every stored entry sits under the key its own
  reference resolves to, lies in a mutable root, carries the path it was resolved to, is a directory
  without content or a file whose recorded size is the length of its content and within the
  configured limit; keys are unique and the catalog invariant holds.
\<close>

theorem vfs_reachable_ok: "vfs_ok env (fold (vfs_step env) calls empty_vfs)"
  by (rule memory_vfs.inv_reachable) (rule refl)

section \<open>Deletion\<close>

lemma fold_deleteByRef:
  assumes "\<And>c. c \<in> set cs \<Longrightarrow> keyForRef env (en_ref (se_entry c)) = Inr (kf c)"
  shows "map_of (st_entries (fold (\<lambda>c. deleteByRef env (en_ref (se_entry c))) cs st)) =
     (\<lambda>k. if k \<in> kf ` set cs then None else map_of (st_entries st) k) \<and>
     st_catalog (fold (\<lambda>c. deleteByRef env (en_ref (se_entry c))) cs st) = st_catalog st"
  using assms
proof (induction cs arbitrary: st)
  case (Cons c cs)
  let ?st = "deleteByRef env (en_ref (se_entry c)) st"
  have "st_entries ?st = AList.delete (kf c) (st_entries st)" "st_catalog ?st = st_catalog st"
    using Cons.prems [of c] by (simp_all add: deleteByRef_def)
  then show ?case using Cons.IH [of ?st] Cons.prems by (auto simp: delete_conv')
qed simp

definition entry_key :: "vfs_env \<Rightarrow> stored_entry \<Rightarrow> string" where
  "entry_key env e = (case keyForRef env (en_ref (se_entry e)) of Inr k \<Rightarrow> k | Inl _ \<Rightarrow> [])"

lemma entry_ok_key: "entry_ok env k e \<Longrightarrow> entry_key env e = k"
  by (simp add: entry_key_def entry_ok_keyForRef)

lemma values_ok:
  "vfs_ok env st \<Longrightarrow> e \<in> set (js_values (st_entries st)) \<longleftrightarrow>
     map_of (st_entries st) (entry_key env e) = Some e"
proof
  assume ok: "vfs_ok env st" and "e \<in> set (js_values (st_entries st))"
  then obtain k where k: "(k, e) \<in> set (st_entries st)" by (auto simp: js_values_def)
  with ok have "entry_ok env k e" by (auto simp: vfs_ok_def)
  with ok k show "map_of (st_entries st) (entry_key env e) = Some e"
    by (auto simp: vfs_ok_def js_map_okD entry_ok_key)
qed (auto simp: js_values_def dest!: map_of_SomeD intro!: rev_image_eqI)


definition sample_store :: vfs_state where
  "sample_store = snd (writeText sample_env \<lparr>ref_root = ''projects'', ref_path = ''p/a.txt''\<rparr> ''hi'' None empty_vfs)"

lemma sample_store_ok: "vfs_ok sample_env sample_store"
  using vfs_step_ok [OF empty_vfs_ok, of sample_env "WriteText \<lparr>ref_root = ''projects'', ref_path = ''p/a.txt''\<rparr> ''hi'' None"]
  by (simp add: sample_store_def)

lemma sample_permission:
  "op \<in> set ALL_OPERATIONS \<Longrightarrow> \<exists>root. assertVfsPermission (env_roots sample_env) ''projects'' op (env_policy sample_env) = Inr root"
proof -
  have "list_all (\<lambda>op. is_ok (assertVfsPermission (env_roots sample_env) ''projects'' op (env_policy sample_env))) ALL_OPERATIONS"
    by code_simp
  then show "op \<in> set ALL_OPERATIONS \<Longrightarrow> ?thesis"
    unfolding list_all_iff is_ok_def by (metis (no_types, lifting) old.sum.exhaust sum.simps(5))
qed

lemma sample_keys:
  "keyForRef sample_env \<lparr>ref_root = ''projects'', ref_path = ''p''\<rparr> = Inr ''/b/projects/p''"
  "map (\<lambda>(k, e). (k, en_type (se_entry e), en_fullPath (se_entry e))) (st_entries sample_store) =
     [(''/b/projects/p'', DirectoryEntry, ''/b/projects/p''),
      (''/b/projects/p/a.txt'', FileEntry, ''/b/projects/p/a.txt'')]"
  by code_simp+


section \<open>Copying a directory\<close>

definition same_node :: "stored_entry \<Rightarrow> stored_entry \<Rightarrow> bool" where
  "same_node a b \<longleftrightarrow> en_type (se_entry a) = en_type (se_entry b) \<and>
     (en_type (se_entry a) = FileEntry \<longrightarrow> stored_content a = stored_content b \<and>
        en_contentType (se_entry a) = en_contentType (se_entry b))"

definition child_target :: "string \<Rightarrow> string \<Rightarrow> string \<Rightarrow> stored_entry \<Rightarrow> vfs_ref" where
  "child_target root s t c =
     \<lparr>ref_root = root, ref_path = replacePrefix (ref_path (en_ref (se_entry c))) s t\<rparr>"

lemma clone_same_node:
  assumes "cloneStoredEntry env ref src st = (Inr en, st')"
  shows "\<exists>k e. keyForRef env ref = Inr k \<and> map_of (st_entries st') k = Some e \<and> se_entry e = en \<and>
    same_node e src \<and>
    (\<forall>j. j \<noteq> k \<longrightarrow> map_of (st_entries st) j \<noteq> None \<longrightarrow> map_of (st_entries st') j = map_of (st_entries st) j)"
  using clone_effect [OF assms] by (fastforce simp: same_node_def stored_content_def)

lemma copy_children_effect:
  assumes "copy_children env root s t cs st = (None, st')"
    and "distinct (map f cs)"
    and "\<And>c d k. c \<in> set cs \<Longrightarrow> d \<in> set cs \<Longrightarrow> keyForRef env (child_target root s t c) = Inr k \<Longrightarrow>
           keyForRef env (child_target root s t d) = Inr k \<Longrightarrow> f c = f d"
  shows "(\<forall>c \<in> set cs. \<exists>k e. keyForRef env (child_target root s t c) = Inr k \<and>
            map_of (st_entries st') k = Some e \<and> same_node e c) \<and>
         (\<forall>j. Inr j \<notin> set (map (\<lambda>c. keyForRef env (child_target root s t c)) cs) \<longrightarrow>
            map_of (st_entries st) j \<noteq> None \<longrightarrow> map_of (st_entries st') j = map_of (st_entries st) j)"
  using assms
proof (induction cs arbitrary: st)
  case (Cons c cs)
  from Cons.prems(1) obtain en st1 where
    clone: "cloneStoredEntry env (child_target root s t c) c st = (Inr en, st1)"
    and rest: "copy_children env root s t cs st1 = (None, st')"
    by (auto simp: child_target_def split: sum.splits prod.splits)
  from clone_same_node [OF clone] obtain k e where
    k: "keyForRef env (child_target root s t c) = Inr k" "map_of (st_entries st1) k = Some e" "same_node e c"
    and old: "\<And>j. j \<noteq> k \<Longrightarrow> map_of (st_entries st) j \<noteq> None \<Longrightarrow> map_of (st_entries st1) j = map_of (st_entries st) j"
    by blast
  have d: "Inr k \<notin> set (map (\<lambda>c. keyForRef env (child_target root s t c)) cs)"
  proof
    assume "Inr k \<in> set (map (\<lambda>c. keyForRef env (child_target root s t c)) cs)"
    then obtain d where "d \<in> set cs" "keyForRef env (child_target root s t d) = Inr k" by auto
    with Cons.prems(3) [of c d k] k(1) have "f c \<in> f ` set cs" by (auto intro: rev_image_eqI)
    with Cons.prems(2) show False by simp
  qed
  have IH: "(\<forall>c \<in> set cs. \<exists>k e. keyForRef env (child_target root s t c) = Inr k \<and>
            map_of (st_entries st') k = Some e \<and> same_node e c) \<and>
         (\<forall>j. Inr j \<notin> set (map (\<lambda>c. keyForRef env (child_target root s t c)) cs) \<longrightarrow>
            map_of (st_entries st1) j \<noteq> None \<longrightarrow> map_of (st_entries st') j = map_of (st_entries st1) j)"
    by (rule Cons.IH [OF rest]) (use Cons.prems(2,3) in auto)
  have e: "map_of (st_entries st') k = Some e" using IH d k(2) by auto
  have "map_of (st_entries st') j = map_of (st_entries st) j"
    if "Inr j \<notin> set (map (\<lambda>c. keyForRef env (child_target root s t c)) (c # cs))" "map_of (st_entries st) j \<noteq> None" for j
  proof -
    have "j \<noteq> k" using that(1) k(1) by auto
    then show ?thesis using old [of j] that IH by simp
  qed
  then show ?case using IH k(1,3) e by auto
qed simp

lemma fullPath_below:
  assumes "resolveVfsPath roots r p = Inr d" "resolveVfsPath roots r' q = Inr c"
    "res_root d = res_root c" "prefix (res_fullPath d @ ''/'') (res_fullPath c)"
  shows "\<exists>rest. rest \<noteq> [] \<and> res_segments c = res_segments d @ rest"
proof -
  obtain root s1 where d: "map_of roots r = Some root" "res_root d = r"
      "res_fullPath d = js_strip_end is_slash (root_path root) @ ''/'' @ js_join ''/'' s1"
      "res_segments d = s1" "normalizeVfsPath False p = Inr s1"
    using resolve_Inr [OF assms(1)] by auto
  obtain root' s2 where c: "map_of roots r' = Some root'" "res_root c = r'"
      "res_fullPath c = js_strip_end is_slash (root_path root') @ ''/'' @ js_join ''/'' s2"
      "res_segments c = s2" "normalizeVfsPath False q = Inr s2"
    using resolve_Inr [OF assms(2)] by auto
  have roots: "root' = root" using c(1,2) d(1,2) assms(3) by simp
  note n1 = normalize_Inr [OF d(5)] and n2 = normalize_Inr [OF c(5)]
  from assms(4) d(3) c(3) roots obtain u where u: "js_join ''/'' s2 = js_join ''/'' s1 @ ''/'' @ u"
    by (auto simp: prefix_def)
  have p1: "js_pieces slash (js_join ''/'' s1) = s1" and p2: "js_pieces slash (js_join ''/'' s2) = s2"
    using n1(2) n2(2) by (auto intro!: js_pieces_join dest: safe_segment_chars)
  have s2: "s2 = s1 @ js_pieces slash u"
    using p1 p2 u js_pieces_append [of slash "js_join ''/'' s1" u] by simp
  have "js_pieces slash u \<noteq> []"
  proof
    assume "js_pieces slash u = []"
    with s2 have "s2 = s1" by simp
    with u show False by simp
  qed
  with s2 d(4) c(4) show ?thesis by blast
qed

definition case_fold :: "vfs_env \<Rightarrow> string \<Rightarrow> string \<Rightarrow> string" where
  "case_fold env r s =
     (case map_of (env_roots env) r of
        Some root \<Rightarrow> if root_caseSensitive root = Some True then s else js_lower s
      | None \<Rightarrow> js_lower s)"

lemma case_fold_append: "case_fold env r (s @ t) = case_fold env r s @ case_fold env r t"
  by (simp add: case_fold_def split: option.split)

lemma keyForResolved_fold: "keyForResolved env x = case_fold env (res_root x) (res_fullPath x)"
  by (simp add: keyForResolved_def case_fold_def)

lemma keyForRef_below:
  assumes "resolveVfsPath (env_roots env) r p = Inr d"
    and "keyForRef env \<lparr>ref_root = r, ref_path = js_join ''/'' (res_segments d @ rest)\<rparr> = Inr k"
    and "\<forall>s \<in> set rest. safe_segment s" "rest \<noteq> []"
  shows "k = case_fold env r (res_fullPath d @ ''/'') @ case_fold env r (js_join ''/'' rest)"
proof -
  obtain root where d: "map_of (env_roots env) r = Some root" "normalizeVfsPath False p = Inr (res_segments d)"
    "res_fullPath d = js_strip_end is_slash (root_path root) @ ''/'' @ js_join ''/'' (res_segments d)"
    using resolve_Inr [OF assms(1)] by auto
  note n = normalize_Inr [OF d(2)]
  have all: "normalizeVfsPath False (js_join ''/'' (res_segments d @ rest)) = Inr (res_segments d @ rest)"
    by (rule normalize_join) (use n assms(3) in auto)
  obtain y where y: "resolveVfsPath (env_roots env) r (js_join ''/'' (res_segments d @ rest)) = Inr y"
    and k: "k = keyForResolved env y"
    using assms(2) by (auto simp: keyForRef_def bind_result_Inr)
  have "res_fullPath y = res_fullPath d @ ''/'' @ js_join ''/'' rest" "res_root y = r"
    using resolve_Inr [OF y] d all js_join_append [OF n(1) assms(4), of "''/''"] by auto
  with k show ?thesis by (simp add: keyForResolved_fold flip: case_fold_append)
qed

lemma distinct_map_reflect:
  "distinct (map f xs) \<Longrightarrow> (\<And>x y. x \<in> set xs \<Longrightarrow> y \<in> set xs \<Longrightarrow> g x = g y \<Longrightarrow> f x = f y) \<Longrightarrow>
     distinct (map g xs)"
  unfolding distinct_map inj_on_def by metis

lemma distinct_entry_keys: "vfs_ok env st \<Longrightarrow> distinct (map (entry_key env) (js_values (st_entries st)))"
proof -
  assume ok: "vfs_ok env st"
  then have "map (entry_key env) (js_values (st_entries st)) = map fst (st_entries st)"
    by (auto simp: vfs_ok_def js_values_def entry_ok_key)
  with ok show ?thesis by (simp add: vfs_ok_def js_map_ok_def)
qed

lemma js_join_last:
  "segs \<noteq> [] \<Longrightarrow> \<forall>s \<in> set segs. s \<noteq> [] \<Longrightarrow> js_join sep segs \<noteq> [] \<and> last (js_join sep segs) = last (last segs)"
  by (induction sep segs rule: js_join.induct) auto

lemma resolved_no_trailing_slash:
  assumes "resolveVfsPath roots r p = Inr x"
  shows "\<not> suffix ''/'' (res_fullPath x)"
proof -
  obtain base segs where x: "normalizeVfsPath False p = Inr segs"
    "res_fullPath x = base @ ''/'' @ js_join ''/'' segs"
    using resolve_Inr [OF assms] by auto
  note n = normalize_Inr [OF x(1)]
  have ne: "\<forall>s \<in> set segs. s \<noteq> []" using n(2) by (auto dest: safe_segment_chars)
  have "last segs \<in> set segs" using n(1) by simp
  then have "last (last segs) \<noteq> slash" using n(2) ne by (metis last_in_set safe_segment_chars(8))
  with js_join_last [OF n(1) ne, of "''/''"] show ?thesis
    by (auto simp: x(2) suffix_def dest: arg_cong [where f = last])
qed

lemma child_segments:
  assumes "vfs_ok env st" and "map_of (st_entries st) k = Some src" and "c \<in> set (entriesBelow (se_entry src) st)"
    and "ref_root (en_ref (se_entry c)) = ref_root (en_ref (se_entry src))"
    and x: "resolveVfsPath (env_roots env) (ref_root (en_ref (se_entry src))) (ref_path (en_ref (se_entry src))) = Inr x"
  shows "\<exists>rest. rest \<noteq> [] \<and> (\<forall>s \<in> set rest. safe_segment s) \<and>
     ref_path (en_ref (se_entry c)) = js_join ''/'' (res_segments x @ rest) \<and>
     entry_key env c = case_fold env (res_root x) (res_fullPath x @ ''/'') @ case_fold env (res_root x) (js_join ''/'' rest)"
proof -
  let ?r = "ref_root (en_ref (se_entry src))"
  have src: "res_fullPath x = en_fullPath (se_entry src)" "res_root x = ?r"
    using vfs_ok_lookup [OF assms(1,2)] x resolve_root_mutable(1) [OF x] by (auto simp: entry_ok_def)
  have pre: "prefix (res_fullPath x @ ''/'') (en_fullPath (se_entry c))"
    using assms(3) resolved_no_trailing_slash [OF x] by (simp add: entriesBelow_def dir_prefix_def src(1))
  have "map_of (st_entries st) (entry_key env c) = Some c"
    using assms(1,3) values_ok by (auto simp: entriesBelow_def)
  then have okc: "entry_ok env (entry_key env c) c" by (rule vfs_ok_lookup [OF assms(1)])
  then obtain y where y: "resolveVfsPath (env_roots env) ?r (ref_path (en_ref (se_entry c))) = Inr y"
    "res_fullPath y = en_fullPath (se_entry c)" "res_path y = ref_path (en_ref (se_entry c))"
    using assms(4) by (auto simp: entry_ok_def split: sum.splits)
  obtain rest where rest: "rest \<noteq> []" "res_segments y = res_segments x @ rest"
    using fullPath_below [OF x y(1)] pre y(2) src(2) resolve_root_mutable(1) [OF y(1)] by auto
  obtain segs where segs: "normalizeVfsPath False (ref_path (en_ref (se_entry c))) = Inr segs"
    "res_segments y = segs" "res_path y = js_join ''/'' segs"
    using resolve_Inr [OF y(1)] by auto
  have safe: "\<forall>s \<in> set rest. safe_segment s" using normalize_Inr(2) [OF segs(1)] segs(2) rest(2) by auto
  have path: "ref_path (en_ref (se_entry c)) = js_join ''/'' (res_segments x @ rest)"
    using y(3) segs(2,3) rest(2) by simp
  have "keyForRef env \<lparr>ref_root = ?r, ref_path = js_join ''/'' (res_segments x @ rest)\<rparr> = Inr (entry_key env c)"
    using entry_ok_keyForRef [OF okc] assms(4) path by (metis vfs_ref.surjective unit.exhaust)
  from keyForRef_below [OF x this safe rest(1)] show ?thesis using rest(1) safe path src(2) by auto
qed

lemma child_target_segments:
  assumes ok: "vfs_ok env st" and ks: "map_of (st_entries st) k = Some src"
    and c: "c \<in> set (entriesBelow (se_entry src) st)"
    and own: "ref_root (en_ref (se_entry c)) = ref_root (en_ref (se_entry src))"
    and x: "resolveVfsPath (env_roots env) (ref_root (en_ref (se_entry src))) (ref_path (en_ref (se_entry src))) = Inr x"
    and sx: "res_segments x \<noteq> []" "\<forall>s \<in> set (res_segments x). safe_segment s"
      "ref_path (en_ref (se_entry src)) = js_join ''/'' (res_segments x)"
    and sy: "\<forall>s \<in> set ys. safe_segment s" "t = js_join ''/'' ys"
    and cs: "case_fold env (ref_root (en_ref (se_entry src))) = case_fold env tr"
  shows "\<exists>rest. rest \<noteq> [] \<and> (\<forall>s \<in> set rest. safe_segment s) \<and>
      ref_path (en_ref (se_entry c)) = js_join ''/'' (res_segments x @ rest) \<and>
      child_target tr (ref_path (en_ref (se_entry src))) t c =
        \<lparr>ref_root = tr, ref_path = js_join ''/'' (ys @ rest)\<rparr> \<and>
      entry_key env c = case_fold env tr (res_fullPath x @ ''/'') @ case_fold env tr (js_join ''/'' rest)"
proof -
  obtain rest where r: "rest \<noteq> []" "\<forall>s \<in> set rest. safe_segment s"
    "ref_path (en_ref (se_entry c)) = js_join ''/'' (res_segments x @ rest)"
    "entry_key env c = case_fold env tr (res_fullPath x @ ''/'') @ case_fold env tr (js_join ''/'' rest)"
    using child_segments [OF ok ks c own x] cs resolve_root_mutable(1) [OF x] by auto
  have "replacePrefix (js_join ''/'' (res_segments x @ rest)) (js_join ''/'' (res_segments x)) (js_join ''/'' ys) =
      js_join ''/'' (ys @ rest)"
    by (rule replacePrefix_safe) (use sx sy r(2) in auto)
  then have "child_target tr (ref_path (en_ref (se_entry src))) t c =
      \<lparr>ref_root = tr, ref_path = js_join ''/'' (ys @ rest)\<rparr>"
    by (simp only: child_target_def r(3) sx(3) sy(2))
  with r show ?thesis by blast
qed

lemma copy_directory_Inr:
  assumes "vfs_copy env source target ow st = (Inr en, st')" "entryFor env source st = Inr src"
    and "en_type (se_entry src) = DirectoryEntry"
  shows "\<exists>st1. cloneStoredEntry env target src st = (Inr en, st1) \<and>
     copy_children env (ref_root target) (ref_path (en_ref (se_entry src))) (ref_path (en_ref en))
       (entriesBelow (se_entry src) st) st1 = (None, st')"
  using assms by (auto simp: vfs_copy_def Let_def split: sum.splits if_splits prod.splits option.splits)

lemma vfs_copy_source:
  assumes "vfs_copy env source target ow st = (Inr en, st')"
  obtains src where "entryFor env source st = Inr src"
  using assms by (auto simp: vfs_copy_def split: sum.splits if_splits)


text \<open>
  Copying a directory copies its subtree. When \<open>copy\<close> succeeds on a directory whose descendants
  lie in its own root, and source and target root agree on case sensitivity, every entry below the source has a counterpart at the same relative path
  below the target, with the same type and, for files, the same content and content type.
\<close>

lemma copy_directory_copies_subtree:
  assumes ok: "vfs_ok env st" and copy: "vfs_copy env source target ow st = (Inr en, st')"
    and src: "entryFor env source st = Inr src" and dir: "en_type (se_entry src) = DirectoryEntry"
    and own: "\<forall>c \<in> set (entriesBelow (se_entry src) st).
        ref_root (en_ref (se_entry c)) = ref_root (en_ref (se_entry src))"
    and cs: "case_fold env (ref_root (en_ref (se_entry src))) = case_fold env (ref_root target)"
  shows "en_type en = DirectoryEntry \<and>
    (\<forall>c \<in> set (entriesBelow (se_entry src) st). \<exists>rest k e.
       ref_path (en_ref (se_entry c)) = ref_path (en_ref (se_entry src)) @ ''/'' @ rest \<and>
       keyForRef env \<lparr>ref_root = ref_root target, ref_path = ref_path (en_ref en) @ ''/'' @ rest\<rparr> = Inr k \<and>
       map_of (st_entries st') k = Some e \<and> same_node e c)"
proof -
  let ?cs = "entriesBelow (se_entry src) st" and ?tr = "ref_root target"
  obtain ks where ks: "map_of (st_entries st) ks = Some src" using src by (rule entryFor_Inr)
  obtain x where x: "resolveVfsPath (env_roots env) (ref_root (en_ref (se_entry src))) (ref_path (en_ref (se_entry src))) = Inr x"
    "res_path x = ref_path (en_ref (se_entry src))"
    using vfs_ok_lookup [OF ok ks] by (auto simp: entry_ok_def split: sum.splits)
  obtain st1 where clone: "cloneStoredEntry env target src st = (Inr en, st1)"
    and cc: "copy_children env ?tr (ref_path (en_ref (se_entry src))) (ref_path (en_ref en)) ?cs st1 = (None, st')"
    using copy_directory_Inr [OF copy src dir] by blast
  have "vfs_ok env st1" using clone_ok [OF ok, of target src] clone by simp
  moreover obtain kt e0 where kt: "map_of (st_entries st1) kt = Some e0" "se_entry e0 = en"
    "ref_root (en_ref en) = ?tr" "en_type en = DirectoryEntry"
    using clone_effect [OF clone] dir by auto
  ultimately obtain y where y: "resolveVfsPath (env_roots env) ?tr (ref_path (en_ref en)) = Inr y"
    "res_path y = ref_path (en_ref en)"
    using vfs_ok_lookup [of env st1 kt e0] by (auto simp: entry_ok_def split: sum.splits)
  have sx: "res_segments x \<noteq> []" "\<forall>s \<in> set (res_segments x). safe_segment s"
      "ref_path (en_ref (se_entry src)) = js_join ''/'' (res_segments x)"
    and sy: "res_segments y \<noteq> []" "\<forall>s \<in> set (res_segments y). safe_segment s"
      "ref_path (en_ref en) = js_join ''/'' (res_segments y)"
    using resolve_Inr [OF x(1)] x(2) resolve_Inr [OF y(1)] y(2) by (auto dest: normalize_Inr)
  note rest = child_target_segments [OF ok ks _ _ x(1) sx sy(2,3) cs]
  have same_key: "entry_key env c = entry_key env d"
    if "c \<in> set ?cs" "d \<in> set ?cs"
      "keyForRef env (child_target ?tr (ref_path (en_ref (se_entry src))) (ref_path (en_ref en)) c) = Inr k"
      "keyForRef env (child_target ?tr (ref_path (en_ref (se_entry src))) (ref_path (en_ref en)) d) = Inr k" for c d k
    using rest [OF that(1) bspec [OF own that(1)]] rest [OF that(2) bspec [OF own that(2)]] that(3,4) keyForRef_below [OF y(1)] by (metis same_append_eq)
  have dist: "distinct (map (entry_key env) ?cs)"
    unfolding entriesBelow_def by (rule distinct_map_filter [OF distinct_entry_keys [OF ok]])
  have all: "\<forall>c \<in> set ?cs. \<exists>k e. keyForRef env (child_target ?tr (ref_path (en_ref (se_entry src))) (ref_path (en_ref en)) c) = Inr k \<and>
      map_of (st_entries st') k = Some e \<and> same_node e c"
    by (rule conjunct1 [OF copy_children_effect [OF cc dist]]) (rule same_key, assumption+)
  have "\<exists>rest k e.
       ref_path (en_ref (se_entry c)) = ref_path (en_ref (se_entry src)) @ ''/'' @ rest \<and>
       keyForRef env \<lparr>ref_root = ?tr, ref_path = ref_path (en_ref en) @ ''/'' @ rest\<rparr> = Inr k \<and>
       map_of (st_entries st') k = Some e \<and> same_node e c" if c: "c \<in> set ?cs" for c
  proof -
    obtain r where r: "r \<noteq> []" "ref_path (en_ref (se_entry c)) = js_join ''/'' (res_segments x @ r)"
      "child_target ?tr (ref_path (en_ref (se_entry src))) (ref_path (en_ref en)) c =
        \<lparr>ref_root = ?tr, ref_path = js_join ''/'' (res_segments y @ r)\<rparr>" using rest [OF c bspec [OF own c]] by blast
    have "ref_path (en_ref (se_entry c)) = ref_path (en_ref (se_entry src)) @ ''/'' @ js_join ''/'' r"
      using r(2) js_join_append [OF sx(1) r(1)] sx(3) by simp
    moreover have "child_target ?tr (ref_path (en_ref (se_entry src))) (ref_path (en_ref en)) c =
        \<lparr>ref_root = ?tr, ref_path = ref_path (en_ref en) @ ''/'' @ js_join ''/'' r\<rparr>"
      using r(3) js_join_append [OF sy(1) r(1)] sy(3) by simp
    ultimately show ?thesis using bspec [OF all c] by auto
  qed
  with kt(4) show ?thesis by blast
qed

lemma copy_directory_copies_subtree_witness:
  "\<exists>en st' src. vfs_copy sample_env \<lparr>ref_root = ''projects'', ref_path = ''p''\<rparr>
       \<lparr>ref_root = ''projects'', ref_path = ''q''\<rparr> False sample_store = (Inr en, st') \<and>
     entryFor sample_env \<lparr>ref_root = ''projects'', ref_path = ''p''\<rparr> sample_store = Inr src \<and>
     en_type en = DirectoryEntry \<and> length (entriesBelow (se_entry src) sample_store) = 1"
proof -
  let ?s = "\<lparr>ref_root = ''projects'', ref_path = ''p''\<rparr>" and ?t = "\<lparr>ref_root = ''projects'', ref_path = ''q''\<rparr>"
  have "is_ok (fst (vfs_copy sample_env ?s ?t False sample_store))" by code_simp
  then obtain en st' where copy: "vfs_copy sample_env ?s ?t False sample_store = (Inr en, st')"
    by (cases "vfs_copy sample_env ?s ?t False sample_store") (auto simp: is_ok_def split: sum.splits)
  have facts: "case entryFor sample_env ?s sample_store of Inl _ \<Rightarrow> False | Inr src \<Rightarrow>
      en_type (se_entry src) = DirectoryEntry \<and> ref_root (en_ref (se_entry src)) = ''projects'' \<and>
      length (entriesBelow (se_entry src) sample_store) = 1 \<and>
      list_all (\<lambda>c. ref_root (en_ref (se_entry c)) = ''projects'') (entriesBelow (se_entry src) sample_store)"
    by code_simp
  then obtain src where src: "entryFor sample_env ?s sample_store = Inr src" by (auto split: sum.splits)
  with facts have f: "en_type (se_entry src) = DirectoryEntry" "ref_root (en_ref (se_entry src)) = ''projects''"
    "length (entriesBelow (se_entry src) sample_store) = 1"
    "\<forall>c \<in> set (entriesBelow (se_entry src) sample_store). ref_root (en_ref (se_entry c)) = ref_root (en_ref (se_entry src))"
    by (simp_all add: list_all_iff)
  have "case_fold sample_env (ref_root (en_ref (se_entry src))) = case_fold sample_env (ref_root ?t)" using f(2) by simp
  from copy_directory_copies_subtree [OF sample_store_ok copy src f(1,4) this] copy src f(3) show ?thesis by blast
qed

section \<open>Packages and cleanup\<close>

definition import_target :: "import_package_options \<Rightarrow> package_file_manifest \<Rightarrow> vfs_ref" where
  "import_target po f = \<lparr>ref_root = target_root po (pf_root f),
     ref_path = joinVfsPath [js_or_opt (po_pathPrefix po) [], pf_relativePath f]\<rparr>"

definition listed_and_intact :: "package_manifest \<Rightarrow> package_file_manifest \<times> byte list \<Rightarrow> bool" where
  "listed_and_intact m fc \<longleftrightarrow>
     list_ex (\<lambda>x. pf_relativePath x = pf_relativePath (fst fc) \<and> pf_fingerprint x = pf_fingerprint (fst fc)) (pk_files m) \<and>
     fingerprintContent (Bytes (snd fc)) = pf_fingerprint (fst fc)"

lemma import_files_Cons_Inr:
  assumes "import_files env m po ((f, c) # fs) st = (Inr rs, st')"
  shows "\<exists>w st1 r st2 rs'. writeEntry env (import_target po f) (Bytes c) (pf_contentType f) st = (Inr w, st1) \<and>
     st_entries st2 = st_entries st1 \<and> rs = r # rs' \<and> rr_fingerprint r = fingerprintContent (Bytes c) \<and>
     rr_path r = ref_path (en_ref w) \<and> rr_root r = target_root po (pf_root f) \<and>
     listed_and_intact m (f, c) \<and> import_files env m po fs st2 = (Inr rs', st')"
proof -
  have li: "listed_and_intact m (f, c)"
    using assms by (auto simp: listed_and_intact_def bridgeFail_def split: if_splits)
  obtain w st1 where w: "writeEntry env (import_target po f) (Bytes c) (pf_contentType f) st = (w, st1)"
    by fastforce
  note w' = w [unfolded import_target_def writeBytes_def [symmetric]]
  show ?thesis
  proof (cases w)
    case (Inr en)
    then obtain cat r rs' where "import_files env m po fs (st1\<lparr>st_catalog := cat\<rparr>) = (Inr rs', st')" "rs = r # rs'"
      "rr_fingerprint r = fingerprintContent (Bytes c)" "rr_path r = ref_path (en_ref en)"
      "rr_root r = target_root po (pf_root f)"
      using assms li w'
      by (auto simp: listed_and_intact_def Let_def createResourceRecord_def split: if_splits prod.splits sum.splits)
    moreover have "st_entries (st1\<lparr>st_catalog := cat\<rparr>) = st_entries st1" by simp
    ultimately show ?thesis using li w Inr by blast
  next
    case (Inl e)
    then show ?thesis using assms li w' by (auto simp: listed_and_intact_def Let_def)
  qed
qed

lemma import_files_verified:
  "import_files env m po fs st = (Inr rs, st') \<Longrightarrow>
     list_all (listed_and_intact m) fs \<and>
     map rr_fingerprint rs = map (\<lambda>(f, c). pf_fingerprint f) fs"
proof (induction fs arbitrary: st rs)
  case (Cons fc fs)
  obtain f c where fc: "fc = (f, c)" by (cases fc)
  obtain st2 r rs' where "listed_and_intact m (f, c)" "rs = r # rs'" "rr_fingerprint r = fingerprintContent (Bytes c)"
    "import_files env m po fs st2 = (Inr rs', st')"
    using import_files_Cons_Inr [OF Cons.prems [unfolded fc]] by blast
  with Cons.IH show ?case by (simp add: fc listed_and_intact_def)
qed simp

lemma import_files_stored:
  assumes "import_files env m po fs st = (Inr rs, st')"
    and "distinct (map (\<lambda>(f, c). keyForRef env (import_target po f)) fs)"
  shows "(\<forall>(f, c) \<in> set fs. \<exists>k e. keyForRef env (import_target po f) = Inr k \<and>
            map_of (st_entries st') k = Some e \<and> en_type (se_entry e) = FileEntry \<and>
            se_content e = Some (Bytes c)) \<and>
         (\<forall>j. Inr j \<notin> set (map (\<lambda>(f, c). keyForRef env (import_target po f)) fs) \<longrightarrow>
            map_of (st_entries st) j \<noteq> None \<longrightarrow> map_of (st_entries st') j = map_of (st_entries st) j)"
  using assms
proof (induction fs arbitrary: st rs)
  case (Cons fc fs)
  obtain f c where fc: "fc = (f, c)" by (cases fc)
  obtain w st1 st2 rs' where
    w: "writeEntry env (import_target po f) (Bytes c) (pf_contentType f) st = (Inr w, st1)"
    and st2: "st_entries st2 = st_entries st1" and rest: "import_files env m po fs st2 = (Inr rs', st')"
    using import_files_Cons_Inr [OF Cons.prems(1) [unfolded fc]] by blast
  from writeEntry_effect [OF w] obtain k where
    k: "keyForRef env (import_target po f) = Inr k"
      "map_of (st_entries st2) k = Some \<lparr>se_entry = w, se_content = Some (Bytes c)\<rparr>" "en_type w = FileEntry"
    and old: "\<And>j. j \<noteq> k \<Longrightarrow> map_of (st_entries st) j \<noteq> None \<Longrightarrow> map_of (st_entries st2) j = map_of (st_entries st) j"
    unfolding st2 by blast
  note IH = Cons.IH [OF rest]
  have d: "Inr k \<notin> set (map (\<lambda>(f, c). keyForRef env (import_target po f)) fs)"
    "distinct (map (\<lambda>(f, c). keyForRef env (import_target po f)) fs)"
    using Cons.prems(2) k(1) by (auto simp: fc)
  have head: "map_of (st_entries st') k = Some \<lparr>se_entry = w, se_content = Some (Bytes c)\<rparr>"
    using IH [OF d(2)] d(1) k(2) by auto
  have "map_of (st_entries st') j = map_of (st_entries st) j"
    if j: "Inr j \<notin> set (map (\<lambda>(f, c). keyForRef env (import_target po f)) (fc # fs))" "map_of (st_entries st) j \<noteq> None" for j
  proof -
    have "j \<noteq> k" using j(1) k(1) by (auto simp: fc)
    then show ?thesis using old [of j] j IH [OF d(2)] by simp
  qed
  then show ?case using IH [OF d(2)] k(1,3) head by (auto simp: fc)
qed simp

text \<open>
  (C7) A package is imported only when every file of it is listed in its manifest under the same
  relative path and fingerprint and its bytes hash to that fingerprint; the catalog records returned
  carry these fingerprints, in order. So a package in which one byte of one file was changed is refused.
\<close>

theorem importPackage_verifies:
  assumes "importPackage env pkg po st = (Inr rs, st')"
  shows "pk_schemaVersion (pkg_manifest pkg) = 1 \<and>
    list_all (listed_and_intact (pkg_manifest pkg)) (pkg_files pkg) \<and>
    map rr_fingerprint rs = map (\<lambda>(f, c). pf_fingerprint f) (pkg_files pkg) \<and>
    (\<forall>f xs b c ys. (f, xs @ b # ys) \<in> set (pkg_files pkg) \<longrightarrow> c \<noteq> b \<longrightarrow>
       (\<nexists>rs' st''. importPackage env' (pkg\<lparr>pkg_files := [(f, xs @ c # ys)]\<rparr>) po' st0 = (Inr rs', st'')))"
proof -
  have schema: "pk_schemaVersion (pkg_manifest pkg) = 1"
    and imp: "import_files env (pkg_manifest pkg) po (pkg_files pkg) st = (Inr rs, st')"
    using assms by (auto simp: importPackage_def bridgeFail_def split: if_splits)
  note v = import_files_verified [OF imp]
  have "\<nexists>rs' st''. importPackage env' (pkg\<lparr>pkg_files := [(f, xs @ c # ys)]\<rparr>) po' st0 = (Inr rs', st'')"
    if f: "(f, xs @ b # ys) \<in> set (pkg_files pkg)" "c \<noteq> b" for f xs b c ys
  proof clarify
    fix rs' st'' assume "importPackage env' (pkg\<lparr>pkg_files := [(f, xs @ c # ys)]\<rparr>) po' st0 = (Inr rs', st'')"
    then have "import_files env' (pkg_manifest pkg) po' [(f, xs @ c # ys)] st0 = (Inr rs', st'')"
      by (auto simp: importPackage_def bridgeFail_def simp del: import_files.simps split: if_splits)
    from import_files_verified [OF this] have "fingerprintContent (Bytes (xs @ c # ys)) = pf_fingerprint f"
      by (simp add: listed_and_intact_def)
    moreover have "fingerprintContent (Bytes (xs @ b # ys)) = pf_fingerprint f"
      using v f(1) by (auto simp: list_all_iff listed_and_intact_def)
    ultimately have "fingerprintContent (Bytes (xs @ c # ys)) = fingerprintContent (Bytes (xs @ b # ys))" by simp
    with f(2) show False by (simp add: fingerprint_eq_iff fnv1a_one_byte)
  qed
  with schema v show ?thesis by blast
qed

lemma fingerprint_empty: "fingerprintContent (Bytes []) = ''fnv1a32:811c9dc5''"
  by (simp add: fingerprintContent_def fnv1a_def to_hex.simps hex_lower_def pad_start_def)
    code_simp

definition into_tmp :: import_package_options where
  "into_tmp = \<lparr>po_targetRoot = Some ''tmp'', po_pathPrefix = Some ''in'', po_rootMap = [], po_origin = None\<rparr>"

definition sample_file :: package_file_manifest where
  "sample_file = \<lparr>pf_root = ''projects'', pf_path = ''p/e.bin'', pf_relativePath = ''p/e.bin'',
     pf_fingerprint = ''fnv1a32:811c9dc5'', pf_size = 0, pf_contentType = None, pf_resourceId = None,
     pf_parserVersions = None\<rparr>"

definition sample_package :: vfs_package where
  "sample_package = \<lparr>pkg_manifest = \<lparr>pk_schemaVersion = 1, pk_packageId = ''pkg'', pk_createdAtMs = 5,
     pk_files = [sample_file], pk_roots = [(''projects'', ''projects'')], pk_metadata = None\<rparr>,
     pkg_files = [(sample_file, [])]\<rparr>"

lemma sample_import:
  "\<exists>rs st'. importPackage sample_env sample_package into_tmp empty_vfs = (Inr rs, st')"
proof -
  let ?r = "\<lparr>ref_root = target_root into_tmp (pf_root sample_file),
     ref_path = joinVfsPath [js_or_opt (po_pathPrefix into_tmp) [], pf_relativePath sample_file]\<rparr>"
  have "is_ok (fst (writeBytes sample_env ?r [] (pf_contentType sample_file) empty_vfs))" by code_simp
  then obtain w st1 where "writeBytes sample_env ?r [] (pf_contentType sample_file) empty_vfs = (Inr w, st1)"
    by (cases "writeBytes sample_env ?r [] (pf_contentType sample_file) empty_vfs") (auto simp: is_ok_def split: sum.splits)
  moreover have fp: "pf_fingerprint sample_file = ''fnv1a32:811c9dc5''" by (simp add: sample_file_def)
  ultimately show ?thesis
    by (simp add: importPackage_def sample_package_def fingerprint_empty Let_def fp bridgeOk_def)
qed

theorem importPackage_verifies_witness:
  "\<exists>rs st'. importPackage sample_env sample_package into_tmp empty_vfs = (Inr rs, st') \<and> length rs = 1 \<and>
     list_all (listed_and_intact (pkg_manifest sample_package)) (pkg_files sample_package)"
proof -
  obtain rs st' where "importPackage sample_env sample_package into_tmp empty_vfs = (Inr rs, st')"
    using sample_import by blast
  moreover from importPackage_verifies [OF this] have "length rs = length (pkg_files sample_package)"
    by (metis length_map)
  ultimately show ?thesis
    using importPackage_verifies [of sample_env sample_package into_tmp empty_vfs rs st']
    by (auto simp: sample_package_def)
qed

definition file_bytes :: "vfs_env \<Rightarrow> vfs_ref \<Rightarrow> vfs_state \<Rightarrow> byte list option" where
  "file_bytes env ref st =
     Option.bind (stored_at env ref st)
       (\<lambda>e. if en_type (se_entry e) = FileEntry then Some (content_bytes (stored_content e)) else None)"

lemma readBytes_file_bytes:
  assumes "readBytes env ref st = Inr c"
  shows "file_bytes env ref st = Some c"
proof -
  from assms obtain e where e: "entryFor env ref st = Inr e" "en_type (se_entry e) = FileEntry"
    "c = content_bytes (stored_content e)"
    by (auto simp: readBytes_def bind_result_Inr stored_content_def text_encode_def split: if_splits option.splits)
  then show ?thesis by (auto simp: file_bytes_def stored_at_def elim!: entryFor_Inr)
qed

lemma file_bytes_own_ref:
  assumes "vfs_ok env st" "entryFor env ref st = Inr e"
  shows "file_bytes env (en_ref (se_entry e)) st = file_bytes env ref st"
proof -
  obtain k where "keyForRef env ref = Inr k" "map_of (st_entries st) k = Some e"
    using assms(2) by (rule entryFor_Inr)
  with entry_ok_keyForRef [OF vfs_ok_lookup [OF assms(1)]] show ?thesis by (simp add: file_bytes_def stored_at_def)
qed

definition exported_ok :: "vfs_env \<Rightarrow> vfs_state \<Rightarrow> package_file_manifest \<times> byte list \<Rightarrow> bool" where
  "exported_ok env st fc \<longleftrightarrow> pf_fingerprint (fst fc) = fingerprintContent (Bytes (snd fc)) \<and>
     file_bytes env \<lparr>ref_root = pf_root (fst fc), ref_path = pf_path (fst fc)\<rparr> st = Some (snd fc)"

lemma package_file_ok: "file_bytes env (en_ref en) st = Some c \<Longrightarrow> exported_ok env st (package_file en rel c)"
  by (cases "en_ref en") (simp add: exported_ok_def package_file_def)

lemma traverse_all:
  "traverse_result f xs = Inr ys \<Longrightarrow> y \<in> set ys \<Longrightarrow> \<exists>x \<in> set xs. f x = Inr y"
  by (induction xs arbitrary: ys) (auto simp: bind_result_Inr)

lemma export_ref_ok:
  assumes "vfs_ok env st" "export_ref env st ref = Inr fs" "fc \<in> set fs"
  shows "exported_ok env st fc"
proof -
  obtain e where e: "entryFor env ref st = Inr e"
    using assms(2) by (auto simp: export_ref_def vfs_stat_def bind_result_Inr)
  show ?thesis
  proof (cases "en_type (se_entry e) = DirectoryEntry")
    case True
    then obtain listed where
      "traverse_result (\<lambda>c. bind_result (readBytes env (en_ref c) st) (\<lambda>content.
          bridgeOk (package_file c (replacePrefix (ref_path (en_ref c)) (ref_path ref) (basename (ref_path ref))) content)))
        (filter (\<lambda>c. en_type c = FileEntry) listed) = Inr fs"
      using assms(2) e by (auto simp: export_ref_def vfs_stat_def bind_result_Inr)
    from traverse_all [OF this assms(3)] show ?thesis
      by (auto simp: bind_result_Inr intro!: package_file_ok dest!: readBytes_file_bytes)
  next
    case False
    then obtain c where "readBytes env ref st = Inr c" "fc = package_file (se_entry e) (basename (ref_path (en_ref (se_entry e)))) c"
      using assms(2,3) e by (auto simp: export_ref_def vfs_stat_def bind_result_Inr)
    then show ?thesis
      using file_bytes_own_ref [OF assms(1) e] by (auto intro!: package_file_ok dest!: readBytes_file_bytes)
  qed
qed

lemma exportPackage_facts:
  assumes "vfs_ok env st" "exportPackage env refs xo st = (Inr pkg, st1)"
  shows "pk_schemaVersion (pkg_manifest pkg) = 1" "pk_files (pkg_manifest pkg) = map fst (pkg_files pkg)"
    "list_all (exported_ok env st) (pkg_files pkg)"
proof -
  obtain gs where gs: "traverse_result (export_ref env st) refs = Inr gs" "pkg_files pkg = concat gs"
    and "pk_schemaVersion (pkg_manifest pkg) = 1" "pk_files (pkg_manifest pkg) = map fst (pkg_files pkg)"
    using assms(2) by (auto simp: exportPackage_def Let_def case_prod_beta split: sum.splits)
  then show "pk_schemaVersion (pkg_manifest pkg) = 1" "pk_files (pkg_manifest pkg) = map fst (pkg_files pkg)"
    by simp_all
  show "list_all (exported_ok env st) (pkg_files pkg)"
    using export_ref_ok [OF assms(1)] traverse_all [OF gs(1)] by (fastforce simp: gs(2) list_all_iff)
qed

text \<open>The errors a write can report.\<close>

definition write_error_codes :: "string list" where
  "write_error_codes = [''vfs.unknown_root'', ''vfs.immutable_root'', ''vfs.permission_denied'',
     ''vfs.file_too_large'', ''vfs.invalid_path'', ''vfs.extension_denied'']"

lemma permission_error: "assertVfsPermission roots r op p = Inl e \<Longrightarrow> err_code e \<in> set write_error_codes"
  by (auto simp: assertVfsPermission_def write_error_codes_def bridgeFail_def split: option.splits if_splits)

lemma validate_segments_error: "validate_segments ss = Inl e \<Longrightarrow> err_code e = ''vfs.invalid_path''"
  by (induction ss) (auto simp: bridgeFail_def split: option.splits sum.splits)

lemma resolve_error: "resolveVfsPath roots r p = Inl e \<Longrightarrow> err_code e \<in> set write_error_codes"
proof -
  have "normalizeVfsPath False p = Inl e \<Longrightarrow> err_code e = ''vfs.invalid_path''" for e
    by (auto simp: normalizeVfsPath_def bridgeFail_def split: if_splits dest: validate_segments_error)
  then show "resolveVfsPath roots r p = Inl e \<Longrightarrow> ?thesis"
    by (cases "normalizeVfsPath False p")
      (auto simp: resolveVfsPath_def write_error_codes_def bridgeFail_def Let_def split: option.splits if_splits)
qed

lemma size_error: "checkWriteSize env r c = Inl e \<Longrightarrow> err_code e \<in> set write_error_codes"
  by (auto simp: checkWriteSize_def write_error_codes_def bridgeFail_def Let_def split: option.splits if_splits)

lemma writeEntry_error: "writeEntry env ref c ct st = (Inl e, st') \<Longrightarrow> err_code e \<in> set write_error_codes"
  by (auto simp: writeEntry_def case_prod_beta permission_error resolve_error size_error Let_def split: sum.splits)

lemma import_files_error:
  assumes "import_files env m po fs st = (Inl e, st')" "list_all (listed_and_intact m) fs"
  shows "err_code e \<in> set write_error_codes"
  using assms
proof (induction fs arbitrary: st)
  case (Cons fc fs)
  obtain f c where fc: "fc = (f, c)" by (cases fc)
  obtain w st1 where w: "writeEntry env (import_target po f) (Bytes c) (pf_contentType f) st = (w, st1)" by fastforce
  note w' = w [unfolded import_target_def writeBytes_def [symmetric]]
  show ?case
  proof (cases w)
    case (Inl e')
    then show ?thesis using Cons.prems w w' writeEntry_error
      by (auto simp: fc listed_and_intact_def Let_def)
  next
    case (Inr en)
    then obtain cat where "import_files env m po fs (st1\<lparr>st_catalog := cat\<rparr>) = (Inl e, st')"
      using Cons.prems w' by (auto simp: fc listed_and_intact_def Let_def split: prod.splits sum.splits)
    with Cons.IH Cons.prems(2) show ?thesis by simp
  qed
qed simp

lemma exported_listed:
  assumes "list_all (exported_ok env st) fs" "pk_files m = map fst fs"
  shows "list_all (listed_and_intact m) fs"
  using assms by (auto simp: list_all_iff list_ex_iff listed_and_intact_def exported_ok_def)


definition plain_export :: export_options where
  "plain_export = \<lparr>xo_packageId = Some ''k'', xo_nowMs = Some 5, xo_metadata = None\<rparr>"

lemma sample_export:
  "\<exists>en st1. exportPackage sample_env [\<lparr>ref_root = ''projects'', ref_path = ''p/a.txt''\<rparr>] plain_export sample_store =
     (Inr \<lparr>pkg_manifest = \<lparr>pk_schemaVersion = 1, pk_packageId = ''k'', pk_createdAtMs = 5,
        pk_files = [fst (package_file en (basename (ref_path (en_ref en))) (text_encode ''hi''))],
        pk_roots = [(ref_root (en_ref en), ref_root (en_ref en))], pk_metadata = None\<rparr>,
        pkg_files = [package_file en (basename (ref_path (en_ref en))) (text_encode ''hi'')]\<rparr>, st1)"
proof -
  let ?a = "\<lparr>ref_root = ''projects'', ref_path = ''p/a.txt''\<rparr>"
  have "case vfs_stat sample_env ?a sample_store of Inl _ \<Rightarrow> False | Inr en \<Rightarrow> en_type en = FileEntry" by code_simp
  then obtain en where en: "vfs_stat sample_env ?a sample_store = Inr en" "en_type en = FileEntry"
    by (auto split: sum.splits)
  have bytes: "readBytes sample_env ?a sample_store = Inr (text_encode ''hi'')" by code_simp
  obtain root where "assertVfsPermission (env_roots sample_env) ''projects'' Op_package (env_policy sample_env) = Inr root"
    using sample_permission [of Op_package] by (auto simp: ALL_OPERATIONS_def)
  with en bytes show ?thesis
    by (auto simp: exportPackage_def export_ref_def plain_export_def js_or_def package_file_def Let_def bridgeOk_def)
qed


section \<open>Cleanup\<close>

abbreviation cleanup_due :: "vfs_env \<Rightarrow> cleanup_policy \<Rightarrow> int \<Rightarrow> stored_entry \<Rightarrow> bool" where
  "cleanup_due env cp now \<equiv>
     cleanup_selects env (case cp_roots cp of None \<Rightarrow> [''cache'', ''tmp''] | Some rs \<Rightarrow> rs) now
       (case cp_maxAgeMs cp of None \<Rightarrow> 0 | Some n \<Rightarrow> n)"

definition cleanup_now :: "vfs_env \<Rightarrow> cleanup_policy \<Rightarrow> vfs_state \<Rightarrow> int" where
  "cleanup_now env cp st = (case cp_nowMs cp of Some t \<Rightarrow> t | None \<Rightarrow> env_clock env (st_ticks st))"

lemma vfs_cleanup_Inr:
  assumes "vfs_cleanup env cp st = (Inr (removed, preserved), st')"
  defines "now \<equiv> cleanup_now env cp st"
  shows "removed = map se_entry (filter (cleanup_due env cp now) (js_values (st_entries st)))"
    "preserved = map se_entry (filter (\<lambda>e. \<not> cleanup_due env cp now e) (js_values (st_entries st)))"
    "st_entries st' = (if cp_dryRun cp then st_entries st
       else filter (\<lambda>(k, e). \<not> cleanup_due env cp now e) (st_entries st))"
    "st_catalog st' = st_catalog st"
proof -
  obtain ok where ok: "traverse_result (\<lambda>r. assertVfsPermission (env_roots env) r Op_cleanup (env_policy env))
      (case cp_roots cp of None \<Rightarrow> [''cache'', ''tmp''] | Some rs \<Rightarrow> rs) = Inr ok"
    using assms(1) unfolding vfs_cleanup_def Let_def by (auto split: sum.splits)
  note eq = assms(1) [unfolded vfs_cleanup_def Let_def ok sum.case]
  show "removed = map se_entry (filter (cleanup_due env cp now) (js_values (st_entries st)))"
    "preserved = map se_entry (filter (\<lambda>e. \<not> cleanup_due env cp now e) (js_values (st_entries st)))"
    "st_entries st' = (if cp_dryRun cp then st_entries st
       else filter (\<lambda>(k, e). \<not> cleanup_due env cp now e) (st_entries st))"
    "st_catalog st' = st_catalog st"
    using eq by (cases "cp_nowMs cp"; force simp: now_def cleanup_now_def)+
qed

lemma js_values_filter: "js_values (filter (\<lambda>(k, e). p e) m) = filter p (js_values m)"
  by (induction m) (auto simp: js_values_def)

text \<open>
  \<open>cleanup\<close> reports a partition of the entries. What it removes lies in a requested root whose
  cleanup class is \<open>cache\<close> or \<open>tmp\<close> and is at least \<open>maxAgeMs\<close> old; everything else stays. A dry run
  removes nothing, and the catalog is untouched.
\<close>

lemma cleanup_partition:
  assumes "vfs_cleanup env cp st = (Inr (removed, preserved), st')"
  shows "mset removed + mset preserved = mset (map se_entry (js_values (st_entries st))) \<and>
    st_catalog st' = st_catalog st \<and>
    (\<forall>en \<in> set removed. \<exists>root. map_of (env_roots env) (ref_root (en_ref en)) = Some root \<and>
       root_cleanup root \<in> {Some CleanupCache, Some CleanupTmp} \<and>
       ref_root (en_ref en) \<in> set (case cp_roots cp of None \<Rightarrow> [''cache'', ''tmp''] | Some rs \<Rightarrow> rs) \<and>
       (\<forall>age now. cp_maxAgeMs cp = Some age \<longrightarrow> 0 < age \<longrightarrow> cp_nowMs cp = Some now \<longrightarrow>
          en_updatedAtMs en \<le> now - age)) \<and>
    map se_entry (js_values (st_entries st')) =
      (if cp_dryRun cp then map se_entry (js_values (st_entries st)) else preserved)"
proof -
  define now where "now = cleanup_now env cp st"
  note n = vfs_cleanup_Inr [OF assms, folded now_def]
  let ?V = "js_values (st_entries st)"
  have "mset (map se_entry (filter p ?V)) + mset (map se_entry (filter (\<lambda>e. \<not> p e) ?V)) = mset (map se_entry ?V)" for p
    using multiset_partition [of "mset ?V" p] by (simp flip: image_mset_union)
  then have part: "mset removed + mset preserved = mset (map se_entry ?V)" unfolding n(1,2) .
  have vals: "map se_entry (js_values (st_entries st')) = (if cp_dryRun cp then map se_entry ?V else preserved)"
    unfolding n(2,3) by (simp add: js_values_filter)
  have "\<exists>root. map_of (env_roots env) (ref_root (en_ref en)) = Some root \<and>
       root_cleanup root \<in> {Some CleanupCache, Some CleanupTmp} \<and>
       ref_root (en_ref en) \<in> set (case cp_roots cp of None \<Rightarrow> [''cache'', ''tmp''] | Some rs \<Rightarrow> rs) \<and>
       (\<forall>age now. cp_maxAgeMs cp = Some age \<longrightarrow> 0 < age \<longrightarrow> cp_nowMs cp = Some now \<longrightarrow>
          en_updatedAtMs en \<le> now - age)" if en: "en \<in> set removed" for en
    using en unfolding n(1) now_def by (auto simp: cleanup_selects_def cleanup_now_def Let_def bind_eq_Some_conv)
  with part vals n(4) show ?thesis by blast
qed

lemma cleanup_partition_witness:
  "\<exists>removed preserved st'. vfs_cleanup sample_env \<lparr>cp_roots = None, cp_nowMs = Some 5000, cp_maxAgeMs = Some 10, cp_dryRun = False\<rparr>
       sample_store = (Inr (removed, preserved), st') \<and>
     map se_entry (js_values (st_entries st')) = preserved"
proof -
  let ?cp = "\<lparr>cp_roots = None, cp_nowMs = Some 5000, cp_maxAgeMs = Some 10, cp_dryRun = False\<rparr>"
  have "is_ok (fst (vfs_cleanup sample_env ?cp sample_store))" by code_simp
  then obtain removed preserved st' where "vfs_cleanup sample_env ?cp sample_store = (Inr (removed, preserved), st')"
    by (cases "vfs_cleanup sample_env ?cp sample_store") (auto simp: is_ok_def split: sum.splits)
  with cleanup_partition [OF this] show ?thesis by auto
qed

section \<open>Moving a file onto itself\<close>

text \<open>
  (C33) \<open>move\<close> copies and then deletes the source. When source and target name the same key (the same path,
  or two spellings of it in a case-insensitive root) and \<open>overwrite\<close> is set, the call reports success
  and the file is gone.
\<close>

theorem move_onto_itself_loses_file:
  assumes "keyForRef env target = keyForRef env source" and "vfs_move env source target True st = (Inr en, st')"
    and "entryFor env source st = Inr src" "en_type (se_entry src) = FileEntry"
  shows "vfs_exists env source st' = Inr False"
proof -
  obtain k where k: "keyForRef env source = Inr k" using assms(3) by (rule entryFor_Inr)
  from assms(2) obtain st1 where copy: "vfs_copy env source target True st = (Inr en, st1)"
    and del: "fst (vfs_delete env source True st1) = Inr ()" "st_entries st' = st_entries (snd (vfs_delete env source True st1))"
    by (auto simp: vfs_move_def split: sum.splits prod.splits if_splits)
  have "writeEntry env target (stored_content src) (en_contentType (se_entry src)) st = (Inr en, st1)"
    using copy assms(3,4) by (auto simp: vfs_copy_def cloneStoredEntry_def split: sum.splits)
  from writeEntry_effect [OF this] obtain e where "map_of (st_entries st1) k = Some e" "en_type (se_entry e) = FileEntry"
    using assms(1) k by auto
  then have "st_entries st' = AList.delete k (st_entries st1)"
    using del k by (auto simp: vfs_delete_def split: sum.splits)
  then show ?thesis by (simp add: vfs_exists_def k delete_conv' bridgeOk_def)
qed

theorem move_onto_itself_loses_file_witness:
  "\<exists>en st'. vfs_move sample_env \<lparr>ref_root = ''projects'', ref_path = ''p/a.txt''\<rparr>
       \<lparr>ref_root = ''projects'', ref_path = ''P/A.txt''\<rparr> True sample_store = (Inr en, st') \<and>
     vfs_exists sample_env \<lparr>ref_root = ''projects'', ref_path = ''p/a.txt''\<rparr> st' = Inr False"
proof -
  let ?s = "\<lparr>ref_root = ''projects'', ref_path = ''p/a.txt''\<rparr>" and ?t = "\<lparr>ref_root = ''projects'', ref_path = ''P/A.txt''\<rparr>"
  have k: "keyForRef sample_env ?t = keyForRef sample_env ?s" by code_simp
  have "is_ok (fst (vfs_move sample_env ?s ?t True sample_store))" by code_simp
  then obtain en st' where m: "vfs_move sample_env ?s ?t True sample_store = (Inr en, st')"
    by (cases "vfs_move sample_env ?s ?t True sample_store") (auto simp: is_ok_def split: sum.splits)
  have "case entryFor sample_env ?s sample_store of Inl _ \<Rightarrow> False | Inr e \<Rightarrow> en_type (se_entry e) = FileEntry" by code_simp
  then obtain src where "entryFor sample_env ?s sample_store = Inr src" "en_type (se_entry src) = FileEntry"
    by (auto split: sum.splits)
  from move_onto_itself_loses_file [OF k m this] m show ?thesis by blast
qed

end
