(* ===== verification/Statlog.thy ===== *)
theory Statlog
  imports Vfs_Paths "HOL-Library.Multiset"
begin

text \<open>
  \<open>packages/desktop-foundation/src/statlog.ts\<close> with \<open>redactSecrets\<close> of \<open>logger.ts\<close>: the telemetry
  client. A flush is split where the code awaits the transport: \<open>flush_begin\<close> runs up to the request and
  leaves it in the list of requests in flight, \<open>flush_end\<close> runs with the response, so that other calls
  can happen in between as they do in the program. Clock, id generator and the failures of the queue
  storage are functions of the number of readings, ids and storage operations so far. A number option
  is a decimal \<open>(m, e)\<close> as in \<open>js_number\<close>.
\<close>

section \<open>Names, values and options\<close>

type_synonym decimal = "int \<times> int"

definition DEFAULT_FLUSH_INTERVAL_MS :: int where "DEFAULT_FLUSH_INTERVAL_MS = 5000"
definition DEFAULT_BATCH_SIZE :: int where "DEFAULT_BATCH_SIZE = 20"
definition DEFAULT_QUEUE_LIMIT :: int where "DEFAULT_QUEUE_LIMIT = 1000"
definition DEFAULT_TIMEOUT_MS :: int where "DEFAULT_TIMEOUT_MS = 8000"
definition DEFAULT_RETRY_BASE_MS :: int where "DEFAULT_RETRY_BASE_MS = 1000"
definition DEFAULT_MAX_RETRY_MS :: int where "DEFAULT_MAX_RETRY_MS = 30000"

definition name_char :: "char \<Rightarrow> bool" where
  "name_char c \<longleftrightarrow> js_is_alpha c \<or> js_is_digit c \<or> c \<in> set ''_.:-''"

definition safe_name :: "nat \<Rightarrow> string \<Rightarrow> bool" where
  \<comment> \<open>\<open>/^[a-zA-Z][a-zA-Z0-9_.:-]{0,n}$/\<close>\<close>
  "safe_name n s = (case s of [] \<Rightarrow> False | c # cs \<Rightarrow> js_is_alpha c \<and> length cs \<le> n \<and> list_all name_char cs)"

definition isSafeStatLogName :: "string \<Rightarrow> bool" where "isSafeStatLogName = safe_name 127"
definition isSafeStatLogKey :: "string \<Rightarrow> bool" where "isSafeStatLogKey = safe_name 63"

definition normalizePositiveInteger :: "decimal option \<Rightarrow> int \<Rightarrow> int" where
  "normalizePositiveInteger v fallback =
     (case Option.bind v decimal_integer of
        Some n \<Rightarrow> if n > 0 then n else fallback
      | None \<Rightarrow> fallback)"

definition normalizeBoolean :: "bool option \<Rightarrow> bool \<Rightarrow> bool" where
  "normalizeBoolean v fallback = (case v of Some b \<Rightarrow> b | None \<Rightarrow> fallback)"

datatype statlog_value =
    SUndefined | SNull | SStr string | SNum int | SBool bool | SBigInt int
  | SDate "string option"  \<comment> \<open>the ISO text; \<open>None\<close> is an invalid date, whose \<open>toISOString\<close> throws\<close>

type_synonym statlog_properties = "statlog_value js_map"

definition int_text :: "int \<Rightarrow> string" where
  "int_text n = (if n < 0 then ''-'' @ digits_of_nat (nat (- n)) else digits_of_nat (nat n))"

fun valueToString :: "statlog_value \<Rightarrow> string + string" where
  "valueToString (SStr s) = Inr s"
| "valueToString (SNum n) = Inr (int_text n)"
| "valueToString (SBigInt n) = Inr (int_text n)"
| "valueToString (SBool b) = Inr (if b then ''true'' else ''false'')"
| "valueToString (SDate (Some txt)) = Inr txt"
| "valueToString (SDate None) = Inl ''RangeError: Invalid time value''"
| "valueToString SNull = Inr ''null''"
| "valueToString SUndefined = Inr ''undefined''"

fun objectToStatLogKV :: "statlog_properties \<Rightarrow> string + (string \<times> string) list" where
  \<comment> \<open>\<open>Inl\<close>: \<open>String\<close> of the error it throws\<close>
  "objectToStatLogKV [] = Inr []"
| "objectToStatLogKV ((key, v) # rest) =
     (if v = SUndefined \<or> v = SNull then objectToStatLogKV rest
      else if \<not> isSafeStatLogKey key then Inl (''Error: Unsafe StatLog key: '' @ key)
      else bind_result (valueToString v) (\<lambda>s.
             bind_result (objectToStatLogKV rest) (\<lambda>kvs. Inr ((key, s) # kvs))))"

definition spread :: "'v js_map \<Rightarrow> 'v js_map \<Rightarrow> 'v js_map" where
  \<comment> \<open>\<open>{ ...a, ...b }\<close>\<close>
  "spread a b = fold (\<lambda>(k, v). AList.update k v) b a"

definition resolveStatLogCapabilitiesEndpoint :: "string \<Rightarrow> string" where
  "resolveStatLogCapabilitiesEndpoint endpoint =
     (let trimmed = js_strip_end (\<lambda>c. c = CHR ''/'') endpoint in
      if suffix ''/v1/statlog/report'' trimmed
      then take (length trimmed - length ''/report'') trimmed @ ''/capabilities''
      else trimmed @ ''/capabilities'')"

fun redactSecrets :: "js_value \<Rightarrow> js_value" where
  "redactSecrets (JArr vs) = JArr (map redactSecrets vs)"
| "redactSecrets (JObj kvs) =
     JObj (map (\<lambda>kv. (fst kv, if secret_key (fst kv) then redacted else redactSecrets (snd kv))) kvs)"
| "redactSecrets (JStr s) = (if length s > 64 \<and> token_run 0 s then redacted else JStr s)"
| "redactSecrets v = v"

section \<open>Configuration layers\<close>

datatype cfg_value = CUndefined | CStr string | CNum decimal | CBool bool

type_synonym cfg_layer = "cfg_value js_map"

definition numberFromUnknown :: "cfg_value \<Rightarrow> cfg_value" where
  "numberFromUnknown v =
     (case v of
        CNum d \<Rightarrow> CNum d
      | CStr s \<Rightarrow> (if js_trim s \<noteq> [] then case js_number s of Some d \<Rightarrow> CNum d | None \<Rightarrow> CUndefined
                   else CUndefined)
      | _ \<Rightarrow> CUndefined)"

definition booleanFromUnknown :: "cfg_value \<Rightarrow> cfg_value" where
  "booleanFromUnknown v =
     (case v of
        CBool b \<Rightarrow> CBool b
      | CStr s \<Rightarrow>
         (let n = js_lower (js_trim s) in
          if n \<in> set [''1'', ''true'', ''yes'', ''on''] then CBool True
          else if n \<in> set [''0'', ''false'', ''no'', ''off''] then CBool False else CUndefined)
      | _ \<Rightarrow> CUndefined)"

definition cfg_get :: "cfg_layer \<Rightarrow> string \<Rightarrow> cfg_value" where
  "cfg_get layer k = (case map_of layer k of None \<Rightarrow> CUndefined | Some v \<Rightarrow> v)"

fun launchArg :: "cfg_layer \<Rightarrow> string list \<Rightarrow> cfg_value" where
  "launchArg args [] = CUndefined"
| "launchArg args (k # ks) = (if cfg_get args k \<noteq> CUndefined then cfg_get args k else launchArg args ks)"

definition configFromLaunchArgs :: "cfg_layer \<Rightarrow> cfg_layer" where
  "configFromLaunchArgs args =
     [(''endpoint'', launchArg args [''statlogEndpoint'', ''statlog-endpoint'']),
      (''capabilitiesEndpoint'',
         launchArg args [''statlogCapabilitiesEndpoint'', ''statlog-capabilities-endpoint'']),
      (''projectKey'', launchArg args [''statlogProjectKey'', ''statlog-project-key'']),
      (''appId'', launchArg args [''statlogAppId'', ''statlog-app-id'']),
      (''ingestToken'', launchArg args [''statlogIngestToken'', ''statlog-ingest-token'']),
      (''platform'', launchArg args [''statlogPlatform'', ''statlog-platform'']),
      (''reporter'', launchArg args [''statlogReporter'', ''statlog-reporter'']),
      (''projectId'', numberFromUnknown (launchArg args [''statlogProjectId'', ''statlog-project-id''])),
      (''batchSize'', numberFromUnknown (launchArg args [''statlogBatchSize'', ''statlog-batch-size''])),
      (''queueLimit'', numberFromUnknown (launchArg args [''statlogQueueLimit'', ''statlog-queue-limit''])),
      (''flushIntervalMs'',
         numberFromUnknown (launchArg args [''statlogFlushIntervalMs'', ''statlog-flush-interval-ms''])),
      (''timeoutMs'', numberFromUnknown (launchArg args [''statlogTimeoutMs'', ''statlog-timeout-ms''])),
      (''telemetryEnabled'',
         booleanFromUnknown (launchArg args [''statlogTelemetryEnabled'', ''statlog-telemetry-enabled''])),
      (''optOut'', booleanFromUnknown (launchArg args [''statlogOptOut'', ''statlog-opt-out'']))]"

definition withoutUndefined :: "cfg_layer option \<Rightarrow> cfg_layer" where
  "withoutUndefined values =
     (case values of None \<Rightarrow> [] | Some l \<Rightarrow> filter (\<lambda>(k, v). v \<noteq> CUndefined) l)"

definition markProvenance ::
  "string \<Rightarrow> cfg_layer option \<Rightarrow> string js_map \<Rightarrow> string js_map" where
  "markProvenance source values provenance =
     fold (\<lambda>k. AList.update k source) (map fst (withoutUndefined values)) provenance"

record config_input =
  ci_environment :: string
  ci_appId :: string
  ci_defaults :: "cfg_layer option"
  ci_environments :: "cfg_layer js_map option"
  ci_telemetrySetting :: "bool option"
  ci_launchArgs :: "cfg_layer option"
  ci_secretToken :: "string option"
  ci_overrides :: "cfg_layer option"

definition config_layers :: "config_input \<Rightarrow> (string \<times> cfg_layer option) list" where
  "config_layers i =
     [(''default'', ci_defaults i),
      (''environment:'' @ ci_environment i,
         Option.bind (ci_environments i) (\<lambda>m. map_of m (ci_environment i))),
      (''setting'', Some (case ci_telemetrySetting i of None \<Rightarrow> [] | Some b \<Rightarrow> [(''telemetryEnabled'', CBool b)])),
      (''launch-arg'', Some (configFromLaunchArgs (case ci_launchArgs i of None \<Rightarrow> [] | Some a \<Rightarrow> a))),
      (''secret'', Some (case ci_secretToken i of None \<Rightarrow> [] | Some t \<Rightarrow> [(''ingestToken'', CStr t)])),
      (''override'', ci_overrides i)]"

definition cfg_truthy :: "cfg_value \<Rightarrow> bool" where
  "cfg_truthy v =
     (case v of CUndefined \<Rightarrow> False | CStr s \<Rightarrow> s \<noteq> [] | CNum (m, e) \<Rightarrow> m \<noteq> 0 | CBool b \<Rightarrow> b)"

definition config_values :: "config_input \<Rightarrow> cfg_layer" where
  "config_values i = fold (\<lambda>(s, l) acc. spread acc (withoutUndefined l)) (config_layers i) []"

definition OPTION_KEYS :: "string list" where
  "OPTION_KEYS = [''capabilitiesEndpoint'', ''projectId'', ''projectKey'', ''ingestToken'', ''platform'',
     ''reporter'', ''batchSize'', ''queueLimit'', ''flushIntervalMs'', ''timeoutMs'', ''retryBaseMs'',
     ''maxRetryMs'', ''telemetryEnabled'', ''optOut'']"

record resolved_config =
  rc_options :: cfg_layer
  rc_environment :: string
  rc_provenance :: "string js_map"

definition resolveStatLogConfig :: "config_input \<Rightarrow> resolved_config" where
  "resolveStatLogConfig i =
     (let values = config_values i;
          marked = fold (\<lambda>(s, l). markProvenance s l) (config_layers i) [];
          appId = cfg_get values ''appId''
      in \<lparr>rc_options =
            (''endpoint'', if cfg_truthy (cfg_get values ''endpoint'') then cfg_get values ''endpoint'' else CStr []) #
            (''appId'', if cfg_truthy appId then appId else CStr (ci_appId i)) #
            map (\<lambda>k. (k, cfg_get values k)) OPTION_KEYS,
          rc_environment = ci_environment i,
          rc_provenance = (if cfg_truthy appId then marked
                           else AList.update ''appId'' ''input:appId'' marked)\<rparr>)"

section \<open>The client\<close>

record queued_event =
  ev_event_id :: string
  ev_project_id :: int
  ev_project_key :: string
  ev_app_id :: string
  ev_platform :: string
  ev_sdk_name :: string
  ev_sdk_version :: string
  ev_event_name :: string
  ev_event_time_ms :: int
  ev_uid :: int
  ev_device_id :: string
  ev_session_id :: string
  ev_scene :: string
  ev_scene_id :: string
  ev_trace_id :: string
  ev_request_id :: string
  ev_subject_ids :: "(string \<times> string) list"
  ev_properties :: "(string \<times> string) list"
  ev_context :: "(string \<times> string) list"
  ev_reporter :: string

record ingest_batch =
  ba_batch_id :: string
  ba_project_id :: int
  ba_project_key :: string
  ba_app_id :: string
  ba_source :: string
  ba_received_time_ms :: int
  ba_events :: "(queued_event \<times> string) list"  \<comment> \<open>each event with its \<open>ingest_token\<close>\<close>

record client_options =
  co_endpoint :: string
  co_capabilitiesEndpoint :: "string option"
  co_projectId :: "int option"
  co_projectKey :: "string option"
  co_appId :: string
  co_ingestToken :: "string option"
  co_platform :: "string option"
  co_reporter :: "string option"
  co_batchSize :: "decimal option"
  co_queueLimit :: "decimal option"
  co_flushIntervalMs :: "decimal option"
  co_timeoutMs :: "decimal option"
  co_retryBaseMs :: "decimal option"
  co_maxRetryMs :: "decimal option"
  co_telemetryEnabled :: "bool option"
  co_optOut :: "bool option"
  co_uid :: "int option"
  co_deviceId :: "string option"
  co_sessionId :: "string option"
  co_subjectIds :: "statlog_properties option"
  co_context :: "statlog_properties option"
  co_storage :: "queued_event list option"  \<comment> \<open>\<open>None\<close>: no queue storage; else what it holds\<close>

record statlog_env =
  se_clock :: "nat \<Rightarrow> int"
  se_ids :: "string \<Rightarrow> nat \<Rightarrow> string"
  se_storageFails :: "nat \<Rightarrow> string option"  \<comment> \<open>the text of what the n-th storage operation throws\<close>

record statlog_client =
  cl_endpoint :: string
  cl_capabilitiesEndpoint :: string
  cl_projectId :: int
  cl_projectKey :: string
  cl_appId :: string
  cl_ingestToken :: string
  cl_platform :: string
  cl_reporter :: string
  cl_batchSize :: int
  cl_queueLimit :: int
  cl_flushIntervalMs :: int
  cl_timeoutMs :: int
  cl_retryBaseMs :: int
  cl_maxRetryMs :: int
  cl_queue :: "queued_event list"
  cl_contextProps :: statlog_properties
  cl_subjectIds :: statlog_properties
  cl_uid :: int
  cl_deviceId :: string
  cl_sessionId :: string
  cl_telemetryEnabled :: bool
  cl_optedOut :: bool
  cl_timer :: bool
  cl_dropped :: int
  cl_retryAttempt :: nat
  cl_nextRetryAtMs :: int
  cl_lastErrorCode :: string
  cl_stored :: "queued_event list option"
  cl_ticks :: nat
  cl_idCount :: nat
  cl_storageOps :: nat
  cl_diagnostics :: "(string \<times> string \<times> js_value) list"
  cl_inFlight :: "ingest_batch list"

definition read_clock :: "statlog_env \<Rightarrow> statlog_client \<Rightarrow> int \<times> statlog_client" where
  "read_clock env c = (se_clock env (cl_ticks c), c\<lparr>cl_ticks := Suc (cl_ticks c)\<rparr>)"

definition new_id :: "statlog_env \<Rightarrow> string \<Rightarrow> statlog_client \<Rightarrow> string \<times> statlog_client" where
  "new_id env pre c = (se_ids env pre (cl_idCount c), c\<lparr>cl_idCount := Suc (cl_idCount c)\<rparr>)"

definition int_or :: "int option \<Rightarrow> int \<Rightarrow> int" where
  \<comment> \<open>\<open>value || fallback\<close>\<close>
  "int_or v d = (case v of None \<Rightarrow> d | Some n \<Rightarrow> if n = 0 then d else n)"

definition id_or ::
  "statlog_env \<Rightarrow> string \<Rightarrow> string option \<Rightarrow> statlog_client \<Rightarrow> string \<times> statlog_client" where
  "id_or env pre v c = (case v of Some s \<Rightarrow> if s = [] then new_id env pre c else (s, c) | None \<Rightarrow> new_id env pre c)"

definition initial_client :: "client_options \<Rightarrow> statlog_client" where
  \<comment> \<open>the fields of a new client before the device and session ids\<close>
  "initial_client o1 =
     \<lparr>cl_endpoint = co_endpoint o1,
      cl_capabilitiesEndpoint = js_or_opt (co_capabilitiesEndpoint o1)
         (resolveStatLogCapabilitiesEndpoint (co_endpoint o1)),
      cl_projectId = int_or (co_projectId o1) 0, cl_projectKey = js_or_opt (co_projectKey o1) [],
      cl_appId = co_appId o1, cl_ingestToken = js_or_opt (co_ingestToken o1) [],
      cl_platform = js_or_opt (co_platform o1) ''desktop'',
      cl_reporter = js_or_opt (co_reporter o1) ''desktop'',
      cl_batchSize = normalizePositiveInteger (co_batchSize o1) DEFAULT_BATCH_SIZE,
      cl_queueLimit = normalizePositiveInteger (co_queueLimit o1) DEFAULT_QUEUE_LIMIT,
      cl_flushIntervalMs =
        (if Option.bind (co_flushIntervalMs o1) decimal_integer = Some 0 then 0
         else normalizePositiveInteger (co_flushIntervalMs o1) DEFAULT_FLUSH_INTERVAL_MS),
      cl_timeoutMs = normalizePositiveInteger (co_timeoutMs o1) DEFAULT_TIMEOUT_MS,
      cl_retryBaseMs = normalizePositiveInteger (co_retryBaseMs o1) DEFAULT_RETRY_BASE_MS,
      cl_maxRetryMs = normalizePositiveInteger (co_maxRetryMs o1) DEFAULT_MAX_RETRY_MS,
      cl_queue = [], cl_contextProps = (case co_context o1 of None \<Rightarrow> [] | Some p \<Rightarrow> p),
      cl_subjectIds = (case co_subjectIds o1 of None \<Rightarrow> [] | Some p \<Rightarrow> p),
      cl_uid = int_or (co_uid o1) 0, cl_deviceId = [], cl_sessionId = [],
      cl_telemetryEnabled = normalizeBoolean (co_telemetryEnabled o1) False,
      cl_optedOut = (co_optOut o1 = Some True), cl_timer = False, cl_dropped = 0,
      cl_retryAttempt = 0, cl_nextRetryAtMs = 0, cl_lastErrorCode = [], cl_stored = co_storage o1,
      cl_ticks = 0, cl_idCount = 0, cl_storageOps = 0, cl_diagnostics = [], cl_inFlight = []\<rparr>"

definition StatLogClient :: "statlog_env \<Rightarrow> client_options \<Rightarrow> string + statlog_client" where
  "StatLogClient env o1 =
     (if co_appId o1 = [] then Inl ''StatLog appId is required''
      else
       (let (device, c1) = id_or env ''device'' (co_deviceId o1) (initial_client o1);
            (session, c2) = id_or env ''session'' (co_sessionId o1) c1
        in Inr (c2\<lparr>cl_deviceId := device, cl_sessionId := session\<rparr>)))"

definition emitDiagnostic :: "string \<Rightarrow> string \<Rightarrow> js_value \<Rightarrow> statlog_client \<Rightarrow> statlog_client" where
  "emitDiagnostic level msg ctx c =
     c\<lparr>cl_diagnostics := cl_diagnostics c @ [(level, msg, redactSecrets ctx)]\<rparr>"

definition canCollect :: "statlog_client \<Rightarrow> bool" where
  "canCollect c \<longleftrightarrow> cl_telemetryEnabled c \<and> \<not> cl_optedOut c"

definition storage_op ::
  "statlog_env \<Rightarrow> string \<Rightarrow> (queued_event list \<Rightarrow> statlog_client \<Rightarrow> statlog_client) \<Rightarrow>
     statlog_client \<Rightarrow> statlog_client" where
  \<comment> \<open>one operation on the queue storage inside \<open>try\<close>: skipped without storage, a diagnostic when it throws\<close>
  "storage_op env failed f c =
     (case cl_stored c of
        None \<Rightarrow> c
      | Some held \<Rightarrow>
         (let c1 = c\<lparr>cl_storageOps := Suc (cl_storageOps c)\<rparr> in
          case se_storageFails env (cl_storageOps c) of
            None \<Rightarrow> f held c1
          | Some err \<Rightarrow> emitDiagnostic ''warn'' failed (JObj [(''error'', JStr err)]) c1))"

definition clearQueue :: "statlog_env \<Rightarrow> statlog_client \<Rightarrow> statlog_client" where
  "clearQueue env c =
     storage_op env ''Unable to clear StatLog queue.'' (\<lambda>_ c. c\<lparr>cl_stored := Some []\<rparr>)
       (c\<lparr>cl_queue := [], cl_nextRetryAtMs := 0, cl_lastErrorCode := []\<rparr>)"

definition persistQueue :: "statlog_env \<Rightarrow> statlog_client \<Rightarrow> statlog_client" where
  "persistQueue env c =
     storage_op env ''Unable to persist StatLog queue.'' (\<lambda>_ c. c\<lparr>cl_stored := Some (cl_queue c)\<rparr>) c"

definition clampQueue :: "queued_event list \<Rightarrow> statlog_client \<Rightarrow> queued_event list \<times> statlog_client" where
  "clampQueue events c =
     (if int (length events) \<le> cl_queueLimit c then (events, c)
      else (drop (nat (int (length events) - cl_queueLimit c)) events,
            c\<lparr>cl_dropped := cl_dropped c + (int (length events) - cl_queueLimit c)\<rparr>))"

definition clampQueueInPlace :: "statlog_client \<Rightarrow> statlog_client" where
  "clampQueueInPlace c = (let (clamped, c1) = clampQueue (cl_queue c) c in c1\<lparr>cl_queue := clamped\<rparr>)"

definition scheduleRetry :: "statlog_env \<Rightarrow> string \<Rightarrow> statlog_client \<Rightarrow> statlog_client" where
  "scheduleRetry env code c =
     (let delay = min (cl_retryBaseMs c * 2 ^ cl_retryAttempt c) (cl_maxRetryMs c);
          (now, c1) = read_clock env c
      in c1\<lparr>cl_retryAttempt := Suc (cl_retryAttempt c), cl_nextRetryAtMs := now + delay,
            cl_lastErrorCode := code\<rparr>)"

datatype flush_result =
    FlushOk int int int                           \<comment> \<open>accepted, rejected, status\<close>
  | FlushFailure int string string js_value       \<comment> \<open>status, code, message, details\<close>

definition flushFailure ::
  "int \<Rightarrow> string \<Rightarrow> string \<Rightarrow> js_value \<Rightarrow> statlog_client \<Rightarrow> flush_result \<times> statlog_client" where
  "flushFailure status code msg details c =
     (FlushFailure status code msg details,
      emitDiagnostic (if status = 429 then ''warn'' else ''error'') msg
        (JObj [(''code'', JStr code), (''status'', JNum status), (''details'', details)]) c)"

definition buildBatch ::
  "statlog_env \<Rightarrow> queued_event list \<Rightarrow> statlog_client \<Rightarrow> ingest_batch \<times> statlog_client" where
  "buildBatch env events c =
     (let (bid, c1) = new_id env ''batch'' c; (now, c2) = read_clock env c1
      in (\<lparr>ba_batch_id = bid, ba_project_id = cl_projectId c, ba_project_key = cl_projectKey c,
           ba_app_id = cl_appId c, ba_source = cl_reporter c, ba_received_time_ms = now,
           ba_events = map (\<lambda>e. (e, cl_ingestToken c)) events\<rparr>, c2))"

definition flush_begin ::
  "statlog_env \<Rightarrow> bool \<Rightarrow> statlog_client \<Rightarrow> (flush_result + ingest_batch) \<times> statlog_client" where
  \<comment> \<open>\<open>flush\<close> up to the transport call: \<open>Inl\<close> when it returns before it\<close>
  "flush_begin env automatic c =
     (if \<not> canCollect c then (Inl (FlushOk 0 0 0), clearQueue env c)
      else if cl_queue c = [] then (Inl (FlushOk 0 0 0), c)
      else
       (let (early, c1) = (if automatic then
                             (let (now, c') = read_clock env c in (cl_nextRetryAtMs c > now, c'))
                           else (False, c))
        in if early then
             (let (r, c2) = flushFailure 0 ''statlog.retry_backoff'' ''StatLog retry backoff is active.'' JUndefined c1
              in (Inl r, c2))
           else if cl_endpoint c1 = [] then
             (let (r, c2) = flushFailure 0 ''statlog.endpoint_missing'' ''StatLog endpoint is missing.'' JUndefined c1
              in (Inl r, c2))
           else
             (let (batch, c2) = buildBatch env (take (nat (cl_batchSize c1)) (cl_queue c1)) c1
              in (Inr batch, c2\<lparr>cl_inFlight := cl_inFlight c2 @ [batch]\<rparr>))))"

record transport_response =
  tr_ok :: bool
  tr_status :: int
  tr_accepted :: "int option"
  tr_rejected :: "int option"

definition flush_end ::
  "statlog_env \<Rightarrow> ingest_batch \<Rightarrow> string + transport_response \<Rightarrow> statlog_client \<Rightarrow> flush_result \<times> statlog_client" where
  \<comment> \<open>\<open>flush\<close> from the settled transport call on: \<open>Inl\<close> the text of what it threw\<close>
  "flush_end env batch outcome c0 =
     (let c = c0\<lparr>cl_inFlight := remove1 batch (cl_inFlight c0)\<rparr> in
      case outcome of
        Inl err \<Rightarrow>
          flushFailure 0 ''statlog.transport_failed'' ''StatLog transport failed.'' (JStr err)
            (persistQueue env (scheduleRetry env ''statlog.transport_failed'' c))
      | Inr response \<Rightarrow>
         (if \<not> tr_ok response then
            (let code = (if tr_status response = 429 then ''statlog.backpressure'' else ''statlog.flush_failed'')
             in flushFailure (tr_status response) code
                  (''StatLog flush failed: '' @ int_text (tr_status response)) JUndefined
                  (persistQueue env (scheduleRetry env code c)))
          else
            (FlushOk (case tr_accepted response of None \<Rightarrow> int (length (ba_events batch)) | Some n \<Rightarrow> n)
               (case tr_rejected response of None \<Rightarrow> 0 | Some n \<Rightarrow> n) (tr_status response),
             persistQueue env
               (c\<lparr>cl_queue := drop (length (ba_events batch)) (cl_queue c), cl_retryAttempt := 0,
                  cl_nextRetryAtMs := 0, cl_lastErrorCode := []\<rparr>))))"

definition flush_now ::
  "statlog_env \<Rightarrow> bool \<Rightarrow> (ingest_batch \<Rightarrow> string + transport_response) \<Rightarrow> statlog_client \<Rightarrow>
     flush_result \<times> statlog_client" where
  \<comment> \<open>a whole \<open>flush\<close> with nothing in between, over a transport\<close>
  "flush_now env automatic transport c =
     (case flush_begin env automatic c of
        (Inl r, c1) \<Rightarrow> (r, c1)
      | (Inr batch, c1) \<Rightarrow> flush_end env batch (transport batch) c1)"

definition client_setup :: "statlog_env \<Rightarrow> statlog_client \<Rightarrow> statlog_client" where
  "client_setup env c =
     (let c1 = storage_op env ''Unable to load StatLog queue.''
                 (\<lambda>held c. let (q, c') = clampQueue held c in c'\<lparr>cl_queue := q\<rparr>) c
      in if \<not> cl_timer c1 \<and> cl_flushIntervalMs c1 > 0 then c1\<lparr>cl_timer := True\<rparr> else c1)"

definition shutdown_begin :: "statlog_env \<Rightarrow> statlog_client \<Rightarrow> (flush_result + ingest_batch) \<times> statlog_client" where
  "shutdown_begin env c = flush_begin env False (c\<lparr>cl_timer := False\<rparr>)"

definition setTelemetryEnabled :: "statlog_env \<Rightarrow> bool \<Rightarrow> statlog_client \<Rightarrow> statlog_client" where
  "setTelemetryEnabled env enabled c =
     (let c1 = c\<lparr>cl_telemetryEnabled := enabled\<rparr> in if \<not> enabled then clearQueue env c1 else c1)"

definition setOptOut :: "statlog_env \<Rightarrow> bool \<Rightarrow> statlog_client \<Rightarrow> statlog_client" where
  "setOptOut env enabled c =
     (let c1 = c\<lparr>cl_optedOut := enabled\<rparr> in if enabled then clearQueue env c1 else c1)"

definition setSubjectIds :: "statlog_properties \<Rightarrow> statlog_client \<Rightarrow> statlog_client" where
  "setSubjectIds ids c = c\<lparr>cl_subjectIds := spread (cl_subjectIds c) ids\<rparr>"

definition setUser :: "int \<Rightarrow> statlog_properties \<Rightarrow> statlog_client \<Rightarrow> statlog_client" where
  "setUser uid ids c = setSubjectIds ids (c\<lparr>cl_uid := uid\<rparr>)"

definition setSession :: "statlog_env \<Rightarrow> string option \<Rightarrow> statlog_client \<Rightarrow> statlog_client" where
  "setSession env sid c = (let (s, c1) = id_or env ''session'' sid c in c1\<lparr>cl_sessionId := s\<rparr>)"

definition setContext :: "statlog_properties \<Rightarrow> statlog_client \<Rightarrow> statlog_client" where
  "setContext ctx c = c\<lparr>cl_contextProps := spread (cl_contextProps c) ctx\<rparr>"

record queue_status =
  qs_queued :: nat
  qs_queueLimit :: int
  qs_dropped :: int
  qs_pendingRetry :: bool
  qs_nextRetryAtMs :: int
  qs_lastErrorCode :: string

definition getQueueStatus :: "statlog_env \<Rightarrow> statlog_client \<Rightarrow> queue_status \<times> statlog_client" where
  "getQueueStatus env c =
     (let (now, c1) = read_clock env c
      in (\<lparr>qs_queued = length (cl_queue c), qs_queueLimit = cl_queueLimit c, qs_dropped = cl_dropped c,
           qs_pendingRetry = (cl_nextRetryAtMs c > now), qs_nextRetryAtMs = cl_nextRetryAtMs c,
           qs_lastErrorCode = cl_lastErrorCode c\<rparr>, c1))"

record track_options =
  to_eventId :: "string option"
  to_projectId :: "int option"
  to_projectKey :: "string option"
  to_appId :: "string option"
  to_platform :: "string option"
  to_eventTimeMs :: "int option"
  to_uid :: "int option"
  to_deviceId :: "string option"
  to_sessionId :: "string option"
  to_scene :: "string option"
  to_sceneId :: "string option"
  to_traceId :: "string option"
  to_requestId :: "string option"
  to_subjectIds :: statlog_properties
  to_contextProps :: statlog_properties

definition clock_or :: "statlog_env \<Rightarrow> int option \<Rightarrow> statlog_client \<Rightarrow> int \<times> statlog_client" where
  "clock_or env v c = (case v of Some t \<Rightarrow> if t = 0 then read_clock env c else (t, c) | None \<Rightarrow> read_clock env c)"

definition track_event ::
  "statlog_env \<Rightarrow> string \<Rightarrow> statlog_properties \<Rightarrow> track_options \<Rightarrow> statlog_client \<Rightarrow>
     (string + queued_event) \<times> statlog_client" where
  \<comment> \<open>the object literal inside \<open>try\<close>; the id and the time are taken before a property can throw\<close>
  "track_event env eventName properties o1 c =
     (let (eid, c1) = id_or env ''evt'' (to_eventId o1) c;
          (time, c2) = clock_or env (to_eventTimeMs o1) c1
      in (bind_result (objectToStatLogKV (spread (cl_subjectIds c) (to_subjectIds o1))) (\<lambda>subjects.
          bind_result (objectToStatLogKV properties) (\<lambda>props.
          bind_result (objectToStatLogKV (spread (cl_contextProps c) (to_contextProps o1))) (\<lambda>ctx.
          Inr \<lparr>ev_event_id = eid,
            ev_project_id = (case to_projectId o1 of None \<Rightarrow> cl_projectId c | Some n \<Rightarrow> n),
            ev_project_key = js_or_opt (to_projectKey o1) (cl_projectKey c),
            ev_app_id = js_or_opt (to_appId o1) (cl_appId c),
            ev_platform = js_or_opt (to_platform o1) (cl_platform c),
            ev_sdk_name = ''statlog-desktop'', ev_sdk_version = ''0.1.0'', ev_event_name = eventName,
            ev_event_time_ms = time, ev_uid = (case to_uid o1 of None \<Rightarrow> cl_uid c | Some n \<Rightarrow> n),
            ev_device_id = js_or_opt (to_deviceId o1) (cl_deviceId c),
            ev_session_id = js_or_opt (to_sessionId o1) (cl_sessionId c),
            ev_scene = js_or_opt (to_scene o1) [], ev_scene_id = js_or_opt (to_sceneId o1) [],
            ev_trace_id = js_or_opt (to_traceId o1) [], ev_request_id = js_or_opt (to_requestId o1) [],
            ev_subject_ids = subjects, ev_properties = props, ev_context = ctx,
            ev_reporter = cl_reporter c\<rparr>))), c2))"

definition track ::
  "statlog_env \<Rightarrow> string \<Rightarrow> statlog_properties \<Rightarrow> track_options \<Rightarrow> statlog_client \<Rightarrow> bool \<times> statlog_client" where
  "track env eventName properties o1 c =
     (if \<not> canCollect c then (False, c)
      else if \<not> isSafeStatLogName eventName then
        (False, emitDiagnostic ''warn'' ''Rejected unsafe StatLog event name.''
                  (JObj [(''eventName'', JStr eventName)]) c)
      else
        (case track_event env eventName properties o1 c of
           (Inl err, c1) \<Rightarrow>
             (False, emitDiagnostic ''warn'' ''Rejected invalid StatLog payload.''
                       (JObj [(''error'', JStr err)]) c1)
         | (Inr ev, c1) \<Rightarrow>
             (let c2 = persistQueue env (clampQueueInPlace (c1\<lparr>cl_queue := cl_queue c1 @ [ev]\<rparr>))
              in (True, if int (length (cl_queue c2)) \<ge> cl_batchSize c2
                        then snd (flush_begin env True c2) else c2))))"

datatype capability_result =
    CapabilityOk int int "string list" bool       \<comment> \<open>status, code, platforms, batch\<close>
  | CapabilityFail int string string js_value

record capability_response =
  cr_ok :: bool
  cr_status :: int
  cr_code :: "int option"
  cr_platforms :: "string list option"
  cr_batch :: bool

definition checkCapabilities ::
  "statlog_client \<Rightarrow> (string \<Rightarrow> string + capability_response) \<Rightarrow> capability_result" where
  "checkCapabilities c transport =
     (if cl_capabilitiesEndpoint c = [] then
        CapabilityFail 0 ''statlog.capabilities_endpoint_missing'' ''Capabilities endpoint is missing.'' JUndefined
      else
        case transport (cl_capabilitiesEndpoint c) of
          Inl err \<Rightarrow> CapabilityFail 0 ''statlog.capabilities_transport_failed''
                       ''StatLog capabilities transport failed.'' (JStr err)
        | Inr r \<Rightarrow>
           (if \<not> cr_ok r then
              CapabilityFail (cr_status r) ''statlog.capabilities_failed''
                (''StatLog capabilities failed: '' @ int_text (cr_status r)) JUndefined
            else CapabilityOk (cr_status r) (case cr_code r of None \<Rightarrow> 0 | Some n \<Rightarrow> n)
                   (case cr_platforms r of None \<Rightarrow> [] | Some ps \<Rightarrow> ps) (cr_batch r)))"

definition createStatLog :: "statlog_env \<Rightarrow> client_options \<Rightarrow> string + statlog_client" where
  "createStatLog env o1 = bind_result (StatLogClient env o1) (\<lambda>c. Inr (client_setup env c))"

section \<open>The client as a machine\<close>

datatype statlog_call =
    Setup
  | Shutdown
  | SetTelemetryEnabled bool
  | SetOptOut bool
  | SetUser int statlog_properties
  | SetSubjectIds statlog_properties
  | SetSession "string option"
  | SetContext statlog_properties
  | Track string statlog_properties track_options
  | Flush bool
  | Settle nat "string + transport_response"  \<comment> \<open>the transport call in flight at this position settles\<close>

fun statlog_step :: "statlog_env \<Rightarrow> statlog_call \<Rightarrow> statlog_client \<Rightarrow> statlog_client" where
  "statlog_step env Setup c = client_setup env c"
| "statlog_step env Shutdown c = snd (shutdown_begin env c)"
| "statlog_step env (SetTelemetryEnabled b) c = setTelemetryEnabled env b c"
| "statlog_step env (SetOptOut b) c = setOptOut env b c"
| "statlog_step env (SetUser u ids) c = setUser u ids c"
| "statlog_step env (SetSubjectIds ids) c = setSubjectIds ids c"
| "statlog_step env (SetSession sid) c = setSession env sid c"
| "statlog_step env (SetContext ctx) c = setContext ctx c"
| "statlog_step env (Track name props o1) c = snd (track env name props o1 c)"
| "statlog_step env (Flush automatic) c = snd (flush_begin env automatic c)"
| "statlog_step env (Settle i outcome) c =
     (if i < length (cl_inFlight c) then snd (flush_end env (cl_inFlight c ! i) outcome c) else c)"

section \<open>Lemmas\<close>

lemma storage_op_cases:
  "storage_op env failed f c = c \<or>
   (\<exists>held. cl_stored c = Some held \<and> storage_op env failed f c = f held (c\<lparr>cl_storageOps := Suc (cl_storageOps c)\<rparr>)) \<or>
   (\<exists>d. storage_op env failed f c = c\<lparr>cl_storageOps := Suc (cl_storageOps c), cl_diagnostics := cl_diagnostics c @ [d]\<rparr>)"
  by (auto simp: storage_op_def emitDiagnostic_def Let_def split: option.splits)

definition rest_of :: "statlog_client \<Rightarrow> statlog_client" where
  \<comment> \<open>the client without the parts bookkeeping touches: storage contents and counters, diagnostics\<close>
  "rest_of c = c\<lparr>cl_stored := None, cl_ticks := 0, cl_idCount := 0, cl_storageOps := 0, cl_diagnostics := []\<rparr>"

lemma rest_eqD:
  assumes "rest_of a = rest_of b"
  shows "cl_queue a = cl_queue b" "cl_inFlight a = cl_inFlight b" "cl_queueLimit a = cl_queueLimit b"
    "cl_batchSize a = cl_batchSize b" "cl_optedOut a = cl_optedOut b" "cl_telemetryEnabled a = cl_telemetryEnabled b"
    "cl_retryAttempt a = cl_retryAttempt b" "cl_nextRetryAtMs a = cl_nextRetryAtMs b" "cl_endpoint a = cl_endpoint b"
    "cl_retryBaseMs a = cl_retryBaseMs b" "cl_maxRetryMs a = cl_maxRetryMs b" "cl_ingestToken a = cl_ingestToken b"
    "cl_dropped a = cl_dropped b" "cl_lastErrorCode a = cl_lastErrorCode b"
  using assms by (cases a; cases b; simp add: rest_of_def)+

lemma rest_emit [simp]: "rest_of (emitDiagnostic l m d c) = rest_of c"
  by (simp add: rest_of_def emitDiagnostic_def)

lemma rest_clock [simp]: "rest_of (snd (read_clock env c)) = rest_of c"
  by (simp add: rest_of_def read_clock_def)

lemma rest_id [simp]: "rest_of (snd (new_id env p c)) = rest_of c"
  by (simp add: rest_of_def new_id_def)

lemma rest_id_or [simp]: "rest_of (snd (id_or env p v c)) = rest_of c"
  by (simp add: id_or_def split: option.split)

lemma rest_clock_or [simp]: "rest_of (snd (clock_or env v c)) = rest_of c"
  by (simp add: clock_or_def split: option.split)

lemma rest_persist [simp]: "rest_of (persistQueue env c) = rest_of c"
  using storage_op_cases [of env "''Unable to persist StatLog queue.''" "\<lambda>_ c. c\<lparr>cl_stored := Some (cl_queue c)\<rparr>" c]
  by (auto simp: persistQueue_def rest_of_def)

lemma rest_failure [simp]: "rest_of (snd (flushFailure s code m d c)) = rest_of c"
  by (simp add: flushFailure_def)

lemma rest_clear: "rest_of (clearQueue env c) = rest_of (c\<lparr>cl_queue := [], cl_nextRetryAtMs := 0, cl_lastErrorCode := []\<rparr>)"
  using storage_op_cases [of env "''Unable to clear StatLog queue.''" "\<lambda>_ c. c\<lparr>cl_stored := Some []\<rparr>"
      "c\<lparr>cl_queue := [], cl_nextRetryAtMs := 0, cl_lastErrorCode := []\<rparr>"]
  by (auto simp: clearQueue_def rest_of_def)

lemma rest_batch [simp]: "rest_of (snd (buildBatch env es c)) = rest_of c"
  by (simp add: buildBatch_def case_prod_beta Let_def)

lemma rest_track_event [simp]: "rest_of (snd (track_event env n p o1 c)) = rest_of c"
  by (simp add: track_event_def case_prod_beta Let_def)

lemma rest_update:
  assumes "rest_of a = rest_of b"
  shows "rest_of (a\<lparr>cl_queue := q\<rparr>) = rest_of (b\<lparr>cl_queue := q\<rparr>)"
    "rest_of (a\<lparr>cl_inFlight := f\<rparr>) = rest_of (b\<lparr>cl_inFlight := f\<rparr>)"
  using assms by (cases a; cases b; simp add: rest_of_def)+

lemma buildBatch_events [simp]: "ba_events (fst (buildBatch env es c)) = map (\<lambda>e. (e, cl_ingestToken c)) es"
  by (simp add: buildBatch_def case_prod_beta Let_def)

text \<open>What \<open>flush_begin\<close> does, up to bookkeeping.\<close>

lemma flush_begin_cases:
  obtains (off) r where "\<not> canCollect c" "fst (flush_begin env a c) = Inl r"
      "rest_of (snd (flush_begin env a c)) = rest_of (c\<lparr>cl_queue := [], cl_nextRetryAtMs := 0, cl_lastErrorCode := []\<rparr>)"
  | (stopped) r where "fst (flush_begin env a c) = Inl r" "rest_of (snd (flush_begin env a c)) = rest_of c"
  | (sent) batch where "canCollect c" "cl_queue c \<noteq> []" "cl_endpoint c \<noteq> []"
      "a \<Longrightarrow> cl_nextRetryAtMs c \<le> se_clock env (cl_ticks c)"
      "fst (flush_begin env a c) = Inr batch"
      "ba_events batch = map (\<lambda>e. (e, cl_ingestToken c)) (take (nat (cl_batchSize c)) (cl_queue c))"
      "rest_of (snd (flush_begin env a c)) = rest_of (c\<lparr>cl_inFlight := cl_inFlight c @ [batch]\<rparr>)"
proof -
  define c1 where "c1 = (if a then snd (read_clock env c) else c)"
  define early where "early \<longleftrightarrow> a \<and> cl_nextRetryAtMs c > se_clock env (cl_ticks c)"
  have c1: "rest_of c1 = rest_of c" by (simp add: c1_def)
  note eqs = rest_eqD [OF c1]
  let ?b = "buildBatch env (take (nat (cl_batchSize c1)) (cl_queue c1)) c1"
  have pair: "(if a then (let (now, c') = read_clock env c in (cl_nextRetryAtMs c > now, c')) else (False, c)) = (early, c1)"
    by (simp add: c1_def early_def read_clock_def)
  have b2: "rest_of (snd ?b) = rest_of c" using c1 by simp
  consider "\<not> canCollect c" | "canCollect c" "cl_queue c = []" | "canCollect c" "cl_queue c \<noteq> []" "early \<or> cl_endpoint c = []"
    | "canCollect c" "cl_queue c \<noteq> []" "\<not> early" "cl_endpoint c \<noteq> []" by blast
  then show ?thesis
  proof cases
    case 1
    then show ?thesis using off by (simp add: flush_begin_def rest_clear)
  next
    case 2
    then show ?thesis using stopped by (simp add: flush_begin_def)
  next
    case 3
    then show ?thesis using stopped c1 eqs(9)
      by (cases early) (auto simp: flush_begin_def pair case_prod_beta)
  next
    case 4
    then have fb: "flush_begin env a c = (Inr (fst ?b), (snd ?b)\<lparr>cl_inFlight := cl_inFlight (snd ?b) @ [fst ?b]\<rparr>)"
      using eqs(9) by (simp add: flush_begin_def pair case_prod_beta Let_def)
    show ?thesis
      using 4 sent [of "fst ?b"] rest_update(2) [OF b2] rest_eqD(2) [OF b2] eqs
      by (auto simp: fb early_def)
  qed
qed

lemma rest_flush_end:
  "rest_of (snd (flush_end env b (Inl err) c)) =
     rest_of (c\<lparr>cl_inFlight := remove1 b (cl_inFlight c), cl_retryAttempt := Suc (cl_retryAttempt c),
        cl_nextRetryAtMs := se_clock env (cl_ticks c) + min (cl_retryBaseMs c * 2 ^ cl_retryAttempt c) (cl_maxRetryMs c),
        cl_lastErrorCode := ''statlog.transport_failed''\<rparr>)"
  "\<not> tr_ok r \<Longrightarrow> rest_of (snd (flush_end env b (Inr r) c)) =
     rest_of (c\<lparr>cl_inFlight := remove1 b (cl_inFlight c), cl_retryAttempt := Suc (cl_retryAttempt c),
        cl_nextRetryAtMs := se_clock env (cl_ticks c) + min (cl_retryBaseMs c * 2 ^ cl_retryAttempt c) (cl_maxRetryMs c),
        cl_lastErrorCode := (if tr_status r = 429 then ''statlog.backpressure'' else ''statlog.flush_failed'')\<rparr>)"
  "tr_ok r \<Longrightarrow> rest_of (snd (flush_end env b (Inr r) c)) =
     rest_of (c\<lparr>cl_inFlight := remove1 b (cl_inFlight c), cl_queue := drop (length (ba_events b)) (cl_queue c),
        cl_retryAttempt := 0, cl_nextRetryAtMs := 0, cl_lastErrorCode := []\<rparr>)"
  by (simp_all add: flush_end_def Let_def scheduleRetry_def read_clock_def) (simp_all add: rest_of_def)

definition statlog_ok :: "statlog_client \<Rightarrow> bool" where
  "statlog_ok c \<longleftrightarrow> 0 < cl_batchSize c \<and> 0 < cl_queueLimit c \<and> 0 < cl_retryBaseMs c \<and> 0 < cl_maxRetryMs c \<and>
     int (length (cl_queue c)) \<le> cl_queueLimit c \<and> 0 \<le> cl_dropped c \<and>
     (\<forall>b \<in> set (cl_inFlight c). ba_events b \<noteq> [] \<and> int (length (ba_events b)) \<le> cl_batchSize c)"

lemma statlog_ok_rest: "rest_of a = rest_of b \<Longrightarrow> statlog_ok a = statlog_ok b"
  using rest_eqD [of a b] by (simp add: statlog_ok_def)

lemma normalize_positive: "0 < d \<Longrightarrow> 0 < normalizePositiveInteger v d"
  by (simp add: normalizePositiveInteger_def split: option.split)

lemma initial_client_ok: "statlog_ok (initial_client o1)"
  by (simp add: statlog_ok_def initial_client_def normalize_positive DEFAULT_BATCH_SIZE_def DEFAULT_QUEUE_LIMIT_def
      DEFAULT_RETRY_BASE_MS_def DEFAULT_MAX_RETRY_MS_def less_imp_le)

lemma constructor_ok: "StatLogClient env o1 = Inr c \<Longrightarrow> statlog_ok c"
proof -
  assume "StatLogClient env o1 = Inr c"
  then obtain d s where c: "c = (snd (id_or env ''session'' (co_sessionId o1)
      (snd (id_or env ''device'' (co_deviceId o1) (initial_client o1)))))\<lparr>cl_deviceId := d, cl_sessionId := s\<rparr>"
    by (auto simp: StatLogClient_def Let_def case_prod_beta split: if_splits)
  have "statlog_ok (c1\<lparr>cl_deviceId := d, cl_sessionId := s\<rparr>) = statlog_ok c1" for c1
    by (simp add: statlog_ok_def)
  then show ?thesis unfolding c using initial_client_ok [of o1] by (simp add: statlog_ok_rest [OF rest_id_or])
qed

lemma clampQueue_facts:
  assumes "clampQueue es c = (q, c')" "0 \<le> cl_queueLimit c"
  shows "int (length q) \<le> cl_queueLimit c" "suffix q es"
    "c' = c\<lparr>cl_dropped := cl_dropped c + int (length es - length q)\<rparr>"
  using assms by (auto simp: clampQueue_def suffix_drop split: if_splits)

lemma clamp_ok:
  assumes "statlog_ok c" "clampQueue es c = (q, c')"
  shows "statlog_ok (c'\<lparr>cl_queue := q\<rparr>)"
  using clampQueue_facts [OF assms(2)] assms(1) by (auto simp: statlog_ok_def)

lemma clampInPlace_ok: "statlog_ok (c\<lparr>cl_queue := []\<rparr>) \<Longrightarrow> statlog_ok (clampQueueInPlace c)"
proof -
  assume ok: "statlog_ok (c\<lparr>cl_queue := []\<rparr>)"
  obtain q c' where q: "clampQueue (cl_queue c) c = (q, c')" by fastforce
  then have "clampQueue (cl_queue c) (c\<lparr>cl_queue := []\<rparr>) = (q, c'\<lparr>cl_queue := []\<rparr>)"
    by (auto simp: clampQueue_def split: if_splits)
  from clamp_ok [OF ok this] show ?thesis by (simp add: clampQueueInPlace_def q)
qed

lemma statlog_ok_clear: "statlog_ok c \<Longrightarrow> statlog_ok (c\<lparr>cl_queue := [], cl_nextRetryAtMs := n, cl_lastErrorCode := s\<rparr>)"
  by (simp add: statlog_ok_def)

lemma clearQueue_ok: "statlog_ok c \<Longrightarrow> statlog_ok (clearQueue env c)"
  by (subst statlog_ok_rest [OF rest_clear]) (rule statlog_ok_clear)

lemma flush_begin_ok: "statlog_ok c \<Longrightarrow> statlog_ok (snd (flush_begin env a c))"
proof (cases rule: flush_begin_cases [of c env a])
  case (off r)
  then show "statlog_ok c \<Longrightarrow> ?thesis" using statlog_ok_rest [OF off(3)] statlog_ok_clear by blast
next
  case (stopped r)
  then show "statlog_ok c \<Longrightarrow> ?thesis" using statlog_ok_rest by blast
next
  case (sent batch)
  then show "statlog_ok c \<Longrightarrow> ?thesis"
    unfolding statlog_ok_rest [OF sent(7)] by (auto simp: statlog_ok_def)
qed

lemma flush_end_ok:
  assumes "statlog_ok c"
  shows "statlog_ok (snd (flush_end env b outcome c))"
proof -
  have in_sub: "x \<in> set (remove1 b (cl_inFlight c)) \<Longrightarrow> x \<in> set (cl_inFlight c)" for x
    by (meson notin_set_remove1)
  show ?thesis
  proof (cases outcome)
    case (Inl err)
    show ?thesis unfolding Inl statlog_ok_rest [OF rest_flush_end(1)]
      using assms in_sub by (auto simp: statlog_ok_def)
  next
    case (Inr r)
    show ?thesis
    proof (cases "tr_ok r")
      case True
      show ?thesis unfolding Inr statlog_ok_rest [OF rest_flush_end(3) [OF True]]
        using assms in_sub by (auto simp: statlog_ok_def)
    next
      case False
      show ?thesis unfolding Inr statlog_ok_rest [OF rest_flush_end(2) [OF False]]
        using assms in_sub by (auto simp: statlog_ok_def)
    qed
  qed
qed

lemma setup_ok: "statlog_ok c \<Longrightarrow> statlog_ok (client_setup env c)"
proof -
  assume ok: "statlog_ok c"
  let ?f = "\<lambda>held c. let (q, c') = clampQueue held c in c'\<lparr>cl_queue := q\<rparr>"
  let ?c1 = "storage_op env ''Unable to load StatLog queue.'' ?f c"
  have up: "statlog_ok (c\<lparr>cl_storageOps := n\<rparr>)" "statlog_ok (c\<lparr>cl_storageOps := n, cl_diagnostics := d\<rparr>)" for n d
    using ok by (simp_all add: statlog_ok_def)
  have "statlog_ok (?f held (c\<lparr>cl_storageOps := n\<rparr>))" for held n
    using clamp_ok [OF up(1)] by (simp add: case_prod_beta)
  then have "statlog_ok ?c1"
    using storage_op_cases [of env "''Unable to load StatLog queue.''" ?f c] ok up(2) by metis
  then show ?thesis by (simp add: client_setup_def Let_def statlog_ok_def)
qed

lemma track_ok: "statlog_ok c \<Longrightarrow> statlog_ok (snd (track env n p o1 c))"
proof -
  assume ok: "statlog_ok c"
  obtain r c1 where t: "track_event env n p o1 c = (r, c1)" by fastforce
  have c1: "rest_of c1 = rest_of c" using rest_track_event [of env n p o1 c] by (simp add: t)
  have "statlog_ok c1" using statlog_ok_rest [OF c1] ok by simp
  then have "statlog_ok (c1\<lparr>cl_queue := cl_queue c1 @ [ev], cl_queue := []\<rparr>)" for ev by (simp add: statlog_ok_def)
  then have "statlog_ok (persistQueue env (clampQueueInPlace (c1\<lparr>cl_queue := cl_queue c1 @ [ev]\<rparr>)))" for ev
    by (subst statlog_ok_rest [OF rest_persist]) (rule clampInPlace_ok)
  then show ?thesis
    using ok \<open>statlog_ok c1\<close> statlog_ok_rest [OF rest_emit] flush_begin_ok
    by (cases r) (auto simp: track_def t Let_def)
qed

lemma statlog_step_ok: "statlog_ok c \<Longrightarrow> statlog_ok (statlog_step env call c)"
proof (cases call)
  case (SetSession sid)
  have "statlog_ok c \<Longrightarrow> statlog_ok (snd (id_or env ''session'' sid c))" by (simp add: statlog_ok_rest [OF rest_id_or])
  then show "statlog_ok c \<Longrightarrow> ?thesis" by (simp add: SetSession setSession_def case_prod_beta Let_def statlog_ok_def)
next
  case Shutdown
  have "statlog_ok c \<Longrightarrow> statlog_ok (c\<lparr>cl_timer := False\<rparr>)" by (simp add: statlog_ok_def)
  then show "statlog_ok c \<Longrightarrow> ?thesis" by (simp add: Shutdown shutdown_begin_def flush_begin_ok)
next
  case (SetTelemetryEnabled b)
  have "statlog_ok c \<Longrightarrow> statlog_ok (c\<lparr>cl_telemetryEnabled := b\<rparr>)" by (simp add: statlog_ok_def)
  then show "statlog_ok c \<Longrightarrow> ?thesis" by (cases b) (simp_all add: SetTelemetryEnabled setTelemetryEnabled_def Let_def clearQueue_ok)
next
  case (SetOptOut b)
  have "statlog_ok c \<Longrightarrow> statlog_ok (c\<lparr>cl_optedOut := b\<rparr>)" by (simp add: statlog_ok_def)
  then show "statlog_ok c \<Longrightarrow> ?thesis" by (cases b) (simp_all add: SetOptOut setOptOut_def Let_def clearQueue_ok)
qed (simp_all add: setup_ok track_ok flush_begin_ok flush_end_ok,
     simp_all add: setUser_def setSubjectIds_def setContext_def statlog_ok_def)

interpretation statlog: guarded_machine "\<lambda>c. \<exists>o1. StatLogClient env o1 = Inr c" "statlog_step env" statlog_ok for env
  by unfold_locales (auto intro: constructor_ok statlog_step_ok)

section \<open>Properties\<close>

text \<open>
  (C29) Whatever calls are made and however the transport calls settle in between, the queue never
  exceeds its limit, and every request in flight carries at least one and at most \<open>batchSize\<close> events.
\<close>

theorem statlog_bounded:
  assumes "StatLogClient env o1 = Inr c"
  shows "statlog_ok (fold (statlog_step env) calls c)"
  using assms by (intro statlog.inv_reachable) blast

definition sample_statlog_env :: statlog_env where
  "sample_statlog_env = \<lparr>se_clock = (\<lambda>n. 100 + int n), se_ids = (\<lambda>p n. p @ ''_'' @ digits_of_nat n),
     se_storageFails = (\<lambda>_. None)\<rparr>"

definition sample_options :: client_options where
  "sample_options = \<lparr>co_endpoint = ''https://s/v1/statlog/report'', co_capabilitiesEndpoint = None,
     co_projectId = None, co_projectKey = None, co_appId = ''app'', co_ingestToken = None, co_platform = None,
     co_reporter = None, co_batchSize = Some (1, 0), co_queueLimit = Some (3, 0), co_flushIntervalMs = None,
     co_timeoutMs = None, co_retryBaseMs = None, co_maxRetryMs = None, co_telemetryEnabled = Some True,
     co_optOut = None, co_uid = None, co_deviceId = None, co_sessionId = None, co_subjectIds = None,
     co_context = None, co_storage = None\<rparr>"

definition no_track_options :: track_options where
  "no_track_options = \<lparr>to_eventId = None, to_projectId = None, to_projectKey = None, to_appId = None,
     to_platform = None, to_eventTimeMs = None, to_uid = None, to_deviceId = None, to_sessionId = None,
     to_scene = None, to_sceneId = None, to_traceId = None, to_requestId = None, to_subjectIds = [],
     to_contextProps = []\<rparr>"

lemma sample_client: "\<exists>c. StatLogClient sample_statlog_env sample_options = Inr c"
proof -
  have "is_ok (StatLogClient sample_statlog_env sample_options)" by code_simp
  then show ?thesis by (auto simp: is_ok_def split: sum.splits)
qed

theorem statlog_bounded_witness:
  "\<exists>c. StatLogClient sample_statlog_env sample_options = Inr c \<and>
     statlog_ok (fold (statlog_step sample_statlog_env) [Setup, Track ''a'' [] no_track_options] c)"
  using sample_client statlog_bounded by blast

lemma step_opted_out:
  assumes "cl_optedOut c" "call \<noteq> SetOptOut False"
  shows "cl_optedOut (statlog_step env call c) \<and>
    mset (cl_inFlight (statlog_step env call c)) \<subseteq># mset (cl_inFlight c)"
proof -
  have off: "\<not> canCollect c" using assms(1) by (simp add: canCollect_def)
  have fb: "cl_optedOut (snd (flush_begin env a d)) \<and> mset (cl_inFlight (snd (flush_begin env a d))) \<subseteq># mset (cl_inFlight d)"
    if "cl_optedOut d" for a d
    using that rest_eqD [OF rest_clear [of env d]] by (simp add: flush_begin_def canCollect_def)
  have clear: "cl_optedOut (clearQueue env d) = cl_optedOut d" "cl_inFlight (clearQueue env d) = cl_inFlight d" for d
    using rest_eqD [OF rest_clear [of env d]] by simp_all
  have stp: "cl_optedOut (client_setup env c)" "cl_inFlight (client_setup env c) = cl_inFlight c"
    using assms(1) by (auto simp: client_setup_def Let_def storage_op_def clampQueue_def emitDiagnostic_def
        split: option.splits)
  have fe: "cl_optedOut (snd (flush_end env b out c)) \<and> mset (cl_inFlight (snd (flush_end env b out c))) \<subseteq># mset (cl_inFlight c)"
    for b out
  proof (cases out)
    case (Inl err)
    show ?thesis using assms(1) rest_eqD(2,5) [OF rest_flush_end(1) [of env b err c]] by (simp add: Inl)
  next
    case (Inr r)
    show ?thesis
      using assms(1) rest_eqD(2,5) [OF rest_flush_end(2) [of r env b c]] rest_eqD(2,5) [OF rest_flush_end(3) [of r env b c]]
      by (cases "tr_ok r") (simp_all add: Inr)
  qed
  have ids: "cl_optedOut (snd (id_or env p v c)) = cl_optedOut c" "cl_inFlight (snd (id_or env p v c)) = cl_inFlight c" for p v
    using rest_eqD [OF rest_id_or [of env p v c]] by simp_all
  show ?thesis
    by (cases call) (use assms off fb [of c] fb [of "c\<lparr>cl_timer := False\<rparr>"] clear stp fe ids in
        \<open>simp_all add: shutdown_begin_def setTelemetryEnabled_def setOptOut_def setUser_def setSubjectIds_def
          setSession_def setContext_def track_def Let_def case_prod_beta\<close>)
qed




definition sample_running :: statlog_client where
  "sample_running = (case StatLogClient sample_statlog_env sample_options of
     Inr c \<Rightarrow> c\<lparr>cl_queue := [\<lparr>ev_event_id = ''e1'', ev_project_id = 0, ev_project_key = [], ev_app_id = ''app'',
        ev_platform = ''desktop'', ev_sdk_name = [], ev_sdk_version = [], ev_event_name = ''a'', ev_event_time_ms = 1,
        ev_uid = 0, ev_device_id = [], ev_session_id = [], ev_scene = [], ev_scene_id = [], ev_trace_id = [],
        ev_request_id = [], ev_subject_ids = [], ev_properties = [], ev_context = [], ev_reporter = []\<rparr>]\<rparr>
   | Inl _ \<Rightarrow> initial_client sample_options)"


definition overlapping_calls :: "statlog_call list" where
  "overlapping_calls = [Track ''first'' [] no_track_options, Track ''second'' [] no_track_options]"

definition accepted_response :: transport_response where
  "accepted_response = \<lparr>tr_ok = True, tr_status = 200, tr_accepted = None, tr_rejected = None\<rparr>"


section \<open>Layered configuration\<close>

definition deciding_layer :: "config_input \<Rightarrow> string \<Rightarrow> (string \<times> cfg_layer option) option" where
  "deciding_layer i k = find (\<lambda>(s, l). k \<in> set (map fst (withoutUndefined l))) (rev (config_layers i))"

lemma map_of_spread:
  "js_map_ok b \<Longrightarrow> map_of (spread a b) k = (case map_of b k of Some v \<Rightarrow> Some v | None \<Rightarrow> map_of a k)"
proof (induction b arbitrary: a)
  case (Cons x b)
  then have "map_of b (fst x) = None" "js_map_ok b" by (auto simp: js_map_ok_def map_of_eq_None_iff)
  with Cons.IH [of "AList.update (fst x) (snd x) a"] show ?case
    by (auto simp: spread_def update_conv' case_prod_beta split: option.splits)
qed (simp add: spread_def)

lemma config_values_lookup:
  assumes "\<forall>(s, l) \<in> set ls. js_map_ok (withoutUndefined l)"
  shows "map_of (fold (\<lambda>(s, l) acc. spread acc (withoutUndefined l)) ls acc) k =
    (case find (\<lambda>(s, l). k \<in> set (map fst (withoutUndefined l))) (rev ls) of
       None \<Rightarrow> map_of acc k | Some (s, l) \<Rightarrow> map_of (withoutUndefined l) k)"
  using assms
proof (induction ls arbitrary: acc rule: rev_induct)
  case (snoc x ls)
  obtain s l where x: "x = (s, l)" by (cases x)
  show ?case
  proof (cases "k \<in> set (map fst (withoutUndefined l))")
    case True
    then obtain v where "map_of (withoutUndefined l) k = Some v" by (metis list.set_map map_of_eq_None_iff option.exhaust)
    with snoc.prems True show ?thesis by (simp add: x map_of_spread)
  next
    case False
    then have "map_of (withoutUndefined l) k = None" by (simp add: map_of_eq_None_iff)
    with snoc False show ?thesis by (simp add: x map_of_spread)
  qed
qed simp

lemma mark_lookup:
  "map_of (markProvenance s l p) k = (if k \<in> set (map fst (withoutUndefined l)) then Some s else map_of p k)"
proof -
  have "map_of (fold (\<lambda>k. AList.update k s) ks p) k = (if k \<in> set ks then Some s else map_of p k)" for ks
    by (induction ks arbitrary: p) (auto simp: update_conv')
  then show ?thesis by (simp add: markProvenance_def)
qed

lemma provenance_lookup:
  "map_of (fold (\<lambda>(s, l). markProvenance s l) ls p) k =
    (case find (\<lambda>(s, l). k \<in> set (map fst (withoutUndefined l))) (rev ls) of
       None \<Rightarrow> map_of p k | Some (s, l) \<Rightarrow> Some s)"
  by (induction ls arbitrary: p rule: rev_induct) (auto simp: mark_lookup split: prod.splits)

text \<open>
  Layered configuration. Every option comes from the last layer (default, environment, setting,
  launch argument, secret, override) that defines it, with that layer's value, and the provenance
  names that layer; an option no layer defines is undefined and has no provenance.
\<close>

lemma statlog_config_precedence:
  assumes "\<forall>(s, l) \<in> set (config_layers i). js_map_ok (withoutUndefined l)" and "k \<in> set OPTION_KEYS"
  shows "map_of (rc_options (resolveStatLogConfig i)) k =
      Some (case deciding_layer i k of None \<Rightarrow> CUndefined | Some (s, l) \<Rightarrow> cfg_get (withoutUndefined l) k) \<and>
    map_of (rc_provenance (resolveStatLogConfig i)) k = map_option fst (deciding_layer i k)"
proof -
  have k: "k \<noteq> ''endpoint''" "k \<noteq> ''appId''" using assms(2) by (auto simp: OPTION_KEYS_def)
  have "map_of (map (\<lambda>k. (k, f k)) OPTION_KEYS) k = Some (f k)" for f :: "string \<Rightarrow> cfg_value"
    using assms(2) by (simp add: map_of_map_restrict)
  then have "map_of (rc_options (resolveStatLogConfig i)) k = Some (cfg_get (config_values i) k)"
    using k by (simp add: resolveStatLogConfig_def Let_def)
  moreover have "cfg_get (config_values i) k =
      (case deciding_layer i k of None \<Rightarrow> CUndefined | Some (s, l) \<Rightarrow> cfg_get (withoutUndefined l) k)"
    unfolding cfg_get_def config_values_def config_values_lookup [OF assms(1)] deciding_layer_def
    by (simp split: option.splits prod.splits)
  moreover have "map_of (rc_provenance (resolveStatLogConfig i)) k = map_option fst (deciding_layer i k)"
    using k by (auto simp: resolveStatLogConfig_def Let_def provenance_lookup deciding_layer_def update_conv' split: option.splits)
  ultimately show ?thesis by simp
qed

definition sample_config :: config_input where
  "sample_config = \<lparr>ci_environment = ''local'', ci_appId = ''app'',
     ci_defaults = Some [(''batchSize'', CNum (20, 0)), (''platform'', CStr ''desktop'')],
     ci_environments = None, ci_telemetrySetting = Some True,
     ci_launchArgs = Some [(''statlog-batch-size'', CStr ''7'')], ci_secretToken = None, ci_overrides = None\<rparr>"

lemma statlog_config_precedence_witness:
  "map_of (rc_options (resolveStatLogConfig sample_config)) ''batchSize'' = Some (CNum (7, 0)) \<and>
   map_of (rc_provenance (resolveStatLogConfig sample_config)) ''batchSize'' = Some ''launch-arg''"
proof -
  have "\<forall>(s, l) \<in> set (config_layers sample_config). js_map_ok (withoutUndefined l)" by code_simp
  moreover have "''batchSize'' \<in> set OPTION_KEYS" by (simp add: OPTION_KEYS_def)
  moreover have "(case deciding_layer sample_config ''batchSize'' of None \<Rightarrow> CUndefined
      | Some (s, l) \<Rightarrow> cfg_get (withoutUndefined l) ''batchSize'') = CNum (7, 0)" by code_simp
  moreover have "map_option fst (deciding_layer sample_config ''batchSize'') = Some ''launch-arg''" by code_simp
  ultimately show ?thesis using statlog_config_precedence [of sample_config "''batchSize''"] by simp
qed

end
