(* ===== verification/Semver.thy ===== *)
theory Semver
  imports Js_Prelude
begin

text \<open>
  \<open>electron/main/managed/toolchain/semver.ts\<close>: exact tool versions, the version lines of Node and pnpm,
  the \<open>packageManager\<close> declaration and the supported subset of \<open>engines.node\<close> ranges. Components are
  natural numbers; the check against unsafe integers is kept. A thrown \<open>ToolchainRuntimeError\<close> is the
  left side of the result. The order the code compares by is the linear order of the type \<open>release\<close>.
\<close>

section \<open>Versions\<close>

record toolchain_error =
  te_code :: string
  te_message :: string

record toolchain_version =
  tv_major :: nat
  tv_minor :: nat
  tv_patch :: nat
  tv_text :: string

definition fail_with :: "string \<Rightarrow> string \<Rightarrow> toolchain_error + 'a" where
  "fail_with code msg = Inl \<lparr>te_code = code, te_message = msg\<rparr>"

definition version_component :: "string \<Rightarrow> bool" where
  \<comment> \<open>\<open>(?:0|[1-9][0-9]*)\<close>\<close>
  "version_component s \<longleftrightarrow> s = ''0'' \<or> (s \<noteq> [] \<and> list_all js_is_digit s \<and> hd s \<noteq> CHR ''0'')"

definition version_text :: "nat \<Rightarrow> nat \<Rightarrow> nat \<Rightarrow> string" where
  "version_text a b c = digits_of_nat a @ ''.'' @ digits_of_nat b @ ''.'' @ digits_of_nat c"

definition safe_component :: "nat \<Rightarrow> bool" where
  "safe_component n \<longleftrightarrow> is_safe_integer (int n)"

definition createVersion :: "string \<Rightarrow> string \<Rightarrow> string \<Rightarrow> string \<Rightarrow> toolchain_error + toolchain_version" where
  "createVersion a b c code =
     (let major = nat_of_digits a; minor = nat_of_digits b; patch = nat_of_digits c in
      if list_all safe_component [major, minor, patch]
      then Inr \<lparr>tv_major = major, tv_minor = minor, tv_patch = patch, tv_text = version_text major minor patch\<rparr>
      else fail_with code ''Tool version contains an unsafe component.'')"

definition parseToolchainVersion :: "string \<Rightarrow> toolchain_error + toolchain_version" where
  "parseToolchainVersion v =
     (case js_split (CHR ''.'') v of
        [a, b, c] \<Rightarrow>
          if version_component a \<and> version_component b \<and> version_component c
          then createVersion a b c ''toolchain.version_invalid''
          else fail_with ''toolchain.version_invalid'' ''Tool version is invalid.''
      | _ \<Rightarrow> fail_with ''toolchain.version_invalid'' ''Tool version is invalid.'')"

abbreviation cr :: char where "cr \<equiv> CHR 0x0D"
abbreviation lf :: char where "lf \<equiv> CHR 0x0A"

definition line_of :: "string \<Rightarrow> (string \<times> string) option" where
  \<comment> \<open>\<open>([^\r\n]+)\r?\n?$\<close>: the line and its end\<close>
  "line_of s =
     (let body = takeWhile (\<lambda>c. c \<noteq> cr \<and> c \<noteq> lf) s; rest = dropWhile (\<lambda>c. c \<noteq> cr \<and> c \<noteq> lf) s
      in if body \<noteq> [] \<and> rest \<in> set [[], [cr], [lf], [cr, lf]] then Some (body, rest) else None)"

definition parseNodeVersionOutput :: "string \<Rightarrow> toolchain_error + toolchain_version" where
  "parseNodeVersionOutput v =
     (case v of
        c # s \<Rightarrow>
          (if c = CHR ''v'' then
             (case line_of s of
                Some (body, _) \<Rightarrow> parseToolchainVersion body
              | None \<Rightarrow> fail_with ''toolchain.version_invalid'' ''Node version output is invalid.'')
           else fail_with ''toolchain.version_invalid'' ''Node version output is invalid.'')
      | [] \<Rightarrow> fail_with ''toolchain.version_invalid'' ''Node version output is invalid.'')"

definition parsePnpmVersionOutput :: "string \<Rightarrow> toolchain_error + toolchain_version" where
  \<comment> \<open>\<open>.replace(/\r?\n$/, '')\<close> removes the line end only if it has the \<open>\n\<close>\<close>
  "parsePnpmVersionOutput v =
     (case line_of v of
        None \<Rightarrow> fail_with ''toolchain.version_invalid'' ''pnpm version output is invalid.''
      | Some (body, rest) \<Rightarrow> parseToolchainVersion (if rest = [cr] then body @ [cr] else body))"

definition parsePnpmPackageManagerDeclaration ::
  "string \<Rightarrow> toolchain_error + (string \<times> toolchain_version)" where
  "parsePnpmPackageManagerDeclaration v =
     (let rest = drop 5 v;
          bad = fail_with ''toolchain.package_manager_invalid''
                  ''packageManager must declare an exact pnpm version.''
      in if take 5 v = ''pnpm@'' \<and> rest \<noteq> [] \<and> list_all (\<lambda>c. \<not> js_is_space c \<and> c \<noteq> CHR ''@'') rest
         then (case parseToolchainVersion rest of
                 Inl _ \<Rightarrow> bad
               | Inr version \<Rightarrow> Inr (''pnpm@'' @ tv_text version, version))
         else bad)"

definition compareToolchainVersions :: "toolchain_version \<Rightarrow> toolchain_version \<Rightarrow> int" where
  "compareToolchainVersions l r =
     (if tv_major l \<noteq> tv_major r then (if tv_major l < tv_major r then -1 else 1)
      else if tv_minor l \<noteq> tv_minor r then (if tv_minor l < tv_minor r then -1 else 1)
      else if tv_patch l \<noteq> tv_patch r then (if tv_patch l < tv_patch r then -1 else 1)
      else 0)"

section \<open>Ranges\<close>

datatype range_op = Gt | Ge | Lt | Le | Eq | Caret | Tilde

record comparator =
  nc_operator :: range_op
  nc_version :: toolchain_version
  nc_precision :: nat

record node_range =
  nr_text :: string
  nr_alternatives :: "comparator list list"

abbreviation requirement_invalid :: "string \<Rightarrow> toolchain_error + 'a" where
  "requirement_invalid msg \<equiv> fail_with ''toolchain.node_requirement_invalid'' msg"

definition parsePartialVersion :: "string \<Rightarrow> toolchain_error + (toolchain_version \<times> nat)" where
  "parsePartialVersion v =
     (let parts = js_split (CHR ''.'') v;
          part = (\<lambda>i. if i < length parts then parts ! i else ''0'')
      in if length parts \<le> 3 \<and> list_all version_component parts
         then bind_result (createVersion (part 0) (part 1) (part 2) ''toolchain.node_requirement_invalid'')
                (\<lambda>version. Inr (version, length parts))
         else requirement_invalid ''engines.node contains an invalid version.'')"

definition split_operator :: "string \<Rightarrow> range_op option \<times> string" where
  \<comment> \<open>\<open>(\^|~|>=|<=|>|<|=)?\<close>\<close>
  "split_operator s =
     (if prefix ''^'' s then (Some Caret, drop 1 s)
      else if prefix ''~'' s then (Some Tilde, drop 1 s)
      else if prefix ''>='' s then (Some Ge, drop 2 s)
      else if prefix ''<='' s then (Some Le, drop 2 s)
      else if prefix ''>'' s then (Some Gt, drop 1 s)
      else if prefix ''<'' s then (Some Lt, drop 1 s)
      else if prefix ''='' s then (Some Eq, drop 1 s)
      else (None, s))"

definition parseNodeComparator :: "string \<Rightarrow> toolchain_error + comparator" where
  "parseNodeComparator v =
     (let (oper, text) = split_operator v; parts = js_split (CHR ''.'') text in
      if \<not> (length parts \<le> 3 \<and> list_all version_component parts)
      then requirement_invalid ''engines.node contains an unsupported comparator.''
      else
        bind_result (parsePartialVersion text) (\<lambda>(version, precision).
          let operator = (case oper of None \<Rightarrow> Eq | Some p \<Rightarrow> p) in
          if operator \<in> set [Gt, Ge, Lt, Le] \<and> precision \<noteq> 3
          then requirement_invalid ''Inequality comparators in engines.node require three version components.''
          else Inr \<lparr>nc_operator = operator, nc_version = version, nc_precision = precision\<rparr>))"

fun split_bars :: "string \<Rightarrow> string list" where
  \<comment> \<open>\<open>.split('||')\<close>\<close>
  "split_bars (a # b # s) =
     (if a = CHR ''|'' \<and> b = CHR ''|'' then [] # split_bars s
      else case split_bars (b # s) of w # ws \<Rightarrow> (a # w) # ws | [] \<Rightarrow> [[a]])"
| "split_bars s = [s]"

fun split_space :: "string \<Rightarrow> string list" where
  "split_space [] = [[]]"
| "split_space (c # s) =
     (if js_is_space c then [] # split_space s
      else case split_space s of w # ws \<Rightarrow> (c # w) # ws | [] \<Rightarrow> [[c]])"

definition js_words :: "string \<Rightarrow> string list" where
  \<comment> \<open>\<open>.split(/\s+/)\<close> of a trimmed non-empty string\<close>
  "js_words s = filter (\<lambda>w. w \<noteq> []) (split_space s)"

definition parse_alternative :: "string \<Rightarrow> toolchain_error + comparator list" where
  "parse_alternative alternative =
     (let trimmed = js_trim alternative in
      if trimmed = [] then requirement_invalid ''engines.node contains an empty alternative.''
      else bind_result (traverse_result parseNodeComparator (js_words trimmed)) (\<lambda>comparators.
        if length comparators > 16 then requirement_invalid ''engines.node contains too many comparators.''
        else Inr comparators))"

definition parseNodeVersionRange :: "string \<Rightarrow> toolchain_error + node_range" where
  "parseNodeVersionRange v =
     (if v = [] \<or> v \<noteq> js_trim v \<or> length v > 512 then requirement_invalid ''engines.node is invalid.''
      else bind_result (traverse_result parse_alternative (split_bars v)) (\<lambda>alternatives.
        if length alternatives > 16 then requirement_invalid ''engines.node contains too many alternatives.''
        else Inr \<lparr>nr_text = v, nr_alternatives = alternatives\<rparr>))"

definition versionAt :: "nat \<Rightarrow> nat \<Rightarrow> nat \<Rightarrow> toolchain_error + toolchain_version" where
  "versionAt major minor patch =
     (if list_all safe_component [major, minor, patch]
      then Inr \<lparr>tv_major = major, tv_minor = minor, tv_patch = patch, tv_text = version_text major minor patch\<rparr>
      else requirement_invalid ''engines.node exceeds safe bounds.'')"

definition nextPartialVersion :: "comparator \<Rightarrow> toolchain_error + toolchain_version" where
  "nextPartialVersion c =
     (let v = nc_version c in
      if nc_precision c = 1 then versionAt (tv_major v + 1) 0 0
      else if nc_precision c = 2 then versionAt (tv_major v) (tv_minor v + 1) 0
      else Inr v)"

definition caretUpperBound :: "comparator \<Rightarrow> toolchain_error + toolchain_version" where
  "caretUpperBound c =
     (let v = nc_version c in
      if nc_precision c = 1 \<or> tv_major v > 0 then versionAt (tv_major v + 1) 0 0
      else if nc_precision c = 2 \<or> tv_minor v > 0 then versionAt (tv_major v) (tv_minor v + 1) 0
      else versionAt (tv_major v) (tv_minor v) (tv_patch v + 1))"

definition tildeUpperBound :: "comparator \<Rightarrow> toolchain_error + toolchain_version" where
  "tildeUpperBound c =
     (let v = nc_version c in
      if nc_precision c = 1 then versionAt (tv_major v + 1) 0 0
      else versionAt (tv_major v) (tv_minor v + 1) 0)"

definition within :: "int \<Rightarrow> toolchain_version \<Rightarrow> toolchain_error + toolchain_version \<Rightarrow> toolchain_error + bool" where
  \<comment> \<open>\<open>comparison >= 0 && compareToolchainVersions(version, bound) < 0\<close>\<close>
  "within comparison version bound =
     (if comparison \<ge> 0 then bind_result bound (\<lambda>b. Inr (compareToolchainVersions version b < 0)) else Inr False)"

definition nodeVersionSatisfiesComparator :: "toolchain_version \<Rightarrow> comparator \<Rightarrow> toolchain_error + bool" where
  "nodeVersionSatisfiesComparator version c =
     (let comparison = compareToolchainVersions version (nc_version c) in
      case nc_operator c of
        Gt \<Rightarrow> Inr (comparison > 0)
      | Ge \<Rightarrow> Inr (comparison \<ge> 0)
      | Lt \<Rightarrow> Inr (comparison < 0)
      | Le \<Rightarrow> Inr (comparison \<le> 0)
      | Eq \<Rightarrow> if nc_precision c = 3 then Inr (comparison = 0)
              else within comparison version (nextPartialVersion c)
      | Caret \<Rightarrow> within comparison version (caretUpperBound c)
      | Tilde \<Rightarrow> within comparison version (tildeUpperBound c))"

fun every_result :: "('a \<Rightarrow> 'e + bool) \<Rightarrow> 'a list \<Rightarrow> 'e + bool" where
  "every_result f [] = Inr True"
| "every_result f (x # xs) = bind_result (f x) (\<lambda>b. if b then every_result f xs else Inr False)"

fun some_result :: "('a \<Rightarrow> 'e + bool) \<Rightarrow> 'a list \<Rightarrow> 'e + bool" where
  "some_result f [] = Inr False"
| "some_result f (x # xs) = bind_result (f x) (\<lambda>b. if b then Inr True else some_result f xs)"

definition nodeVersionSatisfiesRange :: "toolchain_version \<Rightarrow> node_range \<Rightarrow> toolchain_error + bool" where
  "nodeVersionSatisfiesRange version rg =
     some_result (every_result (nodeVersionSatisfiesComparator version)) (nr_alternatives rg)"

section \<open>The order of versions\<close>

datatype release = Release nat nat nat

instantiation release :: linorder
begin

fun less_eq_release :: "release \<Rightarrow> release \<Rightarrow> bool" where
  "Release a b c \<le> Release x y z \<longleftrightarrow> a < x \<or> a = x \<and> (b < y \<or> b = y \<and> c \<le> z)"

definition less_release :: "release \<Rightarrow> release \<Rightarrow> bool" where
  "less_release u v \<longleftrightarrow> u \<le> v \<and> \<not> v \<le> u"

instance
proof
  fix u v w :: release
  show "(u < v) = (u \<le> v \<and> \<not> v \<le> u)" by (simp add: less_release_def)
  show "u \<le> u" by (cases u) simp
  show "u \<le> v \<Longrightarrow> v \<le> w \<Longrightarrow> u \<le> w" by (cases u; cases v; cases w) auto
  show "u \<le> v \<Longrightarrow> v \<le> u \<Longrightarrow> u = v" by (cases u; cases v) auto
  show "u \<le> v \<or> v \<le> u" by (cases u; cases v) auto
qed

end

definition release_of :: "toolchain_version \<Rightarrow> release" where
  "release_of v = Release (tv_major v) (tv_minor v) (tv_patch v)"

section \<open>Lemmas\<close>

lemma compare_release:
  "compareToolchainVersions l r < 0 \<longleftrightarrow> release_of l < release_of r"
  "compareToolchainVersions l r \<le> 0 \<longleftrightarrow> release_of l \<le> release_of r"
  "compareToolchainVersions l r = 0 \<longleftrightarrow> release_of l = release_of r"
  "0 < compareToolchainVersions l r \<longleftrightarrow> release_of r < release_of l"
  "0 \<le> compareToolchainVersions l r \<longleftrightarrow> release_of r \<le> release_of l"
  by (auto simp: compareToolchainVersions_def release_of_def less_release_def)

lemma digit_char_value: "js_is_digit c \<Longrightarrow> digit_char (digit_value c) = c"
  by (auto simp: js_is_digit_def digit_char_def digit_value_def code_unit_def)

lemma digit_value_less: "js_is_digit c \<Longrightarrow> digit_value c < 10"
  by (auto simp: js_is_digit_def digit_value_def)

lemma digit_value_pos: "js_is_digit c \<Longrightarrow> c \<noteq> CHR ''0'' \<Longrightarrow> 0 < digit_value c"
proof -
  assume d: "js_is_digit c" "c \<noteq> CHR ''0''"
  have "code_unit c \<noteq> code_unit (CHR ''0'')" using d(2) by (simp only: code_unit_inject) simp
  then show ?thesis using d(1) by (simp add: js_is_digit_def digit_value_def code_unit_def)
qed

lemma nat_of_digits_pos: "s \<noteq> [] \<Longrightarrow> list_all js_is_digit s \<Longrightarrow> hd s \<noteq> CHR ''0'' \<Longrightarrow> 0 < nat_of_digits s"
proof (induction s rule: rev_induct)
  case (snoc c t)
  then show ?case by (cases t) (auto simp: digit_value_pos nat_of_digits_def)
qed simp

lemma digits_of_component:
  assumes "version_component s"
  shows "digits_of_nat (nat_of_digits s) = s"
proof -
  have "s \<noteq> [] \<Longrightarrow> list_all js_is_digit s \<Longrightarrow> hd s \<noteq> CHR ''0'' \<Longrightarrow> ?thesis"
  proof (induction s rule: rev_induct)
    case (snoc c t)
    have c: "js_is_digit c" "digit_value c < 10" using snoc.prems by (auto simp: digit_value_less)
    show ?case
    proof (cases "t = []")
      case True
      then show ?thesis using c by (simp add: nat_of_digits_def digits_of_nat.simps [of "digit_value c"] digit_char_value)
    next
      case False
      then have t: "list_all js_is_digit t" "hd t \<noteq> CHR ''0''" using snoc.prems by auto
      have pos: "0 < nat_of_digits t" by (rule nat_of_digits_pos [OF False t])
      have "digits_of_nat (nat_of_digits t) = t" using snoc.IH False t by simp
      with pos c show ?thesis by (simp add: digits_of_nat.simps [of "10 * nat_of_digits t + digit_value c"] digit_char_value)
    qed
  qed simp
  moreover have "digits_of_nat (nat_of_digits ''0'') = ''0''" by code_simp
  ultimately show ?thesis using assms unfolding version_component_def by metis
qed

lemma component_digits: "version_component (digits_of_nat n)"
proof (cases "n = 0")
  case True
  moreover have "version_component (digits_of_nat 0)" by code_simp
  ultimately show ?thesis by simp
next
  case False
  then have "code_unit (hd (digits_of_nat n)) \<noteq> 48" by (rule digits_of_nat_hd_zero)
  then have "hd (digits_of_nat n) \<noteq> CHR ''0''" by (auto simp: code_unit_def)
  then show ?thesis by (simp add: version_component_def digits_of_nat_digits)
qed

lemma component_no_dot: "version_component s \<Longrightarrow> CHR ''.'' \<notin> set s"
  by (auto simp: version_component_def list_all_iff js_is_digit_def code_unit_def)

definition exact_version :: "nat \<Rightarrow> nat \<Rightarrow> nat \<Rightarrow> toolchain_version" where
  "exact_version a b c = \<lparr>tv_major = a, tv_minor = b, tv_patch = c, tv_text = version_text a b c\<rparr>"

lemma version_text_join: "version_text a b c = js_join ''.'' (map digits_of_nat [a, b, c])"
  by (simp add: version_text_def)

lemma split_version_text: "js_split (CHR ''.'') (version_text a b c) = map digits_of_nat [a, b, c]"
  unfolding version_text_join by (rule js_split_join) (auto simp: component_no_dot component_digits)

lemma parse_version_text:
  assumes "list_all safe_component [a, b, c]"
  shows "parseToolchainVersion (version_text a b c) = Inr (exact_version a b c)"
  using assms by (simp add: parseToolchainVersion_def split_version_text component_digits createVersion_def exact_version_def)

lemma parse_version_Inr:
  assumes "parseToolchainVersion s = Inr v"
  shows "v = exact_version (tv_major v) (tv_minor v) (tv_patch v) \<and> s = tv_text v \<and>
    list_all safe_component [tv_major v, tv_minor v, tv_patch v]"
proof -
  obtain a b c where sp: "js_split (CHR ''.'') s = [a, b, c]"
    using assms by (auto simp: parseToolchainVersion_def fail_with_def split: list.splits)
  then have comp: "version_component a" "version_component b" "version_component c"
    using assms by (auto simp: parseToolchainVersion_def fail_with_def split: if_splits)
  have "s = js_join ''.'' [a, b, c]" using js_join_split [of "CHR ''.''" s] sp by simp
  moreover have "v = exact_version (nat_of_digits a) (nat_of_digits b) (nat_of_digits c)"
    "list_all safe_component [nat_of_digits a, nat_of_digits b, nat_of_digits c]"
    using assms sp comp by (auto simp: parseToolchainVersion_def createVersion_def exact_version_def fail_with_def Let_def split: if_splits)
  ultimately show ?thesis by (simp add: exact_version_def version_text_def digits_of_component comp)
qed

lemma line_of_append:
  assumes "\<forall>c \<in> set s. c \<noteq> cr \<and> c \<noteq> lf" "s \<noteq> []" "e \<in> set [[], [cr], [lf], [cr, lf]]"
  shows "line_of (s @ e) = Some (s, e)"
proof -
  have "takeWhile (\<lambda>c. c \<noteq> cr \<and> c \<noteq> lf) (s @ e) = s @ takeWhile (\<lambda>c. c \<noteq> cr \<and> c \<noteq> lf) e"
    "dropWhile (\<lambda>c. c \<noteq> cr \<and> c \<noteq> lf) (s @ e) = dropWhile (\<lambda>c. c \<noteq> cr \<and> c \<noteq> lf) e"
    using assms(1) by (simp_all add: takeWhile_append2 dropWhile_append2)
  moreover have "takeWhile (\<lambda>c. c \<noteq> cr \<and> c \<noteq> lf) e = []" "dropWhile (\<lambda>c. c \<noteq> cr \<and> c \<noteq> lf) e = e"
    using assms(3) by auto
  ultimately show ?thesis using assms(2,3) by (simp add: line_of_def Let_def)
qed

lemma version_text_line: "\<forall>x \<in> set (version_text a b c). x \<noteq> cr \<and> x \<noteq> lf"
proof -
  have "x \<noteq> cr \<and> x \<noteq> lf" if "x \<in> set (digits_of_nat n)" for x n
    using digits_of_nat_digits [of n] that by (auto simp: list_all_iff js_is_digit_def code_unit_def)
  then show ?thesis by (auto simp: version_text_def)
qed

lemma version_text_not_Nil [simp]: "version_text a b c \<noteq> []"
  by (simp add: version_text_def)

section \<open>Properties\<close>

text \<open>
  Version text is canonical. \<open>parseToolchainVersion\<close> accepts exactly the texts \<open>major.minor.patch\<close>
  of safe integers without leading zeros, and gives back the version with that very text; the version
  lines \<open>v<text>\<close> of Node and \<open><text>\<close> of pnpm, with any line end, give the same version, as does
  \<open>pnpm@<text>\<close>.
\<close>

lemma toolchain_version_roundtrip:
  "((\<exists>v. parseToolchainVersion s = Inr v) =
     (\<exists>a b c. list_all safe_component [a, b, c] \<and> s = version_text a b c \<and>
        parseToolchainVersion s = Inr (exact_version a b c) \<and>
        parseNodeVersionOutput (''v'' @ s @ [cr, lf]) = Inr (exact_version a b c) \<and>
        parseNodeVersionOutput (''v'' @ s @ [lf]) = Inr (exact_version a b c) \<and>
        parsePnpmVersionOutput (s @ [cr, lf]) = Inr (exact_version a b c) \<and>
        parsePnpmVersionOutput s = Inr (exact_version a b c) \<and>
        parsePnpmPackageManagerDeclaration (''pnpm@'' @ s) = Inr (''pnpm@'' @ s, exact_version a b c)))"
proof
  assume "\<exists>v. parseToolchainVersion s = Inr v"
  then obtain v where v: "parseToolchainVersion s = Inr v" by blast
  define a b c where "a = tv_major v" and "b = tv_minor v" and "c = tv_patch v"
  have s: "s = version_text a b c" "list_all safe_component [a, b, c]" "v = exact_version a b c"
    using parse_version_Inr [OF v] unfolding a_def b_def c_def
    by (simp_all add: exact_version_def) (metis toolchain_version.select_convs(4))
  have chars: "\<not> js_is_space x \<and> x \<noteq> CHR ''@''" if "x \<in> set s" for x
  proof -
    have "x = CHR ''.'' \<or> js_is_digit x"
      using that digits_of_nat_digits by (auto simp: s(1) version_text_def list_all_iff)
    then show ?thesis by (auto simp: js_is_digit_def js_is_space_def code_unit_def)
  qed
  have lines: "line_of (s @ e) = Some (s, e)" if "e \<in> set [[], [cr], [lf], [cr, lf]]" for e
    using line_of_append [OF version_text_line _ that, of a b c] by (simp add: s(1))
  have "parsePnpmPackageManagerDeclaration (''pnpm@'' @ s) = Inr (''pnpm@'' @ s, v)"
    using v chars s by (auto simp: parsePnpmPackageManagerDeclaration_def Let_def list_all_iff exact_version_def)
  then show "\<exists>a b c. list_all safe_component [a, b, c] \<and> s = version_text a b c \<and>
        parseToolchainVersion s = Inr (exact_version a b c) \<and>
        parseNodeVersionOutput (''v'' @ s @ [cr, lf]) = Inr (exact_version a b c) \<and>
        parseNodeVersionOutput (''v'' @ s @ [lf]) = Inr (exact_version a b c) \<and>
        parsePnpmVersionOutput (s @ [cr, lf]) = Inr (exact_version a b c) \<and>
        parsePnpmVersionOutput s = Inr (exact_version a b c) \<and>
        parsePnpmPackageManagerDeclaration (''pnpm@'' @ s) = Inr (''pnpm@'' @ s, exact_version a b c)"
    using v s lines [of "[cr, lf]"] lines [of "[lf]"] lines [of "[]"]
    by (intro exI [of _ a] exI [of _ b] exI [of _ c]) (simp add: parseNodeVersionOutput_def parsePnpmVersionOutput_def)
qed blast

section \<open>The meaning of a range\<close>

definition components :: "toolchain_version \<Rightarrow> nat list" where
  "components v = [tv_major v, tv_minor v, tv_patch v]"

fun lead :: "nat list \<Rightarrow> nat" where
  \<comment> \<open>how many components a caret range fixes: up to the leftmost non-zero one, all of them if there is none\<close>
  "lead [] = 0"
| "lead (n # ns) = (if n \<noteq> 0 then 1 else Suc (lead ns))"

definition agree :: "nat \<Rightarrow> toolchain_version \<Rightarrow> toolchain_version \<Rightarrow> bool" where
  "agree k v w \<longleftrightarrow> take k (components v) = take k (components w)"

definition admits :: "comparator \<Rightarrow> toolchain_version \<Rightarrow> bool" where
  "admits c v =
     (let w = nc_version c in
      case nc_operator c of
        Gt \<Rightarrow> release_of w < release_of v
      | Ge \<Rightarrow> release_of w \<le> release_of v
      | Lt \<Rightarrow> release_of v < release_of w
      | Le \<Rightarrow> release_of v \<le> release_of w
      | Eq \<Rightarrow> agree (nc_precision c) v w
      | Caret \<Rightarrow> release_of w \<le> release_of v \<and> agree (lead (take (nc_precision c) (components w))) v w
      | Tilde \<Rightarrow> release_of w \<le> release_of v \<and> agree (min 2 (nc_precision c)) v w)"

definition comparator_ok :: "comparator \<Rightarrow> bool" where
  "comparator_ok c \<longleftrightarrow> nc_precision c \<in> {1, 2, 3} \<and>
     (\<forall>n \<in> set (drop (nc_precision c) (components (nc_version c))). n = 0)"

definition increments_safely :: "comparator \<Rightarrow> bool" where
  "increments_safely c = list_all (\<lambda>n. safe_component (n + 1)) (components (nc_version c))"

lemma safe_component_less: "safe_component n \<Longrightarrow> m \<le> n \<Longrightarrow> safe_component m"
  by (auto simp: safe_component_def is_safe_integer_def)

lemma safe_component_0 [simp]: "safe_component 0"
  by (simp add: safe_component_def is_safe_integer_def max_safe_integer_def)

lemma versionAt_safe:
  "safe_component a \<Longrightarrow> safe_component b \<Longrightarrow> safe_component c \<Longrightarrow> versionAt a b c = Inr (exact_version a b c)"
  by (simp add: versionAt_def exact_version_def)

lemma within_Inr [simp]:
  "within (compareToolchainVersions v w) v (Inr b) = Inr (release_of w \<le> release_of v \<and> release_of v < release_of b)"
  by (simp add: within_def compare_release)

lemma less_release_alt: "Release a b c < Release x y z \<longleftrightarrow> a < x \<or> a = x \<and> (b < y \<or> b = y \<and> c < z)"
  by (auto simp: less_release_def)

lemma bounds_Inr:
  assumes "increments_safely c" "comparator_ok c"
  shows "nextPartialVersion c = Inr (if nc_precision c = 1 then exact_version (tv_major (nc_version c) + 1) 0 0
        else if nc_precision c = 2 then exact_version (tv_major (nc_version c)) (tv_minor (nc_version c) + 1) 0
        else nc_version c)"
    and "caretUpperBound c = Inr (if nc_precision c = 1 \<or> tv_major (nc_version c) > 0 then exact_version (tv_major (nc_version c) + 1) 0 0
        else if nc_precision c = 2 \<or> tv_minor (nc_version c) > 0
        then exact_version (tv_major (nc_version c)) (tv_minor (nc_version c) + 1) 0
        else exact_version (tv_major (nc_version c)) (tv_minor (nc_version c)) (tv_patch (nc_version c) + 1))"
    and "tildeUpperBound c = Inr (if nc_precision c = 1 then exact_version (tv_major (nc_version c) + 1) 0 0
        else exact_version (tv_major (nc_version c)) (tv_minor (nc_version c) + 1) 0)"
proof -
  have s: "safe_component (Suc (tv_major (nc_version c)))" "safe_component (Suc (tv_minor (nc_version c)))"
    "safe_component (Suc (tv_patch (nc_version c)))"
    using assms(1) by (simp_all add: increments_safely_def components_def)
  then have "safe_component (tv_major (nc_version c))" "safe_component (tv_minor (nc_version c))"
    by (auto elim: safe_component_less)
  with s show "nextPartialVersion c = Inr (if nc_precision c = 1 then exact_version (tv_major (nc_version c) + 1) 0 0
        else if nc_precision c = 2 then exact_version (tv_major (nc_version c)) (tv_minor (nc_version c) + 1) 0
        else nc_version c)"
    "caretUpperBound c = Inr (if nc_precision c = 1 \<or> tv_major (nc_version c) > 0 then exact_version (tv_major (nc_version c) + 1) 0 0
        else if nc_precision c = 2 \<or> tv_minor (nc_version c) > 0
        then exact_version (tv_major (nc_version c)) (tv_minor (nc_version c) + 1) 0
        else exact_version (tv_major (nc_version c)) (tv_minor (nc_version c)) (tv_patch (nc_version c) + 1))"
    "tildeUpperBound c = Inr (if nc_precision c = 1 then exact_version (tv_major (nc_version c) + 1) 0 0
        else exact_version (tv_major (nc_version c)) (tv_minor (nc_version c) + 1) 0)"
    by (simp_all add: nextPartialVersion_def caretUpperBound_def tildeUpperBound_def Let_def versionAt_safe)
qed

lemma satisfies_comparator:
  assumes "comparator_ok c" "increments_safely c"
  shows "nodeVersionSatisfiesComparator v c = Inr (admits c v)"
proof -
  note b = bounds_Inr [OF assms(2,1)]
  have p: "nc_precision c = 1 \<or> nc_precision c = 2 \<or> nc_precision c = 3" using assms(1) by (auto simp: comparator_ok_def)
  have z: "nc_precision c = 1 \<Longrightarrow> tv_minor (nc_version c) = 0 \<and> tv_patch (nc_version c) = 0"
    "nc_precision c = 2 \<Longrightarrow> tv_patch (nc_version c) = 0"
    using assms(1) by (auto simp: comparator_ok_def components_def numeral_2_eq_2)
  obtain x y z' where w: "tv_major (nc_version c) = x" "tv_minor (nc_version c) = y" "tv_patch (nc_version c) = z'" by blast
  obtain a d e where v: "tv_major v = a" "tv_minor v = d" "tv_patch v = e" by blast
  note simps = nodeVersionSatisfiesComparator_def b Let_def admits_def compare_release agree_def components_def
    release_of_def exact_version_def less_release_alt numeral_2_eq_2 numeral_3_eq_3 w v
  show ?thesis
  proof (cases "nc_operator c")
    case Eq
    then show ?thesis using p z unfolding w
      by (elim disjE) (auto simp: simps)
  next
    case Caret
    then show ?thesis using p z unfolding w
      by (elim disjE; cases x; cases y) (auto simp: simps)
  next
    case Tilde
    then show ?thesis using p z unfolding w
      by (elim disjE) (auto simp: simps)
  qed (simp_all add: nodeVersionSatisfiesComparator_def Let_def admits_def compare_release)
qed

lemma parsePartialVersion_ok:
  assumes "parsePartialVersion s = Inr (v, p)"
  shows "p \<in> {1, 2, 3} \<and> (\<forall>n \<in> set (drop p (components v)). n = 0)"
proof -
  let ?parts = "js_split (CHR ''.'') s"
  have len: "length ?parts \<le> 3" "p = length ?parts" using assms
    by (auto simp: parsePartialVersion_def fail_with_def Let_def bind_result_Inr split: if_splits)
  have "0 < length ?parts" by simp
  then have pp: "p = 1 \<or> p = 2 \<or> p = 3" using len by arith
  have z: "nat_of_digits ''0'' = 0" by code_simp
  have "components v = map nat_of_digits (map (\<lambda>i. if i < length ?parts then ?parts ! i else ''0'') [0, 1, 2])"
    using assms by (auto simp: parsePartialVersion_def fail_with_def Let_def bind_result_Inr createVersion_def
        components_def split: if_splits)
  with pp z len(2) show ?thesis by (auto simp: numeral_2_eq_2 numeral_3_eq_3)
qed

lemma parseNodeComparator_ok: "parseNodeComparator s = Inr c \<Longrightarrow> comparator_ok c"
  using parsePartialVersion_ok
  by (fastforce simp: parseNodeComparator_def comparator_ok_def fail_with_def Let_def bind_result_Inr
      split: prod.splits if_splits)

lemma every_result_Inr: "(\<And>x. x \<in> set xs \<Longrightarrow> f x = Inr (P x)) \<Longrightarrow> every_result f xs = Inr (\<forall>x \<in> set xs. P x)"
  by (induction xs) auto

lemma some_result_Inr: "(\<And>x. x \<in> set xs \<Longrightarrow> f x = Inr (P x)) \<Longrightarrow> some_result f xs = Inr (\<exists>x \<in> set xs. P x)"
  by (induction xs) auto

lemma traverse_members: "traverse_result f xs = Inr ys \<Longrightarrow> y \<in> set ys \<Longrightarrow> \<exists>x \<in> set xs. f x = Inr y"
  by (induction xs arbitrary: ys) (auto simp: bind_result_Inr)

lemma parsed_range_ok:
  assumes "parseNodeVersionRange s = Inr rg" "alt \<in> set (nr_alternatives rg)"
  shows "length alt \<le> 16 \<and> (\<forall>c \<in> set alt. comparator_ok c)"
proof -
  obtain src where "parse_alternative src = Inr alt"
    using assms traverse_members by (fastforce simp: parseNodeVersionRange_def fail_with_def bind_result_Inr split: if_splits)
  then have tr: "traverse_result parseNodeComparator (js_words (js_trim src)) = Inr alt" and len: "length alt \<le> 16"
    by (auto simp: parse_alternative_def fail_with_def bind_result_Inr Let_def split: if_splits)
  from len traverse_members [OF tr] parseNodeComparator_ok show ?thesis by meson
qed

text \<open>
  (C32) \<open>engines.node\<close>. A version satisfies a parsed range exactly when one alternative admits it in all its
  comparators: \<open>=\<close> with a partial version fixes the given components, \<open>~\<close> fixes major and minor, \<open>^\<close> fixes
  everything up to the leftmost non-zero component, and both are bounded below by the given version.
  The only way the check can throw is a component at the largest safe integer.
\<close>

theorem node_range_semantics:
  assumes "parseNodeVersionRange s = Inr rg"
    and "\<forall>alt \<in> set (nr_alternatives rg). \<forall>c \<in> set alt. increments_safely c"
  shows "nodeVersionSatisfiesRange v rg =
     Inr (\<exists>alt \<in> set (nr_alternatives rg). \<forall>c \<in> set alt. admits c v)"
  unfolding nodeVersionSatisfiesRange_def
proof (rule some_result_Inr)
  fix alt assume alt: "alt \<in> set (nr_alternatives rg)"
  show "every_result (nodeVersionSatisfiesComparator v) alt = Inr (\<forall>c \<in> set alt. admits c v)"
    by (rule every_result_Inr) (use parsed_range_ok [OF assms(1) alt] assms(2) alt satisfies_comparator in auto)
qed

theorem node_range_semantics_witness:
  "\<exists>rg. parseNodeVersionRange ''^1.2 || >=3.0.0 <4.0.0'' = Inr rg \<and>
     nodeVersionSatisfiesRange (exact_version 1 3 0) rg =
       Inr (\<exists>alt \<in> set (nr_alternatives rg). \<forall>c \<in> set alt. admits c (exact_version 1 3 0))"
proof -
  let ?s = "''^1.2 || >=3.0.0 <4.0.0''"
  have "case parseNodeVersionRange ?s of Inl _ \<Rightarrow> False
      | Inr rg \<Rightarrow> list_all (list_all (\<lambda>c. list_all (\<lambda>n. n < 10) (components (nc_version c)))) (nr_alternatives rg)"
    by code_simp
  then obtain rg where rg: "parseNodeVersionRange ?s = Inr rg"
    and small: "list_all (list_all (\<lambda>c. list_all (\<lambda>n. n < 10) (components (nc_version c)))) (nr_alternatives rg)"
    by (auto split: sum.splits)
  have "safe_component (n + 1)" if "n < 10" for n
    using that by (simp add: safe_component_def is_safe_integer_def max_safe_integer_def)
  then have "\<forall>alt \<in> set (nr_alternatives rg). \<forall>c \<in> set alt. increments_safely c"
    using small by (auto simp: list_all_iff increments_safely_def)
  from node_range_semantics [OF rg this, of "exact_version 1 3 0"] rg show ?thesis by blast
qed

end
