(* ===== verification/Launcher_Update.thy ===== *)
theory Launcher_Update
  imports Semver
begin

text \<open>
  \<open>electron/main/launcher-update-service.ts\<close> with the state of \<open>src/shared/contracts.ts\<close>: discovery of the
  latest release, validation of its metadata and URLs, and the download and handoff of the installer.
  The service is split where the code awaits: a request, a download or the opening of an installer in
  flight is part of the state, and its settling is a step of its own. The platform's URL parser is a
  parameter. Release notes are modelled with a flag for the ellipsis appended to a cut text.
\<close>

section \<open>Errors and URLs\<close>

record update_error =
  ue_code :: string
  ue_message :: string

definition update_fail :: "string \<Rightarrow> string \<Rightarrow> update_error + 'a" where
  "update_fail code msg = Inl \<lparr>ue_code = code, ue_message = msg\<rparr>"

definition invalidResponse :: "update_error + 'a" where
  "invalidResponse = update_fail ''launcher.update_response_invalid'' ''The latest Launcher release response is invalid.''"

record parsed_url =
  url_origin :: string
  url_username :: string
  url_password :: string
  url_search :: string
  url_hash :: string
  url_pathname :: string

type_synonym url_parser = "string \<Rightarrow> parsed_url option"  \<comment> \<open>\<open>new URL(text)\<close>; \<open>None\<close> when it throws\<close>

definition GITHUB_ORIGIN :: string where "GITHUB_ORIGIN = ''https://github.com''"
definition RELEASE_PATH_PREFIX :: string where "RELEASE_PATH_PREFIX = ''/ankye/dshker/releases''"
definition RELEASE_NOTES_LIMIT :: nat where "RELEASE_NOTES_LIMIT = 4000"

definition parseHttpsGithubUrl :: "url_parser \<Rightarrow> string \<Rightarrow> string \<Rightarrow> update_error + parsed_url" where
  "parseHttpsGithubUrl new_url rawUrl code =
     (case new_url rawUrl of
        None \<Rightarrow> update_fail code ''The GitHub release URL is invalid.''
      | Some url \<Rightarrow>
         (if url_origin url \<noteq> GITHUB_ORIGIN \<or> url_username url \<noteq> [] \<or> url_password url \<noteq> [] \<or>
             url_search url \<noteq> [] \<or> url_hash url \<noteq> []
          then update_fail code ''The GitHub release URL is invalid.''
          else Inr url))"

definition validateReleasePageUrl :: "url_parser \<Rightarrow> string \<Rightarrow> string \<Rightarrow> update_error + unit" where
  "validateReleasePageUrl new_url rawUrl tag =
     bind_result (parseHttpsGithubUrl new_url rawUrl ''launcher.update_release_url_invalid'') (\<lambda>url.
       if url_pathname url \<noteq> RELEASE_PATH_PREFIX @ ''/tag/'' @ tag
       then update_fail ''launcher.update_release_url_invalid''
              ''The release page URL does not identify the selected Launcher release.''
       else Inr ())"

definition validateInstallerUrl :: "url_parser \<Rightarrow> string \<Rightarrow> string \<Rightarrow> string \<Rightarrow> update_error + unit" where
  "validateInstallerUrl new_url rawUrl tag assetName =
     bind_result (parseHttpsGithubUrl new_url rawUrl ''launcher.update_asset_url_invalid'') (\<lambda>url.
       if url_pathname url \<noteq> RELEASE_PATH_PREFIX @ ''/download/'' @ tag @ ''/'' @ assetName
       then update_fail ''launcher.update_asset_url_invalid''
              ''The installer URL does not identify the selected Launcher asset.''
       else Inr ())"

section \<open>Versions and assets\<close>

definition parseVersion :: "string \<Rightarrow> update_error + nat list" where
  "parseVersion version =
     (let parts = js_split (CHR ''.'') version in
      if length parts = 3 \<and> list_all version_component parts then
        (let values = map nat_of_digits parts in
         if list_all safe_component values then Inr values
         else update_fail ''launcher.update_response_invalid''
                (''Launcher version '' @ version @ '' exceeds the supported numeric range.''))
      else update_fail ''launcher.update_response_invalid'' (''Launcher version '' @ version @ '' is invalid.''))"

fun compare_parts :: "nat list \<Rightarrow> nat list \<Rightarrow> int" where
  "compare_parts (l # ls) (r # rs) = (if l \<noteq> r then (if l > r then 1 else -1) else compare_parts ls rs)"
| "compare_parts _ _ = 0"

definition compareLauncherVersions :: "string \<Rightarrow> string \<Rightarrow> update_error + int" where
  "compareLauncherVersions left right =
     bind_result (parseVersion left) (\<lambda>l. bind_result (parseVersion right) (\<lambda>r. Inr (compare_parts l r)))"

definition launcherInstallerTargetSuffix :: "string \<Rightarrow> string \<Rightarrow> update_error + string" where
  "launcherInstallerTargetSuffix platform arch =
     (if platform = ''darwin'' \<and> arch = ''arm64'' then Inr ''mac-arm64.dmg''
      else if platform = ''darwin'' \<and> arch = ''x64'' then Inr ''mac-x64.dmg''
      else if platform = ''win32'' \<and> arch = ''x64'' then Inr ''win-x64.exe''
      else if platform = ''win32'' \<and> arch = ''arm64'' then Inr ''win-arm64.exe''
      else update_fail ''launcher.update_platform_unsupported''
             (''Launcher updates do not support '' @ platform @ ''-'' @ arch @ ''.''))"

definition createInstallerAssetName :: "string \<Rightarrow> string \<Rightarrow> update_error + string" where
  "createInstallerAssetName version suffx =
     bind_result (parseVersion version) (\<lambda>_. Inr (''dshker-launcher-'' @ version @ ''-'' @ suffx))"

definition expectedLauncherInstallerAssetName :: "string \<Rightarrow> string \<Rightarrow> string \<Rightarrow> update_error + string" where
  "expectedLauncherInstallerAssetName platform arch version =
     bind_result (launcherInstallerTargetSuffix platform arch) (createInstallerAssetName version)"

section \<open>The release response\<close>

record release_asset =
  as_name :: string
  as_downloadUrl :: string

record parsed_release =
  pr_tag :: string
  pr_version :: string
  pr_releasePageUrl :: string
  pr_notes :: "(string \<times> bool) option"
  pr_assets :: "release_asset list"

fun isRecord :: "js_value \<Rightarrow> bool" where
  "isRecord (JObj _) = True"
| "isRecord _ = False"

definition stable_tag :: "string \<Rightarrow> bool" where
  \<comment> \<open>\<open>/^v(?:0|[1-9]\d*)\.(?:0|[1-9]\d*)\.(?:0|[1-9]\d*)$/\<close>\<close>
  "stable_tag tag =
     (case tag of [] \<Rightarrow> False
      | c # rest \<Rightarrow> c = CHR ''v'' \<and>
          (let parts = js_split (CHR ''.'') rest in length parts = 3 \<and> list_all version_component parts))"

fun unify_newlines :: "string \<Rightarrow> string" where
  \<comment> \<open>\<open>.replace(/\r\n?/gu, '\n')\<close>\<close>
  "unify_newlines [] = []"
| "unify_newlines [a] = [if a = cr then lf else a]"
| "unify_newlines (a # b # s) =
     (if a = cr then (if b = lf then lf # unify_newlines s else lf # unify_newlines (b # s))
      else a # unify_newlines (b # s))"

definition stripped_control :: "char \<Rightarrow> bool" where
  "stripped_control c \<longleftrightarrow>
     (let u = code_unit c in u \<le> 8 \<or> u = 11 \<or> u = 12 \<or> (14 \<le> u \<and> u \<le> 31) \<or> (127 \<le> u \<and> u \<le> 159))"

fun collapse_blank :: "nat \<Rightarrow> string \<Rightarrow> string" where
  \<comment> \<open>\<open>.replace(/\n{3,}/gu, '\n\n')\<close>, \<open>k\<close> newlines read so far\<close>
  "collapse_blank k [] = []"
| "collapse_blank k (c # s) =
     (if c = lf then (if k < 2 then c # collapse_blank (Suc k) s else collapse_blank (Suc k) s)
      else c # collapse_blank 0 s)"

definition parseReleaseNotes :: "js_value \<Rightarrow> (string \<times> bool) option" where
  "parseReleaseNotes v =
     (case v of
        JStr s \<Rightarrow>
         (let normalized = js_trim (collapse_blank 0 (filter (\<lambda>c. \<not> stripped_control c) (unify_newlines s)))
          in if normalized = [] then None
             else if length normalized > RELEASE_NOTES_LIMIT
                  then Some (js_trim_end (take RELEASE_NOTES_LIMIT normalized), True)
                  else Some (normalized, False))
      | _ \<Rightarrow> None)"

definition parse_asset :: "js_value \<Rightarrow> update_error + release_asset" where
  "parse_asset asset =
     (case (isRecord asset, js_field asset ''name'', js_field asset ''browser_download_url'') of
        (True, JStr name, JStr url) \<Rightarrow> Inr \<lparr>as_name = name, as_downloadUrl = url\<rparr>
      | _ \<Rightarrow> invalidResponse)"

definition parseLatestRelease :: "url_parser \<Rightarrow> js_value \<Rightarrow> update_error + parsed_release" where
  "parseLatestRelease new_url payload =
     (case (isRecord payload, js_field payload ''assets'', js_field payload ''tag_name'',
            js_field payload ''draft'', js_field payload ''prerelease'', js_field payload ''html_url'') of
        (True, JArr assets, JStr tag, JBool draft, JBool prerelease, JStr html_url) \<Rightarrow>
         (if draft \<or> prerelease \<or> \<not> stable_tag tag then
            update_fail ''launcher.update_release_unsupported''
              ''The latest GitHub release is not a stable Launcher release.''
          else
            bind_result (parseVersion (drop 1 tag)) (\<lambda>_.
            bind_result (validateReleasePageUrl new_url html_url tag) (\<lambda>_.
            bind_result (traverse_result parse_asset assets) (\<lambda>parsed.
              Inr \<lparr>pr_tag = tag, pr_version = drop 1 tag, pr_releasePageUrl = html_url,
                   pr_notes = parseReleaseNotes (js_field payload ''body''), pr_assets = parsed\<rparr>))))
      | _ \<Rightarrow> invalidResponse)"

definition selectInstallerAsset :: "url_parser \<Rightarrow> parsed_release \<Rightarrow> string \<Rightarrow> update_error + release_asset" where
  "selectInstallerAsset new_url release expectedName =
     (case filter (\<lambda>a. as_name a = expectedName) (pr_assets release) of
        [] \<Rightarrow> update_fail ''launcher.update_asset_missing''
                (''The release does not contain '' @ expectedName @ ''.'')
      | [selected] \<Rightarrow>
          bind_result (validateInstallerUrl new_url (as_downloadUrl selected) (pr_tag release) expectedName)
            (\<lambda>_. Inr selected)
      | _ \<Rightarrow> update_fail ''launcher.update_asset_ambiguous''
               (''The release contains more than one '' @ expectedName @ ''.''))"

datatype fetch_outcome =
    FetchThrows
  | FetchHttp string          \<comment> \<open>not \<open>ok\<close>, the status as text\<close>
  | FetchBadJson
  | FetchPayload js_value

definition fetchLatestRelease :: "url_parser \<Rightarrow> fetch_outcome \<Rightarrow> update_error + parsed_release" where
  "fetchLatestRelease new_url outcome =
     (case outcome of
        FetchThrows \<Rightarrow> update_fail ''launcher.update_network_failed''
                         ''The latest Launcher release could not be requested.''
      | FetchHttp status \<Rightarrow> update_fail ''launcher.update_http_failed''
                         (''The latest Launcher release request returned HTTP '' @ status @ ''.'')
      | FetchBadJson \<Rightarrow> update_fail ''launcher.update_response_invalid''
                         ''The latest Launcher release response is not valid JSON.''
      | FetchPayload payload \<Rightarrow> parseLatestRelease new_url payload)"

section \<open>The service\<close>

datatype download_state =
    DownloadIdle
  | Downloading nat "nat option"
  | Downloaded
  | HandoffFailed string
  | DownloadFailed string

record available_update =
  au_latestVersion :: string
  au_assetName :: string
  au_releasePageUrl :: string
  au_releaseNotes :: "(string \<times> bool) option"
  au_download :: download_state
  au_checkedAt :: string

datatype update_state =  \<comment> \<open>every state also carries the constant \<open>currentVersion\<close>\<close>
    UpdateIdle
  | Checking
  | UpToDate string string
  | UpdateAvailable available_update
  | UpdateFailed string string

record update_env =
  ue_currentVersion :: string
  ue_platform :: string
  ue_arch :: string
  ue_new_url :: url_parser

datatype download_phase = Fetching | Opening

record download_run =
  dr_update :: available_update
  dr_generation :: nat
  dr_phase :: download_phase

record update_service =
  us_state :: update_state
  us_pendingCheck :: "string option"           \<comment> \<open>\<open>checkedAt\<close> of the check in flight\<close>
  us_pendingDownload :: "download_run option"
  us_cachedInstallerUrl :: "string option"
  us_generation :: nat
  us_downloads :: "(string \<times> available_update) list"  \<comment> \<open>downloads started: URL and update\<close>
  us_opened :: "available_update list"         \<comment> \<open>installers handed to the system\<close>
  us_quits :: nat

definition new_service :: "update_env \<Rightarrow> update_error + update_service" where
  "new_service env =
     bind_result (parseVersion (ue_currentVersion env)) (\<lambda>_.
       Inr \<lparr>us_state = UpdateIdle, us_pendingCheck = None, us_pendingDownload = None,
            us_cachedInstallerUrl = None, us_generation = 0, us_downloads = [], us_opened = [], us_quits = 0\<rparr>)"

definition check :: "update_env \<Rightarrow> string \<Rightarrow> update_service \<Rightarrow> update_service" where
  \<comment> \<open>\<open>check\<close> up to the request; an unsupported platform fails before it\<close>
  "check env now s =
     (if us_pendingCheck s \<noteq> None then s
      else
        (let s1 = s\<lparr>us_generation := Suc (us_generation s), us_cachedInstallerUrl := None, us_state := Checking\<rparr>
         in case launcherInstallerTargetSuffix (ue_platform env) (ue_arch env) of
              Inl e \<Rightarrow> s1\<lparr>us_state := UpdateFailed (ue_code e) now\<rparr>
            | Inr _ \<Rightarrow> s1\<lparr>us_pendingCheck := Some now\<rparr>))"

definition check_result ::
  "update_env \<Rightarrow> string \<Rightarrow> fetch_outcome \<Rightarrow> update_error + (update_state \<times> string option)" where
  \<comment> \<open>the \<open>try\<close> body of \<open>performCheck\<close>: the next state and, for a newer release, the installer URL\<close>
  "check_result env checkedAt outcome =
     bind_result (launcherInstallerTargetSuffix (ue_platform env) (ue_arch env)) (\<lambda>targetSuffix.
     bind_result (fetchLatestRelease (ue_new_url env) outcome) (\<lambda>release.
     bind_result (createInstallerAssetName (pr_version release) targetSuffix) (\<lambda>assetName.
     bind_result (selectInstallerAsset (ue_new_url env) release assetName) (\<lambda>asset.
     bind_result (compareLauncherVersions (ue_currentVersion env) (pr_version release)) (\<lambda>compared.
       if compared \<ge> 0 then Inr (UpToDate (pr_version release) checkedAt, None)
       else Inr (UpdateAvailable
                   \<lparr>au_latestVersion = pr_version release, au_assetName = as_name asset,
                    au_releasePageUrl = pr_releasePageUrl release, au_releaseNotes = pr_notes release,
                    au_download = DownloadIdle, au_checkedAt = checkedAt\<rparr>,
                 Some (as_downloadUrl asset)))))))"

definition performCheck :: "update_env \<Rightarrow> fetch_outcome \<Rightarrow> update_service \<Rightarrow> update_service" where
  \<comment> \<open>\<open>performCheck\<close> from the response on, and the \<open>finally\<close> of \<open>check\<close>\<close>
  "performCheck env outcome s =
     (case us_pendingCheck s of
        None \<Rightarrow> s
      | Some checkedAt \<Rightarrow>
         (let s1 = s\<lparr>us_pendingCheck := None\<rparr> in
          case check_result env checkedAt outcome of
            Inl e \<Rightarrow> s1\<lparr>us_cachedInstallerUrl := None, us_state := UpdateFailed (ue_code e) checkedAt\<rparr>
          | Inr (state, None) \<Rightarrow> s1\<lparr>us_state := state\<rparr>
          | Inr (state, Some url) \<Rightarrow> s1\<lparr>us_cachedInstallerUrl := Some url, us_state := state\<rparr>))"

definition isCurrentUpdate :: "available_update \<Rightarrow> nat \<Rightarrow> update_service \<Rightarrow> bool" where
  "isCurrentUpdate update generation s \<longleftrightarrow> us_generation s = generation \<and>
     (case us_state s of
        UpdateAvailable u \<Rightarrow> au_latestVersion u = au_latestVersion update \<and> au_assetName u = au_assetName update
      | _ \<Rightarrow> False)"

definition with_download :: "available_update \<Rightarrow> download_state \<Rightarrow> update_service \<Rightarrow> update_service" where
  \<comment> \<open>\<open>this.transition({ ...update, download })\<close>\<close>
  "with_download update d s = s\<lparr>us_state := UpdateAvailable (update\<lparr>au_download := d\<rparr>)\<rparr>"

definition openDownloadedInstaller ::
  "bool \<Rightarrow> available_update \<Rightarrow> nat \<Rightarrow> update_service \<Rightarrow> update_service" where
  \<comment> \<open>up to the call of \<open>openInstaller\<close>; \<open>busy\<close> is \<open>hasActiveLauncherOperation()\<close>\<close>
  "openDownloadedInstaller busy update generation s =
     (if \<not> isCurrentUpdate update generation s then s\<lparr>us_pendingDownload := None\<rparr>
      else if busy then
        with_download update (HandoffFailed ''launcher.update_operation_busy'') (s\<lparr>us_pendingDownload := None\<rparr>)
      else s\<lparr>us_opened := us_opened s @ [update],
             us_pendingDownload := Some \<lparr>dr_update = update, dr_generation = generation, dr_phase = Opening\<rparr>\<rparr>)"

definition downloadInstaller ::
  "update_env \<Rightarrow> bool \<Rightarrow> update_service \<Rightarrow> (update_error + unit) \<times> update_service" where
  \<comment> \<open>the synchronous part of \<open>downloadInstaller\<close> and \<open>startDownload\<close>\<close>
  "downloadInstaller env busy s =
     (case (us_state s, us_cachedInstallerUrl s) of
        (UpdateAvailable update, Some installerUrl) \<Rightarrow>
         (if us_pendingDownload s \<noteq> None then (Inr (), s)
          else case au_download update of
            Downloaded \<Rightarrow> (Inr (), s)
          | HandoffFailed _ \<Rightarrow> (Inr (), openDownloadedInstaller busy update (us_generation s) s)
          | _ \<Rightarrow>
             (if busy then
                (update_fail ''launcher.update_operation_busy''
                   ''A managed DSH, workspace, or plugin-catalog Git operation is active.'', s)
              else case validateInstallerUrl (ue_new_url env) installerUrl
                          (''v'' @ au_latestVersion update) (au_assetName update) of
                Inl e \<Rightarrow> (Inl e, s)
              | Inr _ \<Rightarrow>
                  (Inr (), with_download update (Downloading 0 None)
                     (s\<lparr>us_downloads := us_downloads s @ [(installerUrl, update)],
                        us_pendingDownload :=
                          Some \<lparr>dr_update = update, dr_generation = us_generation s, dr_phase = Fetching\<rparr>\<rparr>))))
      | _ \<Rightarrow> (update_fail ''launcher.update_not_available'' ''No verified Launcher installer is available.'', s))"

definition downloadProgress :: "nat \<Rightarrow> nat option \<Rightarrow> update_service \<Rightarrow> update_service" where
  "downloadProgress received totalBytes s =
     (case us_pendingDownload s of
        None \<Rightarrow> s
      | Some r \<Rightarrow>
         (if dr_phase r = Fetching \<and> isCurrentUpdate (dr_update r) (dr_generation r) s
          then with_download (dr_update r) (Downloading received totalBytes) s else s))"

definition downloadSettled :: "bool \<Rightarrow> string option \<Rightarrow> update_service \<Rightarrow> update_service" where
  \<comment> \<open>\<open>performDownload\<close> after the download settled: \<open>Some code\<close> when it failed\<close>
  "downloadSettled busy failure s =
     (case us_pendingDownload s of
        None \<Rightarrow> s
      | Some r \<Rightarrow>
         (if dr_phase r \<noteq> Fetching then s
          else case failure of
            Some code \<Rightarrow>
              (let s1 = s\<lparr>us_pendingDownload := None\<rparr> in
               if isCurrentUpdate (dr_update r) (dr_generation r) s
               then with_download (dr_update r) (DownloadFailed code) s1 else s1)
          | None \<Rightarrow>
              (if \<not> isCurrentUpdate (dr_update r) (dr_generation r) s then s\<lparr>us_pendingDownload := None\<rparr>
               else openDownloadedInstaller busy (dr_update r) (dr_generation r) s)))"

definition openSettled :: "string \<Rightarrow> update_service \<Rightarrow> update_service" where
  \<comment> \<open>the rest of \<open>openDownloadedInstaller\<close>; the empty text is success\<close>
  "openSettled openError s =
     (case us_pendingDownload s of
        None \<Rightarrow> s
      | Some r \<Rightarrow>
         (if dr_phase r \<noteq> Opening then s
          else
            (let s1 = s\<lparr>us_pendingDownload := None\<rparr>; current = isCurrentUpdate (dr_update r) (dr_generation r) s in
             if openError \<noteq> [] then
               (if current then with_download (dr_update r) (HandoffFailed ''launcher.update_installer_open_failed'') s1
                else s1)
             else (if current then with_download (dr_update r) Downloaded s1 else s1)\<lparr>us_quits := Suc (us_quits s)\<rparr>)))"

text \<open>Every event the service can see, in any order.\<close>

inductive update_step :: "update_env \<Rightarrow> update_service \<Rightarrow> update_service \<Rightarrow> bool" for env where
  step_check: "update_step env s (check env now s)"
| step_response: "update_step env s (performCheck env outcome s)"
| step_download: "update_step env s (snd (downloadInstaller env busy s))"
| step_progress: "update_step env s (downloadProgress received totalBytes s)"
| step_downloaded: "update_step env s (downloadSettled busy failure s)"
| step_opened: "update_step env s (openSettled openError s)"

inductive_cases update_stepE [elim!]: "update_step env s s'"

section \<open>What an installer must satisfy\<close>

definition newer :: "string \<Rightarrow> string \<Rightarrow> bool" where
  "newer latest current =
     (case (parseVersion current, parseVersion latest) of
        (Inr [a, b, c], Inr [x, y, z]) \<Rightarrow> Release a b c < Release x y z
      | _ \<Rightarrow> False)"

definition verified :: "update_env \<Rightarrow> available_update \<Rightarrow> string \<Rightarrow> bool" where
  "verified env u url \<longleftrightarrow>
     newer (au_latestVersion u) (ue_currentVersion env) \<and>
     expectedLauncherInstallerAssetName (ue_platform env) (ue_arch env) (au_latestVersion u) = Inr (au_assetName u) \<and>
     (\<exists>p. ue_new_url env url = Some p \<and> url_origin p = GITHUB_ORIGIN \<and> url_username p = [] \<and> url_password p = [] \<and>
        url_search p = [] \<and> url_hash p = [] \<and>
        url_pathname p = RELEASE_PATH_PREFIX @ ''/download/v'' @ au_latestVersion u @ ''/'' @ au_assetName u)"

definition same_release :: "available_update \<Rightarrow> available_update \<Rightarrow> bool" where
  "same_release u w \<longleftrightarrow> au_latestVersion u = au_latestVersion w \<and> au_assetName u = au_assetName w"

definition fetched :: "available_update \<Rightarrow> update_service \<Rightarrow> bool" where
  "fetched u s \<longleftrightarrow> (\<exists>(url, w) \<in> set (us_downloads s). same_release u w)"

definition update_ok :: "update_env \<Rightarrow> update_service \<Rightarrow> bool" where
  "update_ok env s \<longleftrightarrow>
     (\<forall>u. us_state s = UpdateAvailable u \<longrightarrow>
        (\<exists>url. us_cachedInstallerUrl s = Some url \<and> verified env u url) \<and>
        ((\<exists>c. au_download u = HandoffFailed c) \<longrightarrow> fetched u s)) \<and>
     (\<forall>(url, u) \<in> set (us_downloads s). verified env u url) \<and>
     (\<forall>r. us_pendingDownload s = Some r \<longrightarrow> fetched (dr_update r) s \<and> dr_generation r \<le> us_generation s) \<and>
     (\<forall>u \<in> set (us_opened s). fetched u s) \<and>
     (us_pendingCheck s \<noteq> None \<longrightarrow> us_state s = Checking) \<and>
     us_quits s \<le> length (us_opened s) \<and>
     (\<forall>r. us_pendingDownload s = Some r \<longrightarrow> dr_phase r = Opening \<longrightarrow> us_quits s < length (us_opened s))"

lemma parseVersion_three: "parseVersion v = Inr ps \<Longrightarrow> \<exists>a b c. ps = [a, b, c]"
  by (auto simp: parseVersion_def update_fail_def Let_def length_Suc_conv numeral_3_eq_3 split: if_splits)

lemma compare_newer:
  assumes "compareLauncherVersions current latest = Inr d" "d < 0"
  shows "newer latest current"
proof -
  obtain l r where lr: "parseVersion current = Inr l" "parseVersion latest = Inr r" "d = compare_parts l r"
    using assms(1) by (auto simp: compareLauncherVersions_def bind_result_Inr)
  obtain a b c x y z where abc: "l = [a, b, c]" "r = [x, y, z]"
    using parseVersion_three [OF lr(1)] parseVersion_three [OF lr(2)] by blast
  show ?thesis using lr assms(2) by (auto simp: newer_def abc less_release_alt split: if_splits)
qed

lemma validateInstallerUrl_Inr:
  "validateInstallerUrl new_url url tag name = Inr u \<longleftrightarrow>
     (\<exists>p. new_url url = Some p \<and> url_origin p = GITHUB_ORIGIN \<and> url_username p = [] \<and> url_password p = [] \<and>
        url_search p = [] \<and> url_hash p = [] \<and>
        url_pathname p = RELEASE_PATH_PREFIX @ ''/download/'' @ tag @ ''/'' @ name)"
  by (auto simp: validateInstallerUrl_def parseHttpsGithubUrl_def update_fail_def bind_result_Inr
      split: option.splits if_splits)

lemma parseLatestRelease_tag:
  assumes "parseLatestRelease new_url payload = Inr r"
  shows "pr_tag r = ''v'' @ pr_version r"
  using assms
  by (auto simp: parseLatestRelease_def invalidResponse_def update_fail_def bind_result_Inr stable_tag_def
      split: js_value.splits bool.splits if_splits list.splits)

lemma selectInstallerAsset_Inr:
  assumes "selectInstallerAsset new_url r name = Inr a"
  shows "as_name a = name \<and> a \<in> set (pr_assets r) \<and>
    validateInstallerUrl new_url (as_downloadUrl a) (pr_tag r) name = Inr ()"
proof -
  obtain xs where f: "filter (\<lambda>a. as_name a = name) (pr_assets r) = xs" by blast
  with assms obtain b where "xs = [b]"
    by (auto simp: selectInstallerAsset_def update_fail_def split: list.splits)
  with assms f have "filter (\<lambda>a. as_name a = name) (pr_assets r) = [a]"
    "validateInstallerUrl new_url (as_downloadUrl a) (pr_tag r) name = Inr ()"
    by (auto simp: selectInstallerAsset_def bind_result_Inr)
  then show ?thesis using filter_eq_Cons_iff [of "\<lambda>a. as_name a = name" "pr_assets r" a "[]"] by auto
qed

lemma check_result_available:
  assumes "check_result env t outcome = Inr (st, cached)"
  shows "case st of UpdateAvailable u \<Rightarrow> (\<exists>url. cached = Some url \<and> verified env u url) \<and> au_download u = DownloadIdle
    | UpToDate _ _ \<Rightarrow> cached = None | _ \<Rightarrow> False"
proof -
  obtain sfx r name a c where c: "launcherInstallerTargetSuffix (ue_platform env) (ue_arch env) = Inr sfx"
    "fetchLatestRelease (ue_new_url env) outcome = Inr r"
    "createInstallerAssetName (pr_version r) sfx = Inr name"
    "selectInstallerAsset (ue_new_url env) r name = Inr a"
    "compareLauncherVersions (ue_currentVersion env) (pr_version r) = Inr c"
    "(if c \<ge> 0 then Inr (UpToDate (pr_version r) t, None)
       else Inr (UpdateAvailable
                   \<lparr>au_latestVersion = pr_version r, au_assetName = as_name a,
                    au_releasePageUrl = pr_releasePageUrl r, au_releaseNotes = pr_notes r,
                    au_download = DownloadIdle, au_checkedAt = t\<rparr>,
                 Some (as_downloadUrl a))) = (Inr (st, cached) :: update_error + _)"
    using assms by (auto simp: check_result_def bind_result_Inr)
  have tag: "pr_tag r = ''v'' @ pr_version r"
    using c(2) parseLatestRelease_tag by (auto simp: fetchLatestRelease_def update_fail_def split: fetch_outcome.splits)
  note sel = selectInstallerAsset_Inr [OF c(4)]
  show ?thesis
  proof (cases "c \<ge> 0")
    case True
    then show ?thesis using c(6) by auto
  next
    case False
    then have "newer (pr_version r) (ue_currentVersion env)" using compare_newer [OF c(5)] by simp
    moreover have "expectedLauncherInstallerAssetName (ue_platform env) (ue_arch env) (pr_version r) = Inr (as_name a)"
      using c(1,3) sel by (simp add: expectedLauncherInstallerAssetName_def)
    ultimately show ?thesis
      using False c(6) sel tag by (auto simp: verified_def validateInstallerUrl_Inr)
  qed
qed


section \<open>The invariant\<close>

lemma fetched_mono: "fetched u s \<Longrightarrow> set (us_downloads s) \<subseteq> set (us_downloads s') \<Longrightarrow> fetched u s'"
  by (auto simp: fetched_def)

lemma fetched_same: "fetched u s \<Longrightarrow> same_release u w \<Longrightarrow> fetched w s"
  by (auto simp: fetched_def same_release_def)

lemma same_release_download [simp]: "same_release (u\<lparr>au_download := d\<rparr>) w = same_release u w"
  by (simp add: same_release_def)

lemma verified_same: "same_release u w \<Longrightarrow> verified env u = verified env w"
  by (simp add: verified_def same_release_def fun_eq_iff)

lemma verified_download [simp]: "verified env (u\<lparr>au_download := d\<rparr>) url = verified env u url"
  by (simp add: verified_def)

lemma fetched_download [simp]: "fetched (u\<lparr>au_download := d\<rparr>) s = fetched u s"
  by (simp add: fetched_def)

lemma fetched_upd [simp]:
  "fetched u (s\<lparr>us_state := a\<rparr>) = fetched u s" "fetched u (s\<lparr>us_pendingCheck := b\<rparr>) = fetched u s"
  "fetched u (s\<lparr>us_pendingDownload := c\<rparr>) = fetched u s" "fetched u (s\<lparr>us_cachedInstallerUrl := d\<rparr>) = fetched u s"
  "fetched u (s\<lparr>us_generation := e\<rparr>) = fetched u s" "fetched u (s\<lparr>us_opened := f\<rparr>) = fetched u s"
  "fetched u (s\<lparr>us_quits := g\<rparr>) = fetched u s"
  by (simp_all add: fetched_def)

lemma current_same:
  "isCurrentUpdate u g s \<Longrightarrow> \<exists>w. us_state s = UpdateAvailable w \<and> same_release u w \<and> us_generation s = g"
  by (auto simp: isCurrentUpdate_def same_release_def split: update_state.splits)

lemma check_ok: "update_ok env s \<Longrightarrow> update_ok env (check env now s)"
  by (auto simp: check_def update_ok_def Let_def split: sum.splits)

lemma performCheck_ok:
  assumes "update_ok env s"
  shows "update_ok env (performCheck env outcome s)"
proof (cases "us_pendingCheck s")
  case None
  then show ?thesis using assms by (simp add: performCheck_def)
next
  case (Some t)
  show ?thesis
  proof (cases "check_result env t outcome")
    case (Inl e)
    then show ?thesis using assms by (simp add: performCheck_def Some update_ok_def)
  next
    case (Inr p)
    obtain st cached where p: "p = (st, cached)" by (cases p)
    note r = check_result_available [OF Inr [unfolded p]]
    have "performCheck env outcome s =
        (case cached of None \<Rightarrow> s\<lparr>us_pendingCheck := None, us_state := st\<rparr>
         | Some url \<Rightarrow> s\<lparr>us_pendingCheck := None, us_cachedInstallerUrl := Some url, us_state := st\<rparr>)"
      by (simp add: performCheck_def Some Inr p split: option.split)
    then show ?thesis using assms r
      by (auto simp: update_ok_def split: update_state.splits option.splits)
  qed
qed

lemma with_download_ok:
  assumes "update_ok env s" "isCurrentUpdate u g s" "\<And>c. d = HandoffFailed c \<Longrightarrow> fetched u s"
  shows "update_ok env (with_download u d s)"
proof -
  obtain w where w: "us_state s = UpdateAvailable w" "same_release u w" using current_same [OF assms(2)] by blast
  then obtain url where "us_cachedInstallerUrl s = Some url" "verified env u url"
    using assms(1) by (auto simp: update_ok_def verified_same)
  then show ?thesis using assms(1,3) w(1) by (auto simp: update_ok_def with_download_def)
qed

lemma clear_download_ok: "update_ok env s \<Longrightarrow> update_ok env (s\<lparr>us_pendingDownload := None\<rparr>)"
  by (auto simp: update_ok_def)

lemma current_clear [simp]:
  "isCurrentUpdate u g (s\<lparr>us_pendingDownload := x\<rparr>) = isCurrentUpdate u g s"
  by (simp add: isCurrentUpdate_def)

lemma openDownloaded_ok:
  assumes "update_ok env s" "fetched u s"
  shows "update_ok env (openDownloadedInstaller busy u g s)"
proof (cases "isCurrentUpdate u g s \<and> \<not> busy")
  case True
  then have "us_generation s = g" using current_same by blast
  then show ?thesis using True assms by (auto simp: openDownloadedInstaller_def update_ok_def)
next
  case False
  then show ?thesis
    using clear_download_ok [OF assms(1)] with_download_ok [OF clear_download_ok [OF assms(1)]] assms(2)
    by (auto simp: openDownloadedInstaller_def)
qed

lemma downloadInstaller_ok:
  assumes "update_ok env s"
  shows "update_ok env (snd (downloadInstaller env busy s))"
proof (cases "\<exists>u url. us_state s = UpdateAvailable u \<and> us_cachedInstallerUrl s = Some url")
  case False
  then show ?thesis using assms by (auto simp: downloadInstaller_def split: update_state.splits option.splits)
next
  case True
  then obtain u url where u: "us_state s = UpdateAvailable u" "us_cachedInstallerUrl s = Some url" by blast
  have v: "verified env u url" using assms u by (auto simp: update_ok_def)
  let ?s = "s\<lparr>us_downloads := us_downloads s @ [(url, u)],
    us_pendingDownload := Some \<lparr>dr_update = u, dr_generation = us_generation s, dr_phase = Fetching\<rparr>\<rparr>"
  have f: "fetched w ?s" if "fetched w s" for w using that by (auto simp: fetched_def)
  have "fetched u ?s" by (auto simp: fetched_def same_release_def)
  then have "update_ok env ?s" using assms v f by (auto simp: update_ok_def u)
  moreover have "isCurrentUpdate u (us_generation s) ?s" by (simp add: isCurrentUpdate_def u)
  ultimately have "update_ok env (with_download u (Downloading 0 None) ?s)" by (rule with_download_ok) simp
  moreover have "update_ok env (openDownloadedInstaller busy u (us_generation s) s)" if "au_download u = HandoffFailed c" for c
    by (rule openDownloaded_ok [OF assms]) (use assms that u in \<open>auto simp: update_ok_def\<close>)
  ultimately show ?thesis
    using assms by (auto simp: downloadInstaller_def u split: download_state.splits sum.splits)
qed

lemma pending_fetched: "update_ok env s \<Longrightarrow> us_pendingDownload s = Some r \<Longrightarrow> fetched (dr_update r) s"
  by (auto simp: update_ok_def)

lemma downloadProgress_ok: "update_ok env s \<Longrightarrow> update_ok env (downloadProgress n t s)"
  by (auto simp: downloadProgress_def intro: with_download_ok split: option.splits)

lemma downloadSettled_ok: "update_ok env s \<Longrightarrow> update_ok env (downloadSettled busy f s)"
  by (auto simp: downloadSettled_def Let_def clear_download_ok openDownloaded_ok pending_fetched
      intro: with_download_ok [OF clear_download_ok] split: option.splits)

lemma openSettled_ok:
  assumes "update_ok env s"
  shows "update_ok env (openSettled err s)"
proof (cases "us_pendingDownload s")
  case None
  then show ?thesis using assms by (simp add: openSettled_def)
next
  case (Some r)
  let ?s = "s\<lparr>us_pendingDownload := None\<rparr>"
  have ok: "update_ok env ?s" by (rule clear_download_ok [OF assms])
  have f: "fetched (dr_update r) ?s" using pending_fetched [OF assms Some] by simp
  have w: "update_ok env (with_download (dr_update r) d ?s)" if "isCurrentUpdate (dr_update r) (dr_generation r) s" for d
    by (rule with_download_ok [OF ok, where g = "dr_generation r"]) (use that f in auto)
  have q: "update_ok env (x\<lparr>us_quits := Suc (us_quits s)\<rparr>)"
    if "update_ok env x" "us_pendingDownload x = None" "us_opened x = us_opened s" "dr_phase r = Opening" for x
    using that assms Some by (auto simp: update_ok_def)
  show ?thesis
    using assms ok w q by (auto simp: openSettled_def Some Let_def with_download_def)
qed

lemma update_step_ok: "update_step env s s' \<Longrightarrow> update_ok env s \<Longrightarrow> update_ok env s'"
  by (auto simp: check_ok performCheck_ok downloadInstaller_ok downloadProgress_ok downloadSettled_ok openSettled_ok)

lemma new_service_ok: "new_service env = Inr s \<Longrightarrow> update_ok env s"
  by (auto simp: new_service_def bind_result_Inr update_ok_def)

interpretation launcher_update: transition_system "\<lambda>s. new_service env = Inr s" "update_step env" "update_ok env" for env
proof unfold_locales
  show "new_service env = Inr s \<Longrightarrow> update_ok env s" for s by (rule new_service_ok)
  show "update_step env s s' \<Longrightarrow> update_ok env s \<Longrightarrow> update_ok env s'" for s s' by (rule update_step_ok)
qed

section \<open>Properties\<close>

text \<open>
  (C9) In every order of calls, responses, progress and settling downloads, each installer the service
  downloads comes from a URL that parses to \<open>https://github.com\<close> without credentials, query or fragment
  and names the release path of exactly that version and asset; the asset is the one of this platform
  and architecture and the version is strictly newer than the running one. Only downloaded installers
  are opened, and the application quits at most once per installer opened.
\<close>

theorem installer_always_verified:
  assumes "new_service env = Inr s0" and "(update_step env)\<^sup>*\<^sup>* s0 s"
  shows "(\<forall>(url, u) \<in> set (us_downloads s). verified env u url) \<and>
    (\<forall>u \<in> set (us_opened s). \<exists>(url, w) \<in> set (us_downloads s). same_release u w) \<and>
    us_quits s \<le> length (us_opened s)"
  using launcher_update.inv_reached [OF assms] by (auto simp: update_ok_def fetched_def)

definition sample_update_env :: update_env where
  "sample_update_env = \<lparr>ue_currentVersion = ''1.0.0'', ue_platform = ''win32'', ue_arch = ''x64'',
     ue_new_url = (\<lambda>t. if prefix GITHUB_ORIGIN t
        then Some \<lparr>url_origin = GITHUB_ORIGIN, url_username = [], url_password = [], url_search = [], url_hash = [],
                   url_pathname = drop (length GITHUB_ORIGIN) t\<rparr>
        else None)\<rparr>"

definition sample_payload :: js_value where
  "sample_payload = JObj
     [(''tag_name'', JStr ''v1.2.0''), (''draft'', JBool False), (''prerelease'', JBool False),
      (''html_url'', JStr ''https://github.com/ankye/dshker/releases/tag/v1.2.0''),
      (''assets'', JArr [JObj [(''name'', JStr ''dshker-launcher-1.2.0-win-x64.exe''),
         (''browser_download_url'',
            JStr ''https://github.com/ankye/dshker/releases/download/v1.2.0/dshker-launcher-1.2.0-win-x64.exe'')]])]"

definition sample_update_run :: "update_service \<Rightarrow> update_service" where
  "sample_update_run s = openSettled [] (downloadSettled False None (snd (downloadInstaller sample_update_env False
     (performCheck sample_update_env (FetchPayload sample_payload) (check sample_update_env ''t'' s)))))"

definition fresh_service :: update_service where
  "fresh_service = \<lparr>us_state = UpdateIdle, us_pendingCheck = None, us_pendingDownload = None,
     us_cachedInstallerUrl = None, us_generation = 0, us_downloads = [], us_opened = [], us_quits = 0\<rparr>"

definition sample_available :: available_update where
  "sample_available = \<lparr>au_latestVersion = ''1.2.0'', au_assetName = ''dshker-launcher-1.2.0-win-x64.exe'',
     au_releasePageUrl = ''https://github.com/ankye/dshker/releases/tag/v1.2.0'', au_releaseNotes = None,
     au_download = DownloadIdle, au_checkedAt = ''t''\<rparr>"

definition sample_installer_url :: string where
  "sample_installer_url =
     ''https://github.com/ankye/dshker/releases/download/v1.2.0/dshker-launcher-1.2.0-win-x64.exe''"

lemma sample_steps:
  "new_service sample_update_env = Inr fresh_service"
  "is_ok (launcherInstallerTargetSuffix (ue_platform sample_update_env) (ue_arch sample_update_env))"
  "check_result sample_update_env ''t'' (FetchPayload sample_payload) =
     Inr (UpdateAvailable sample_available, Some sample_installer_url)"
  "validateInstallerUrl (ue_new_url sample_update_env) sample_installer_url
     (''v'' @ au_latestVersion sample_available) (au_assetName sample_available) = Inr ()"
  by code_simp+

lemma sample_checked:
  "performCheck sample_update_env (FetchPayload sample_payload) (check sample_update_env ''t'' fresh_service) =
     fresh_service\<lparr>us_generation := 1, us_state := UpdateAvailable sample_available,
       us_cachedInstallerUrl := Some sample_installer_url\<rparr>"
  using sample_steps(2,3)
  by (auto simp: performCheck_def check_def fresh_service_def Let_def is_ok_def split: sum.splits)

lemma sample_downloading:
  "snd (downloadInstaller sample_update_env False
     (performCheck sample_update_env (FetchPayload sample_payload) (check sample_update_env ''t'' fresh_service))) =
   fresh_service\<lparr>us_generation := 1, us_state := UpdateAvailable (sample_available\<lparr>au_download := Downloading 0 None\<rparr>),
       us_cachedInstallerUrl := Some sample_installer_url, us_downloads := [(sample_installer_url, sample_available)],
       us_pendingDownload := Some \<lparr>dr_update = sample_available, dr_generation = 1, dr_phase = Fetching\<rparr>\<rparr>"
proof -
  have "au_download sample_available = DownloadIdle" by (simp add: sample_available_def)
  with sample_steps(4) show ?thesis
    unfolding sample_checked by (simp add: downloadInstaller_def with_download_def fresh_service_def)
qed

lemma sample_service:
  "new_service sample_update_env = Inr fresh_service"
  "length (us_opened (sample_update_run fresh_service)) = 1"
proof -
  show "new_service sample_update_env = Inr fresh_service" by (rule sample_steps(1))
  show "length (us_opened (sample_update_run fresh_service)) = 1"
    unfolding sample_update_run_def sample_downloading
    by (simp add: downloadSettled_def openSettled_def openDownloadedInstaller_def isCurrentUpdate_def
        with_download_def Let_def fresh_service_def)
qed

lemma sample_download_reach:
  "(update_step sample_update_env)\<^sup>*\<^sup>* s (snd (downloadInstaller sample_update_env False
     (performCheck sample_update_env (FetchPayload sample_payload) (check sample_update_env ''t'' s))))"
  by (rule rtranclp.rtrancl_into_rtrancl, rule rtranclp.rtrancl_into_rtrancl, rule rtranclp.rtrancl_into_rtrancl,
      rule rtranclp.rtrancl_refl, rule step_check, rule step_response, rule step_download)

lemma sample_update_reach: "(update_step sample_update_env)\<^sup>*\<^sup>* s (sample_update_run s)"
  unfolding sample_update_run_def
  by (rule rtranclp.rtrancl_into_rtrancl, rule rtranclp.rtrancl_into_rtrancl, rule sample_download_reach,
      rule step_downloaded, rule step_opened)

theorem installer_always_verified_witness:
  "\<exists>s s'. new_service sample_update_env = Inr s \<and> (update_step sample_update_env)\<^sup>*\<^sup>* s s' \<and>
     length (us_opened s') = 1 \<and> list_all (\<lambda>(url, u). verified sample_update_env u url) (us_downloads s')"
  using installer_always_verified [OF sample_service(1) sample_update_reach] sample_service sample_update_reach
  by (auto simp: list_all_iff)

text \<open>
  (C10) A new check fences off an older download. Once \<open>check\<close> has started a new generation, whatever the
  download still in flight does (report progress, fail, finish, have its installer opened) leaves the
  visible state and the list of opened installers alone; at most a handoff already under way quits the
  application.
\<close>

theorem check_fences_stale_download:
  assumes "new_service env = Inr s0" and "(update_step env)\<^sup>*\<^sup>* s0 s" and "us_pendingCheck s = None"
    and "us_pendingDownload s = Some r"
  shows "us_pendingDownload (check env now s) = Some r \<and> us_generation (check env now s) \<noteq> dr_generation r \<and>
    (\<forall>t. us_pendingDownload t = Some r \<and> us_generation t \<noteq> dr_generation r \<longrightarrow>
       downloadProgress received totalBytes t = t \<and>
       us_state (downloadSettled busy failure t) = us_state t \<and> us_opened (downloadSettled busy failure t) = us_opened t \<and>
       us_state (openSettled openError t) = us_state t \<and> us_opened (openSettled openError t) = us_opened t)"
proof -
  have "dr_generation r \<le> us_generation s" using launcher_update.inv_reached [OF assms(1,2)] assms(4) by (auto simp: update_ok_def)
  then have "us_pendingDownload (check env now s) = Some r" "us_generation (check env now s) \<noteq> dr_generation r"
    using assms(3,4) by (auto simp: check_def Let_def split: sum.splits)
  moreover have "downloadProgress received totalBytes t = t \<and>
       us_state (downloadSettled busy failure t) = us_state t \<and> us_opened (downloadSettled busy failure t) = us_opened t \<and>
       us_state (openSettled openError t) = us_state t \<and> us_opened (openSettled openError t) = us_opened t"
    if "us_pendingDownload t = Some r" "us_generation t \<noteq> dr_generation r" for t
  proof -
    have "\<not> isCurrentUpdate (dr_update r) (dr_generation r) t" using that(2) by (simp add: isCurrentUpdate_def)
    then show ?thesis using that(1)
      by (auto simp: downloadProgress_def downloadSettled_def openSettled_def Let_def split: option.splits)
  qed
  ultimately show ?thesis by blast
qed

theorem check_fences_stale_download_witness:
  "\<exists>s r. us_pendingDownload s = Some r \<and> us_generation (check sample_update_env ''u'' s) \<noteq> dr_generation r"
proof -
  let ?s = "snd (downloadInstaller sample_update_env False
     (performCheck sample_update_env (FetchPayload sample_payload) (check sample_update_env ''t'' fresh_service)))"
  have "us_pendingCheck ?s = None" "us_pendingDownload ?s \<noteq> None"
    unfolding sample_downloading by (simp_all add: fresh_service_def)
  then obtain r where s: "us_pendingCheck ?s = None" "us_pendingDownload ?s = Some r" by blast
  from check_fences_stale_download [OF sample_service(1) sample_download_reach s] s(2) show ?thesis by blast
qed

section \<open>Release notes\<close>

lemma unify_no_cr: "cr \<notin> set (unify_newlines s)"
  by (induction s rule: unify_newlines.induct) auto

lemma collapse_set: "set (collapse_blank k s) \<subseteq> set s"
  by (induction k s rule: collapse_blank.induct) auto

lemma collapse_prefix:
  "\<not> prefix [lf, lf, lf] (collapse_blank k s)"
  "1 \<le> k \<Longrightarrow> \<not> prefix [lf, lf] (collapse_blank k s)"
  "2 \<le> k \<Longrightarrow> \<not> prefix [lf] (collapse_blank k s)"
  by (induction k s rule: collapse_blank.induct) auto

lemma collapse_no_triple: "\<not> sublist [lf, lf, lf] (collapse_blank k s)"
proof (induction k s rule: collapse_blank.induct)
  case (2 k c s)
  with collapse_prefix(2) [of "Suc k" s] show ?case
    by (auto simp: sublist_Cons_right)
qed (simp add: sublist_Cons_right)

lemma js_trim_end_prefix: "prefix (js_trim_end s) s"
  unfolding js_trim_end_def by (metis suffix_dropWhile suffix_to_prefix rev_rev_ident)

lemma js_trim_sublist: "sublist (js_trim s) s"
  unfolding js_trim_def js_trim_start_def
  by (meson js_trim_end_prefix prefix_imp_sublist suffix_dropWhile suffix_imp_sublist
      sublist_order.order.trans)

lemma js_trim_end_Nil_iff: "js_trim_end s = [] \<longleftrightarrow> (\<forall>c\<in>set s. js_is_space c)"
  by (simp add: js_trim_end_def)

lemma js_trim_head:
  assumes "js_trim s \<noteq> []"
  shows "\<not> js_is_space (hd (js_trim s))"
proof -
  let ?t = "js_trim_start s"
  have "prefix (js_trim s) ?t" by (simp add: js_trim_def js_trim_end_prefix)
  then have h: "hd (js_trim s) = hd ?t" and "?t \<noteq> []"
    using assms by (auto simp: prefix_def)
  then show ?thesis by (metis hd_dropWhile js_trim_start_def)
qed

lemma take_trim_nonempty:
  assumes "js_trim s \<noteq> []" "0 < n"
  shows "js_trim_end (take n (js_trim s)) \<noteq> []"
proof -
  have "hd (js_trim s) \<in> set (take n (js_trim s))"
    using assms by (cases "js_trim s"; cases n) auto
  with js_trim_head [OF assms(1)] show ?thesis by (auto simp: js_trim_end_Nil_iff)
qed

lemma parseReleaseNotes_cases:
  assumes "parseReleaseNotes (JStr s) = Some (t, truncated)"
  obtains u where "u = js_trim (collapse_blank 0 (filter (\<lambda>c. \<not> stripped_control c) (unify_newlines s)))"
    "u \<noteq> []" "truncated \<longleftrightarrow> RELEASE_NOTES_LIMIT < length u"
    "t = (if truncated then js_trim_end (take RELEASE_NOTES_LIMIT u) else u)"
  using assms by (auto simp: parseReleaseNotes_def Let_def split: if_splits)

text \<open> Release notes shown in the update dialog are never empty, hold at most 4000 characters,
  none of the control characters the code strips (in particular no carriage return), and never more
  than one blank line in a row; they are reported as cut exactly when the normalised text was
  longer than the limit.\<close>

lemma release_notes_clean:
  assumes "parseReleaseNotes (JStr s) = Some (t, truncated)"
  shows "t \<noteq> [] \<and> length t \<le> RELEASE_NOTES_LIMIT
         \<and> (\<forall>c\<in>set t. \<not> stripped_control c \<and> c \<noteq> cr)
         \<and> \<not> sublist [lf, lf, lf] t
         \<and> (truncated \<longleftrightarrow> length (js_trim (collapse_blank 0 (filter (\<lambda>c. \<not> stripped_control c)
                  (unify_newlines s)))) > RELEASE_NOTES_LIMIT)"
proof -
  let ?c = "collapse_blank 0 (filter (\<lambda>c. \<not> stripped_control c) (unify_newlines s))"
  obtain u where u: "u = js_trim ?c" "u \<noteq> []" "truncated \<longleftrightarrow> RELEASE_NOTES_LIMIT < length u"
    "t = (if truncated then js_trim_end (take RELEASE_NOTES_LIMIT u) else u)"
    by (rule parseReleaseNotes_cases [OF assms])
  have pos: "0 < RELEASE_NOTES_LIMIT" by (simp add: RELEASE_NOTES_LIMIT_def)
  have "prefix t u"
    unfolding u(4) using prefix_order.trans [OF js_trim_end_prefix take_is_prefix] by simp
  then have sub: "sublist t ?c"
    unfolding u(1) by (rule sublist_order.order.trans [OF prefix_imp_sublist js_trim_sublist])
  have "t \<noteq> []" using u take_trim_nonempty [OF _ pos, of ?c] by auto
  moreover have "length t \<le> RELEASE_NOTES_LIMIT"
    using u(3,4) prefix_length_le [OF js_trim_end_prefix, of "take RELEASE_NOTES_LIMIT u"] by auto
  moreover have "\<forall>c\<in>set t. \<not> stripped_control c \<and> c \<noteq> cr"
    using set_mono_sublist [OF sub] collapse_set [of 0 "filter (\<lambda>c. \<not> stripped_control c) (unify_newlines s)"]
      unify_no_cr [of s] by auto
  moreover have "\<not> sublist [lf, lf, lf] t"
    using sublist_order.order.trans [OF _ sub] collapse_no_triple by blast
  ultimately show ?thesis using u(1,3) by blast
qed

lemma sample_notes: "parseReleaseNotes (JStr [cr, CHR ''a'', cr, lf, lf, lf, CHR ''b'']) =
    Some ([CHR ''a'', lf, lf, CHR ''b''], False)"
  by code_simp

lemma release_notes_clean_witness:
  "length [CHR ''a'', lf, lf, CHR ''b''] \<le> RELEASE_NOTES_LIMIT
   \<and> \<not> sublist [lf, lf, lf] [CHR ''a'', lf, lf, CHR ''b'']"
  using release_notes_clean [OF sample_notes] by blast

end
