(* ===== verification/Peer_Wire.thy ===== *)
theory Peer_Wire
  imports Js_Prelude
begin

text \<open>
  The private channel between the launcher and its peer helper (\<open>electron/main/p2p/wire.ts\<close>): the
  strict JSON reader \<open>parsePeerJson\<close>, \<open>exactPeerObject\<close>, refusal codes and frames.

  \<open>parsePeerJson\<close> first scans the text with its own recogniser (bounded size and depth, no \<open>null\<close>,
  no duplicate keys) and then calls \<open>JSON.parse\<close>; the functions below do both at once: every function
  of the recogniser also returns the value \<open>JSON.parse\<close> builds for what it read. The recogniser's
  loops are recursive functions on fuel; \<open>parsePeerJson_total\<close> shows that the fuel never runs out.
  Numbers that are not integers and escapes above \<open>\u00ff\<close> have no \<open>js_value\<close> and give \<open>Unrepresentable\<close>.
  \<open>json_text\<close> is \<open>JSON.stringify\<close>.
\<close>

section \<open>Failures\<close>

datatype peer_error =
    PeerHelperError string
  | HostError         \<comment> \<open>an exception of the host, such as a missing file\<close>
  | Unrepresentable   \<comment> \<open>the text denotes a value outside \<open>js_value\<close>\<close>
  | OutOfFuel         \<comment> \<open>never returned: \<open>parsePeerJson_total\<close>\<close>

type_synonym 'a peer_result = "peer_error + 'a"

definition peer_fail :: "string \<Rightarrow> 'a peer_result" where
  "peer_fail code = Inl (PeerHelperError code)"

definition wire_fail :: "'a peer_result" where
  "wire_fail = peer_fail ''p2p.protocol_mismatch''"

lemma wire_fail_simps [simp]: "wire_fail \<noteq> Inr a" "Inr a \<noteq> wire_fail"
  "wire_fail \<noteq> Inl OutOfFuel" "wire_fail \<noteq> Inl Unrepresentable" "wire_fail \<noteq> Inl HostError"
  by (simp_all add: wire_fail_def peer_fail_def)

definition MAX_PEER_CONTROL_BYTES :: nat where
  "MAX_PEER_CONTROL_BYTES = 64 * 1024"

definition utf8Length :: "string \<Rightarrow> nat" where
  \<comment> \<open>\<open>Buffer.byteLength\<close>: UTF-8\<close>
  "utf8Length s = sum_list (map (\<lambda>c. if code_unit c < 128 then 1 else 2) s)"

section \<open>Printing\<close>

abbreviation dquote :: char where "dquote \<equiv> CHR 0x22"

definition hex_digit :: "nat \<Rightarrow> char" where
  "hex_digit n = (if n < 10 then char_of (48 + n) else char_of (87 + n))"

definition json_char :: "char \<Rightarrow> string" where
  "json_char c =
     (if c = dquote then [backslash, dquote]
      else if c = backslash then [backslash, backslash]
      else if code_unit c = 8 then [backslash, CHR ''b'']
      else if code_unit c = 9 then [backslash, CHR ''t'']
      else if code_unit c = 10 then [backslash, CHR ''n'']
      else if code_unit c = 12 then [backslash, CHR ''f'']
      else if code_unit c = 13 then [backslash, CHR ''r'']
      else if code_unit c < 32
        then [backslash, CHR ''u'', CHR ''0'', CHR ''0'', hex_digit (code_unit c div 16), hex_digit (code_unit c mod 16)]
      else [c])"

definition json_string :: "string \<Rightarrow> string" where
  "json_string s = [dquote] @ concat (map json_char s) @ [dquote]"

definition json_int :: "int \<Rightarrow> string" where
  "json_int n = (if n < 0 then ''-'' else []) @ digits_of_nat (nat \<bar>n\<bar>)"

fun json_text :: "js_value \<Rightarrow> string"
  and json_items :: "js_value list \<Rightarrow> string list"
  and json_members :: "(string \<times> js_value) list \<Rightarrow> string list" where
  "json_text JUndefined = ''null''"
| "json_text JNull = ''null''"
| "json_text (JBool b) = (if b then ''true'' else ''false'')"
| "json_text (JNum n) = json_int n"
| "json_text (JStr s) = json_string s"
| "json_text (JArr xs) = ''['' @ js_join '','' (json_items xs) @ '']''"
| "json_text (JObj kvs) = ''{'' @ js_join '','' (json_members kvs) @ ''}''"
| "json_items [] = []"
| "json_items (v # vs) = json_text v # json_items vs"
| "json_members [] = []"
| "json_members ((k, v) # kvs) =
     (if v = JUndefined then json_members kvs
      else (json_string k @ '':'' @ json_text v) # json_members kvs)"

definition JSON_stringify :: "js_value \<Rightarrow> string option" where
  "JSON_stringify v = (if v = JUndefined then None else Some (json_text v))"

section \<open>Reading\<close>

definition json_space :: "char \<Rightarrow> bool" where
  "json_space c \<longleftrightarrow> code_unit c \<in> {9, 10, 13, 32}"

definition skip_space :: "string \<Rightarrow> string" where
  "skip_space = dropWhile json_space"

definition simple_escape :: "char \<Rightarrow> char option" where
  "simple_escape c =
     map_of [(dquote, dquote), (backslash, backslash), (CHR ''/'', CHR ''/''), (CHR ''b'', char_of (8::nat)),
             (CHR ''f'', char_of (12::nat)), (CHR ''n'', char_of (10::nat)), (CHR ''r'', char_of (13::nat)),
             (CHR ''t'', char_of (9::nat))] c"

definition hex_escape :: "char \<Rightarrow> char \<Rightarrow> char \<Rightarrow> char \<Rightarrow> char peer_result" where
  "hex_escape a b c d =
     (case (hex_value a, hex_value b, hex_value c, hex_value d) of
        (Some w, Some x, Some y, Some z) \<Rightarrow>
          (if w = 0 \<and> x = 0 then Inr (char_of (16 * y + z)) else Inl Unrepresentable)
      | _ \<Rightarrow> wire_fail)"

definition string_escape :: "string \<Rightarrow> (char \<times> string) peer_result" where
  \<comment> \<open>what follows a backslash\<close>
  "string_escape t =
     (case t of
        [] \<Rightarrow> wire_fail
      | e # t1 \<Rightarrow>
          (if e = CHR ''u'' then
             (case t1 of
                w # x # y # z # t2 \<Rightarrow> bind_result (hex_escape w x y z) (\<lambda>u. Inr (u, t2))
              | _ \<Rightarrow> wire_fail)
           else case simple_escape e of None \<Rightarrow> wire_fail | Some u \<Rightarrow> Inr (u, t1)))"

lemma string_escape_length: "string_escape t = Inr (u, r) \<Longrightarrow> length r < length t"
  by (auto simp: string_escape_def bind_result_Inr split: list.splits if_splits option.splits)

function string_body :: "string \<Rightarrow> (string \<times> string) peer_result" where
  "string_body [] = wire_fail"
| "string_body (c # t) =
     (if c = dquote then Inr ([], t)
      else if c = backslash then
        (case string_escape t of
           Inl e \<Rightarrow> Inl e
         | Inr (u, t1) \<Rightarrow> bind_result (string_body t1) (\<lambda>(s, r). Inr (u # s, r)))
      else if code_unit c < 32 then wire_fail
      else bind_result (string_body t) (\<lambda>(s, r). Inr (c # s, r)))"
  by pat_completeness auto
termination
  by (relation "measure length") (auto dest!: string_escape_length)

definition peer_string :: "string \<Rightarrow> (string \<times> string) peer_result" where
  "peer_string t = (case skip_space t of c # r \<Rightarrow> if c = dquote then string_body r else wire_fail | [] \<Rightarrow> wire_fail)"

definition number_limit :: nat where
  \<comment> \<open>the least decimal that rounds to \<open>Infinity\<close>\<close>
  "number_limit = 2 ^ 1024 - 2 ^ 970"

definition number_value :: "bool \<Rightarrow> nat \<Rightarrow> int \<Rightarrow> js_value peer_result" where
  \<comment> \<open>\<open>Number(atom)\<close> for \<open>\<plusminus>m \<sqdot> 10^e\<close>, with the \<open>isFinite\<close> check\<close>
  "number_value neg m e =
     (let p = 10 ^ nat \<bar>e\<bar>; signed = (\<lambda>n. JNum (if neg then - int n else int n)) in
      if 0 \<le> e then (if m * p < number_limit then Inr (signed (m * p)) else wire_fail)
      else if m \<ge> number_limit * p then wire_fail
      else if m mod p = 0 then Inr (signed (m div p)) else Inl Unrepresentable)"

definition take_fraction :: "string \<Rightarrow> string \<times> string" where
  \<comment> \<open>\<open>(?:\.\d+)?\<close>\<close>
  "take_fraction t =
     (case t of
        c # r \<Rightarrow> (if c = CHR ''.'' \<and> takeWhile js_is_digit r \<noteq> []
                 then (takeWhile js_is_digit r, dropWhile js_is_digit r) else ([], t))
      | [] \<Rightarrow> ([], t))"

definition take_sign :: "string \<Rightarrow> bool \<times> string" where
  "take_sign t = (case t of c # r \<Rightarrow> (if c = CHR ''+'' then (False, r) else if c = CHR ''-'' then (True, r) else (False, t))
     | [] \<Rightarrow> (False, t))"

definition take_exponent :: "string \<Rightarrow> int \<times> string" where
  \<comment> \<open>\<open>(?:[eE][+-]?\d+)?\<close>\<close>
  "take_exponent t =
     (case t of
        c # r \<Rightarrow>
          (let (neg, r1) = take_sign r; ds = takeWhile js_is_digit r1 in
           if (c = CHR ''e'' \<or> c = CHR ''E'') \<and> ds \<noteq> []
           then (if neg then - int (nat_of_digits ds) else int (nat_of_digits ds), dropWhile js_is_digit r1)
           else (0, t))
      | [] \<Rightarrow> (0, t))"

definition take_integer :: "string \<Rightarrow> (string \<times> string) option" where
  \<comment> \<open>\<open>0|[1-9]\d*\<close>\<close>
  "take_integer t =
     (case t of
        c # r \<Rightarrow> (if c = CHR ''0'' then Some ([c], r)
                 else if js_is_digit c then Some (takeWhile js_is_digit t, dropWhile js_is_digit t) else None)
      | [] \<Rightarrow> None)"

definition peer_number :: "string \<Rightarrow> (js_value \<times> string) peer_result" where
  "peer_number t =
     (let neg = (t \<noteq> [] \<and> hd t = CHR ''-''); t1 = (if neg then tl t else t) in
      case take_integer t1 of
        None \<Rightarrow> wire_fail
      | Some (ds, t2) \<Rightarrow>
          (let (fr, t3) = take_fraction t2; (e, t4) = take_exponent t3 in
           bind_result (number_value neg (nat_of_digits (ds @ fr)) (e - int (length fr))) (\<lambda>v. Inr (v, t4))))"

definition peer_atom :: "string \<Rightarrow> (js_value \<times> string) peer_result" where
  "peer_atom t =
     (if prefix ''true'' t then Inr (JBool True, drop 4 t)
      else if prefix ''false'' t then Inr (JBool False, drop 5 t)
      else peer_number t)"

fun peer_value :: "nat \<Rightarrow> nat \<Rightarrow> string \<Rightarrow> (js_value \<times> string) peer_result"
  and peer_elements :: "nat \<Rightarrow> nat \<Rightarrow> string \<Rightarrow> (js_value list \<times> string) peer_result"
  and peer_members :: "nat \<Rightarrow> nat \<Rightarrow> string list \<Rightarrow> string \<Rightarrow> ((string \<times> js_value) list \<times> string) peer_result" where
  "peer_value 0 depth t = Inl OutOfFuel"
| "peer_value (Suc n) depth t =
     (if depth > 12 then wire_fail
      else case skip_space t of
        [] \<Rightarrow> wire_fail
      | c # r \<Rightarrow>
         (if c = dquote then bind_result (peer_string (c # r)) (\<lambda>(s, r). Inr (JStr s, r))
          else if c = CHR ''['' then
            (case skip_space r of
               [] \<Rightarrow> wire_fail
             | c1 # r1 \<Rightarrow> if c1 = CHR '']'' then Inr (JArr [], r1)
                 else bind_result (peer_elements n depth (c1 # r1)) (\<lambda>(vs, r2). Inr (JArr vs, r2)))
          else if c = CHR ''{'' then
            (case skip_space r of
               [] \<Rightarrow> wire_fail
             | c1 # r1 \<Rightarrow> if c1 = CHR ''}'' then Inr (JObj [], r1)
                 else bind_result (peer_members n depth [] (c1 # r1)) (\<lambda>(kvs, r2). Inr (JObj kvs, r2)))
          else peer_atom (c # r)))"
| "peer_elements 0 depth t = Inl OutOfFuel"
| "peer_elements (Suc n) depth t =
     bind_result (peer_value n (Suc depth) t) (\<lambda>(v, r).
       case skip_space r of
         [] \<Rightarrow> wire_fail
       | c # r1 \<Rightarrow>
           if c = CHR '','' then bind_result (peer_elements n depth r1) (\<lambda>(vs, r2). Inr (v # vs, r2))
           else if c = CHR '']'' then Inr ([v], r1) else wire_fail)"
| "peer_members 0 depth ks t = Inl OutOfFuel"
| "peer_members (Suc n) depth ks t =
     bind_result (peer_string t) (\<lambda>(k, r0).
       if k \<in> set ks then wire_fail
       else case skip_space r0 of
         [] \<Rightarrow> wire_fail
       | c0 # r \<Rightarrow>
           if c0 \<noteq> CHR '':'' then wire_fail
           else bind_result (peer_value n (Suc depth) r) (\<lambda>(v, r1).
             case skip_space r1 of
               [] \<Rightarrow> wire_fail
             | c # r2 \<Rightarrow>
                 if c = CHR '','' then
                   bind_result (peer_members n depth (k # ks) r2) (\<lambda>(kvs, r3). Inr ((k, v) # kvs, r3))
                 else if c = CHR ''}'' then Inr ([(k, v)], r2) else wire_fail))"

definition parsePeerJson :: "string \<Rightarrow> js_value peer_result" where
  "parsePeerJson t =
     (if utf8Length t > MAX_PEER_CONTROL_BYTES then wire_fail
      else bind_result (peer_value (2 * length t + 1) 0 t) (\<lambda>(v, r).
        if skip_space r = [] then Inr v else wire_fail))"

section \<open>Objects, refusal codes and frames\<close>

definition exactPeerObject :: "js_value \<Rightarrow> string list \<Rightarrow> js_value peer_result" where
  "exactPeerObject v ks =
     (case v of
        JObj kvs \<Rightarrow> (if length kvs = length ks \<and> list_all (\<lambda>k. k \<in> set (map fst kvs)) ks then Inr v else wire_fail)
      | _ \<Rightarrow> wire_fail)"

definition peerErrorCode :: "js_value \<Rightarrow> bool" where
  \<comment> \<open>\<open>/^(?:p2p|managed|launcher|runtime|remote)\.[a-z_.]+$/\<close>, at most 96 characters\<close>
  "peerErrorCode v =
     (case v of
        JStr s \<Rightarrow> length s \<le> 96 \<and>
          list_ex (\<lambda>family. prefix (family @ ''.'') s \<and>
             (let r = drop (Suc (length family)) s in
              r \<noteq> [] \<and> list_all (\<lambda>c. (97 \<le> code_unit c \<and> code_unit c \<le> 122) \<or> c = CHR ''_'' \<or> c = CHR ''.'') r))
            [''p2p'', ''managed'', ''launcher'', ''runtime'', ''remote'']
      | _ \<Rightarrow> False)"

record peer_frame =
  pf_id :: int
  pf_method :: string
  pf_payload :: js_value
  pf_error :: string

definition decodePeerFrame :: "string \<Rightarrow> peer_frame peer_result" where
  "decodePeerFrame t =
     bind_result (parsePeerJson t) (\<lambda>v.
     bind_result (exactPeerObject v [''version'', ''id'', ''method'', ''payload'', ''error'']) (\<lambda>frame.
       case (js_field frame ''version'', js_field frame ''id'', js_field frame ''method'', js_field frame ''error'') of
         (JNum version, JNum i, JStr m, JStr e) \<Rightarrow>
           (if version \<noteq> 1 \<or> \<not> is_safe_integer i \<or> i \<le> 0 \<or> length m > 80 \<or> (e \<noteq> [] \<and> \<not> peerErrorCode (JStr e)) \<or>
               (m \<noteq> [] \<and> e \<noteq> [])
            then wire_fail
            else Inr \<lparr>pf_id = i, pf_method = m, pf_payload = js_field frame ''payload'', pf_error = e\<rparr>)
       | _ \<Rightarrow> wire_fail))"

section \<open>The recogniser always returns\<close>

lemma skip_space_length: "length (skip_space t) \<le> length t"
  by (simp add: skip_space_def length_dropWhile_le)

lemma skip_space_Cons: "skip_space t = c # r \<Longrightarrow> Suc (length r) \<le> length t"
  using skip_space_length [of t] by simp

lemma string_body_length: "string_body t = Inr (s, r) \<Longrightarrow> length r < length t"
proof (induction t arbitrary: s r rule: string_body.induct)
  case (2 c t)
  show ?case
  proof (cases "c = backslash")
    case True
    then obtain u t1 where u: "string_escape t = Inr (u, t1)" using 2(3) by (auto split: sum.splits)
    with 2(3) True obtain s1 where "string_body t1 = Inr (s1, r)" by (auto simp: bind_result_Inr)
    with 2(1) [OF _ True u] True u have "length r < length t1" by simp
    with string_escape_length [OF u] show ?thesis by simp
  qed (use 2 in \<open>auto simp: bind_result_Inr less_SucI split: if_splits\<close>)
qed simp

lemma string_escape_fuel: "string_escape t \<noteq> Inl OutOfFuel"
  by (auto simp: string_escape_def hex_escape_def bind_result_Inl split: list.splits option.splits)

lemma string_body_fuel: "string_body t \<noteq> Inl OutOfFuel"
proof (induction t rule: string_body.induct)
  case (2 c t)
  then show ?case
    by (cases "c = backslash") (auto simp: bind_result_Inl string_escape_fuel split: sum.split)
qed simp

lemma peer_string_length: "peer_string t = Inr (s, r) \<Longrightarrow> length r < length t"
  by (auto simp: peer_string_def split: list.splits if_splits dest!: string_body_length skip_space_Cons)

lemma peer_string_fuel: "peer_string t \<noteq> Inl OutOfFuel"
  by (auto simp: peer_string_def string_body_fuel split: list.splits)

lemma take_fraction_length: "length (snd (take_fraction t)) \<le> length t"
  by (auto simp: take_fraction_def length_dropWhile_le le_SucI split: list.splits)

lemma take_exponent_length: "length (snd (take_exponent t)) \<le> length t"
  by (auto simp: take_exponent_def take_sign_def Let_def length_dropWhile_le le_SucI split: list.splits)

lemma take_integer_length: "take_integer t = Some (ds, r) \<Longrightarrow> length r < length t"
  by (auto simp: take_integer_def length_dropWhile_le less_Suc_eq_le split: list.splits if_splits)

lemma peer_atom_length:
  assumes "peer_atom t = Inr (v, r)"
  shows "length r < length t"
proof -
  have "length r < length t" if n: "peer_number t = Inr (v, r)"
  proof -
    let ?t1 = "if t \<noteq> [] \<and> hd t = CHR ''-'' then tl t else t"
    obtain ds t2 where i: "take_integer ?t1 = Some (ds, t2)"
      and r: "r = snd (take_exponent (snd (take_fraction t2)))"
      using n by (fastforce simp: peer_number_def Let_def bind_result_Inr split: option.splits prod.splits)
    have "length r \<le> length t2"
      unfolding r using take_exponent_length take_fraction_length le_trans by blast
    also have "\<dots> < length ?t1" by (rule take_integer_length [OF i])
    finally show ?thesis by (auto split: if_splits)
  qed
  with assms show ?thesis by (auto simp: peer_atom_def prefix_def split: if_splits)
qed

lemma peer_atom_fuel: "peer_atom t \<noteq> Inl OutOfFuel"
  by (auto simp: peer_atom_def peer_number_def Let_def bind_result_Inl number_value_def
      split: option.splits prod.splits if_splits)

lemma peer_value_SucE:
  assumes "peer_value (Suc n) depth t = Inr (v, r)"
  obtains (str) r0 s where "depth \<le> 12" "skip_space t = dquote # r0" "string_body r0 = Inr (s, r)" "v = JStr s"
  | (arr0) r0 where "depth \<le> 12" "skip_space t = CHR ''['' # r0" "skip_space r0 = CHR '']'' # r" "v = JArr []"
  | (arr) r0 r1 vs where "depth \<le> 12" "skip_space t = CHR ''['' # r0" "skip_space r0 = r1"
      "peer_elements n depth r1 = Inr (vs, r)" "v = JArr vs"
  | (obj0) r0 where "depth \<le> 12" "skip_space t = CHR ''{'' # r0" "skip_space r0 = CHR ''}'' # r" "v = JObj []"
  | (obj) r0 r1 kvs where "depth \<le> 12" "skip_space t = CHR ''{'' # r0" "skip_space r0 = r1"
      "peer_members n depth [] r1 = Inr (kvs, r)" "v = JObj kvs"
  | (atom) r0 where "depth \<le> 12" "skip_space t = r0" "peer_atom r0 = Inr (v, r)"
proof -
  obtain c r0 where d: "depth \<le> 12" and c: "skip_space t = c # r0"
    using assms by (auto split: if_splits list.splits)
  have sp: "skip_space (c # r0) = c # r0"
    using c by (metis dropWhile_idem skip_space_def)
  consider "c = dquote" | "c = CHR ''[''" | "c = CHR ''{''" | "c \<noteq> dquote" "c \<noteq> CHR ''[''" "c \<noteq> CHR ''{''" by blast
  then show thesis
  proof cases
    case 1
    with assms d c sp show thesis by (auto simp: bind_result_Inr peer_string_def intro: str)
  next
    case 2
    with assms d c show thesis
      by (auto simp: bind_result_Inr split: if_splits list.splits intro: arr0 arr)
  next
    case 3
    with assms d c show thesis
      by (auto simp: bind_result_Inr split: if_splits list.splits intro: obj0 obj)
  next
    case 4
    with assms d c show thesis by (auto intro: atom)
  qed
qed

lemma peer_elements_SucE:
  assumes "peer_elements (Suc n) depth t = Inr (vs, r)"
  obtains (last) v r1 where "peer_value n (Suc depth) t = Inr (v, r1)" "skip_space r1 = CHR '']'' # r" "vs = [v]"
  | (more) v r1 r2 ws where "peer_value n (Suc depth) t = Inr (v, r1)" "skip_space r1 = CHR '','' # r2"
      "peer_elements n depth r2 = Inr (ws, r)" "vs = v # ws"
proof -
  obtain v r1 where v: "peer_value n (Suc depth) t = Inr (v, r1)"
    and k: "(case skip_space r1 of [] \<Rightarrow> wire_fail | c # r2 \<Rightarrow>
       if c = CHR '','' then bind_result (peer_elements n depth r2) (\<lambda>(vs, r2). Inr (v # vs, r2))
       else if c = CHR '']'' then Inr ([v], r2) else wire_fail) = Inr (vs, r)"
    using assms by (auto elim!: bind_resultE simp del: peer_value.simps)
  show thesis
  proof (cases "skip_space r1")
    case (Cons c r2)
    consider "c = CHR '',''" | "c = CHR '']''" | "c \<noteq> CHR '',''" "c \<noteq> CHR '']''" by blast
    then show thesis
    proof cases
      case 1
      with k Cons show thesis using more [OF v] by (auto elim!: bind_resultE)
    next
      case 2
      with k Cons show thesis using last [OF v] by simp
    qed (use k Cons in simp)
  qed (use k in simp)
qed

lemma peer_members_SucE:
  assumes "peer_members (Suc n) depth ks t = Inr (kvs, r)"
  obtains (last) k r0 r1 v r2 where "peer_string t = Inr (k, r0)" "k \<notin> set ks" "skip_space r0 = CHR '':'' # r1"
      "peer_value n (Suc depth) r1 = Inr (v, r2)" "skip_space r2 = CHR ''}'' # r" "kvs = [(k, v)]"
  | (more) k r0 r1 v r2 r3 kvs' where "peer_string t = Inr (k, r0)" "k \<notin> set ks" "skip_space r0 = CHR '':'' # r1"
      "peer_value n (Suc depth) r1 = Inr (v, r2)" "skip_space r2 = CHR '','' # r3"
      "peer_members n depth (k # ks) r3 = Inr (kvs', r)" "kvs = (k, v) # kvs'"
proof -
  obtain k r0 where k: "peer_string t = Inr (k, r0)" "k \<notin> set ks"
    using assms by (auto elim!: bind_resultE split: if_splits)
  obtain r1 where r1: "skip_space r0 = CHR '':'' # r1"
    using assms k by (cases "skip_space r0") (auto split: if_splits)
  obtain v r2 where v: "peer_value n (Suc depth) r1 = Inr (v, r2)"
    and e: "(case skip_space r2 of [] \<Rightarrow> wire_fail | c # r3 \<Rightarrow>
       if c = CHR '','' then bind_result (peer_members n depth (k # ks) r3) (\<lambda>(kvs, r4). Inr ((k, v) # kvs, r4))
       else if c = CHR ''}'' then Inr ([(k, v)], r3) else wire_fail) = Inr (kvs, r)"
    using assms k r1 by (auto elim!: bind_resultE simp del: peer_value.simps)
  show thesis
  proof (cases "skip_space r2")
    case (Cons c r3)
    consider "c = CHR '',''" | "c = CHR ''}''" | "c \<noteq> CHR '',''" "c \<noteq> CHR ''}''" by blast
    then show thesis
    proof cases
      case 1
      with e Cons show thesis using more [OF k r1 v] by (auto elim!: bind_resultE)
    next
      case 2
      with e Cons show thesis using last [OF k r1 v] by simp
    qed (use e Cons in simp)
  qed (use e in simp)
qed

lemma peer_value_length:
  "peer_value n depth t = Inr (v, r) \<Longrightarrow> length r < length t"
  "peer_elements n depth t = Inr (vs, r) \<Longrightarrow> length r < length t"
  "peer_members n depth ks t = Inr (kvs, r) \<Longrightarrow> length r < length t"
proof (induction n arbitrary: depth t v r vs ks kvs)
  case (Suc n)
  {
    case 1
    then show ?case
    proof (cases rule: peer_value_SucE)
      case (str r0 s)
      then show ?thesis using skip_space_Cons [OF str(2)] string_body_length [OF str(3)] by simp
    next
      case (arr0 r0)
      then show ?thesis using skip_space_Cons [OF arr0(2)] skip_space_Cons [OF arr0(3)] by simp
    next
      case (arr r0 r1 vs)
      then show ?thesis using skip_space_Cons [OF arr(2)] skip_space_length [of r0] Suc.IH(2) [OF arr(4)] by simp
    next
      case (obj0 r0)
      then show ?thesis using skip_space_Cons [OF obj0(2)] skip_space_Cons [OF obj0(3)] by simp
    next
      case (obj r0 r1 kvs)
      then show ?thesis using skip_space_Cons [OF obj(2)] skip_space_length [of r0] Suc.IH(3) [OF obj(4)] by simp
    next
      case (atom r0)
      then show ?thesis using skip_space_length [of t] peer_atom_length [OF atom(3)] by simp
    qed
  next
    case 2
    then show ?case
    proof (cases rule: peer_elements_SucE)
      case (last v r1)
      then show ?thesis using skip_space_Cons [OF last(2)] Suc.IH(1) [OF last(1)] by simp
    next
      case (more v r1 r2 ws)
      then show ?thesis using skip_space_Cons [OF more(2)] Suc.IH(1) [OF more(1)] Suc.IH(2) [OF more(3)] by simp
    qed
  next
    case 3
    then show ?case
    proof (cases rule: peer_members_SucE)
      case (last k r0 r1 v r2)
      then show ?thesis
        using peer_string_length [OF last(1)] skip_space_Cons [OF last(3)] Suc.IH(1) [OF last(4)] skip_space_Cons [OF last(5)]
        by simp
    next
      case (more k r0 r1 v r2 r3 kvs')
      then show ?thesis
        using peer_string_length [OF more(1)] skip_space_Cons [OF more(3)] Suc.IH(1) [OF more(4)] skip_space_Cons [OF more(5)]
          Suc.IH(3) [OF more(6)]
        by simp
    qed
  }
qed simp_all

lemma peer_fuel:
  "2 * length t < n \<Longrightarrow> peer_value n depth t \<noteq> Inl OutOfFuel"
  "2 * length t + 1 < n \<Longrightarrow> peer_elements n depth t \<noteq> Inl OutOfFuel"
  "2 * length t + 1 < n \<Longrightarrow> peer_members n depth ks t \<noteq> Inl OutOfFuel"
proof (induction n arbitrary: depth t ks)
  case (Suc n)
  {
    case 1
    show ?case
    proof (cases "skip_space t")
      case (Cons c r)
      have "2 * length (skip_space r) + 1 < n"
        using skip_space_Cons [OF Cons] skip_space_length [of r] 1 by simp
      then have e: "peer_elements n depth (skip_space r) \<noteq> Inl OutOfFuel"
        and m: "peer_members n depth [] (skip_space r) \<noteq> Inl OutOfFuel"
        using Suc.IH(2,3) by blast+
      consider "c = dquote" | "c = CHR ''[''" | "c = CHR ''{''" | "c \<noteq> dquote" "c \<noteq> CHR ''[''" "c \<noteq> CHR ''{''" by blast
      then show ?thesis
      proof cases
        case 2
        with Cons e show ?thesis by (cases "skip_space r") (auto simp: bind_result_Inl)
      next
        case 3
        with Cons m show ?thesis by (cases "skip_space r") (auto simp: bind_result_Inl)
      qed (use Cons in \<open>auto simp: bind_result_Inl peer_string_fuel peer_atom_fuel\<close>)
    qed simp
  next
    case 2
    have v: "peer_value n (Suc depth) t \<noteq> Inl OutOfFuel" using Suc.IH(1) 2 by simp
    have "2 * length r1 + 1 < n" if "peer_value n (Suc depth) t = Inr (v, r)" "skip_space r = c # r1" for v r c r1
      using peer_value_length(1) [OF that(1)] skip_space_Cons [OF that(2)] 2 by simp
    with v Suc.IH(2) show ?case by (auto simp: bind_result_Inl split: list.split)
  next
    case 3
    have v: "2 * length r1 < n" if "peer_string t = Inr (k, r)" "skip_space r = c # r1" for k r c r1
      using peer_string_length [OF that(1)] skip_space_Cons [OF that(2)] 3 by simp
    have w: "2 * length r3 + 1 < n"
      if "peer_string t = Inr (k, r)" "skip_space r = c # r1" "peer_value n (Suc depth) r1 = Inr (v, r2)" "skip_space r2 = c' # r3"
      for k r c r1 v r2 c' r3
      using peer_string_length [OF that(1)] skip_space_Cons [OF that(2)] peer_value_length(1) [OF that(3)]
        skip_space_Cons [OF that(4)] 3 by simp
    show ?case
      using v w Suc.IH(1,3) by (auto simp: bind_result_Inl peer_string_fuel split: list.split)
  }
qed simp_all

lemma parsePeerJson_total: "parsePeerJson t \<noteq> Inl OutOfFuel"
  by (auto simp: parsePeerJson_def bind_result_Inl peer_fuel simp del: peer_value.simps)

section \<open>What the recogniser admits\<close>

text \<open>A value that can cross the channel, at a nesting depth.\<close>

fun wire_ok :: "nat \<Rightarrow> js_value \<Rightarrow> bool" where
  "wire_ok d JUndefined \<longleftrightarrow> False"
| "wire_ok d JNull \<longleftrightarrow> False"
| "wire_ok d (JBool b) \<longleftrightarrow> d \<le> 12"
| "wire_ok d (JNum n) \<longleftrightarrow> d \<le> 12 \<and> nat \<bar>n\<bar> < number_limit"
| "wire_ok d (JStr s) \<longleftrightarrow> d \<le> 12"
| "wire_ok d (JArr vs) \<longleftrightarrow> d \<le> 12 \<and> list_all (wire_ok (Suc d)) vs"
| "wire_ok d (JObj kvs) \<longleftrightarrow> d \<le> 12 \<and> distinct (map fst kvs) \<and> list_all (\<lambda>kv. wire_ok (Suc d) (snd kv)) kvs"

lemma number_value_ok: "number_value neg m e = Inr v \<Longrightarrow> d \<le> 12 \<Longrightarrow> wire_ok d v"
  by (auto simp: number_value_def Let_def less_mult_imp_div_less nat_mult_distrib nat_power_eq split: if_splits)

lemma peer_atom_ok: "peer_atom t = Inr (v, r) \<Longrightarrow> d \<le> 12 \<Longrightarrow> wire_ok d v"
  by (auto simp: peer_atom_def peer_number_def Let_def bind_result_Inr
      split: if_splits option.splits prod.splits dest!: number_value_ok)

lemma peer_value_ok:
  "peer_value n d t = Inr (v, r) \<Longrightarrow> wire_ok d v"
  "peer_elements n d t = Inr (vs, r) \<Longrightarrow> list_all (wire_ok (Suc d)) vs"
  "peer_members n d ks t = Inr (kvs, r) \<Longrightarrow>
     distinct (map fst kvs) \<and> set (map fst kvs) \<inter> set ks = {} \<and> list_all (\<lambda>kv. wire_ok (Suc d) (snd kv)) kvs"
proof (induction n arbitrary: d t v r vs ks kvs)
  case (Suc n)
  {
    case 1
    then show ?case
      by (cases rule: peer_value_SucE) (auto dest: Suc.IH(2,3) peer_atom_ok)
  next
    case 2
    then show ?case by (cases rule: peer_elements_SucE) (auto dest: Suc.IH(1,2))
  next
    case 3
    then show ?case
    proof (cases rule: peer_members_SucE)
      case (last k r0 r1 v r2)
      then show ?thesis using Suc.IH(1) [OF last(4)] by simp
    next
      case (more k r0 r1 v r2 r3 kvs')
      then show ?thesis using Suc.IH(1) [OF more(4)] Suc.IH(3) [OF more(6)] by auto
    qed
  }
qed simp_all

lemma parsePeerJson_ok: "parsePeerJson t = Inr v \<Longrightarrow> wire_ok 0 v"
  by (auto simp: parsePeerJson_def bind_result_Inr simp del: peer_value.simps split: if_splits dest: peer_value_ok(1))

section \<open>Printing and reading\<close>

lemma hex_value_digit: "n < 16 \<Longrightarrow> hex_value (hex_digit n) = Some n"
  by (auto simp: hex_value_def hex_digit_def Let_def code_unit_def of_char_of)

lemma string_body_char:
  "string_body (json_char c @ t) = bind_result (string_body t) (\<lambda>(s, r). Inr (c # s, r))"
proof -
  have eq: "char_of (code_unit c) = c" by (simp add: code_unit_def)
  have esc: "char_of n = c" if "code_unit c = n" for n using eq that by simp
  have hex: "hex_escape (CHR ''0'') (CHR ''0'') (hex_digit (code_unit c div 16)) (hex_digit (code_unit c mod 16)) = Inr c"
    if "code_unit c < 32"
  proof -
    have "hex_value (hex_digit (code_unit c div 16)) = Some (code_unit c div 16)" using that by (intro hex_value_digit) simp
    moreover have "hex_value (hex_digit (code_unit c mod 16)) = Some (code_unit c mod 16)" by (intro hex_value_digit) simp
    moreover have "hex_value (CHR ''0'') = Some 0" by (simp add: hex_value_def code_unit_def)
    ultimately show ?thesis by (simp add: hex_escape_def eq)
  qed
  show ?thesis
    unfolding json_char_def
    by (auto simp: string_escape_def simple_escape_def hex dest: esc simp del: char_of_nat)
qed

lemma string_body_print: "string_body (concat (map json_char s) @ dquote # t) = Inr (s, t)"
  by (induction s) (simp_all add: string_body_char)

lemma skip_space_dquote [simp]: "skip_space (dquote # t) = dquote # t"
  by (simp add: skip_space_def json_space_def code_unit_def)

lemma peer_string_print [simp]: "peer_string (json_string s @ t) = Inr (s, t)"
  by (simp add: peer_string_def json_string_def string_body_print)

text \<open>What may follow a printed value.\<close>

definition stops :: "string \<Rightarrow> bool" where
  "stops t \<longleftrightarrow> t = [] \<or> hd t \<in> {CHR '','', CHR '']'', CHR ''}''}"

lemma stops_simps [simp]: "stops []" "stops (CHR '','' # t)" "stops (CHR '']'' # t)" "stops (CHR ''}'' # t)"
  by (simp_all add: stops_def)

lemma stops_cases:
  assumes "stops t"
  obtains "t = []" | r where "t = CHR '','' # r" | r where "t = CHR '']'' # r" | r where "t = CHR ''}'' # r"
  using assms by (cases t) (auto simp: stops_def)

lemma skip_space_delims [simp]:
  "skip_space (CHR '','' # t) = CHR '','' # t" "skip_space (CHR '']'' # t) = CHR '']'' # t"
  "skip_space (CHR ''}'' # t) = CHR ''}'' # t" "skip_space (CHR ''['' # t) = CHR ''['' # t"
  "skip_space (CHR ''{'' # t) = CHR ''{'' # t" "skip_space (CHR '':'' # t) = CHR '':'' # t" "skip_space [] = []"
  by (simp_all add: skip_space_def json_space_def code_unit_def)

lemma stops_no_digit: "stops t \<Longrightarrow> takeWhile js_is_digit t = [] \<and> dropWhile js_is_digit t = t"
  by (erule stops_cases) (simp_all add: js_is_digit_def code_unit_def)

lemma take_tails_stops: "stops t \<Longrightarrow> take_fraction t = ([], t)" "stops t \<Longrightarrow> take_exponent t = (0, t)"
  by (auto elim!: stops_cases simp: take_fraction_def take_exponent_def Let_def split: prod.split)

lemma take_digits_append:
  assumes "list_all js_is_digit ds" "stops t"
  shows "takeWhile js_is_digit (ds @ t) = ds" "dropWhile js_is_digit (ds @ t) = t"
  using assms stops_no_digit [of t] by (auto simp: list_all_iff)

lemma digit_not_minus: "js_is_digit c \<Longrightarrow> c \<noteq> CHR ''-''"
  by (auto simp: js_is_digit_def code_unit_def)

lemma digits_of_nat_hd_digit: "js_is_digit (hd (digits_of_nat n))"
  using digits_of_nat_digits [of n] by (cases "digits_of_nat n") auto

lemma take_integer_print:
  assumes "stops t"
  shows "take_integer (digits_of_nat n @ t) = Some (digits_of_nat n, t)"
proof (cases "n = 0")
  case True
  moreover have "digits_of_nat 0 = ''0''" by code_simp
  ultimately show ?thesis by (simp add: take_integer_def)
next
  case False
  obtain c ds where c: "digits_of_nat n = c # ds" by (cases "digits_of_nat n") auto
  have "c \<noteq> CHR ''0''" "js_is_digit c"
    using digits_of_nat_hd_zero [OF False] digits_of_nat_hd_digit [of n] by (auto simp: c code_unit_def)
  moreover note take_digits_append [OF digits_of_nat_digits assms, of n]
  ultimately show ?thesis by (simp add: take_integer_def c)
qed

lemma peer_number_print:
  assumes "stops t" "nat \<bar>n\<bar> < number_limit"
  shows "peer_number (json_int n @ t) = Inr (JNum n, t)"
proof -
  let ?d = "digits_of_nat (nat \<bar>n\<bar>)"
  have "hd (?d @ t) \<noteq> CHR ''-''" using digit_not_minus [OF digits_of_nat_hd_digit] by (simp add: hd_append)
  then show ?thesis
    using assms
    by (cases "n < 0")
      (simp_all add: peer_number_def json_int_def take_integer_print take_tails_stops number_value_def)
qed

lemma json_int_head: "\<exists>c r. json_int n = c # r \<and> (js_is_digit c \<or> c = CHR ''-'')"
  using digits_of_nat_hd_digit [of "nat \<bar>n\<bar>"] by (cases "digits_of_nat (nat \<bar>n\<bar>)") (auto simp: json_int_def)

lemma number_head:
  assumes "js_is_digit c \<or> c = CHR ''-''"
  shows "\<not> json_space c" "c \<noteq> dquote" "c \<noteq> CHR ''[''" "c \<noteq> CHR ''{''" "c \<noteq> CHR ''t''" "c \<noteq> CHR ''f''" "c \<noteq> CHR '']''"
  using assms by (auto simp: js_is_digit_def json_space_def code_unit_def)

lemma peer_value_number:
  assumes "stops t" "nat \<bar>n\<bar> < number_limit" "d \<le> 12"
  shows "peer_value (Suc k) d (json_int n @ t) = Inr (JNum n, t)"
proof -
  obtain c r where c: "json_int n = c # r" and h: "js_is_digit c \<or> c = CHR ''-''" using json_int_head by blast
  have "peer_atom (json_int n @ t) = Inr (JNum n, t)"
    using peer_number_print [OF assms(1,2)] number_head [OF h] by (simp add: peer_atom_def c)
  with number_head [OF h] assms(3) show ?thesis by (simp add: c skip_space_def)
qed

text \<open>The first character of a printed value closes no list.\<close>

lemma json_text_head: "wire_ok d v \<Longrightarrow> \<exists>c r. json_text v = c # r \<and> \<not> json_space c \<and> c \<noteq> CHR '']''"
  using json_int_head number_head
  by (cases v) (fastforce simp: json_string_def json_space_def code_unit_def)+

lemma elements_print:
  assumes "\<And>v n t. v \<in> set vs \<Longrightarrow> stops t \<Longrightarrow> 2 * length (json_text v) < n \<Longrightarrow>
             peer_value n (Suc d) (json_text v @ t) = Inr (v, t)"
    and "vs \<noteq> []" "2 * length (js_join '','' (json_items vs)) + 1 < n"
  shows "peer_elements n d (js_join '','' (json_items vs) @ CHR '']'' # t) = Inr (vs, t)"
  using assms
proof (induction vs arbitrary: n)
  case (Cons v vs)
  obtain m where n: "n = Suc m" using Cons.prems(3) by (cases n) auto
  have v: "peer_value m (Suc d) (json_text v @ u) = Inr (v, u)" if "stops u" for u
    using Cons.prems(1) [of v u m] that Cons.prems(3) by (cases vs) (auto simp: n)
  show ?case
  proof (cases vs)
    case Nil
    with v [of "CHR '']'' # t"] show ?thesis by (simp add: n del: peer_value.simps)
  next
    case (Cons w ws)
    have "peer_elements m d (js_join '','' (json_items vs) @ CHR '']'' # t) = Inr (vs, t)"
      using Cons.prems(1,3) by (intro Cons.IH) (auto simp: n Cons js_join_Cons)
    with v show ?thesis by (simp add: n Cons js_join_Cons del: peer_value.simps)
  qed
qed simp

lemma members_print:
  assumes "\<And>kv n t. kv \<in> set kvs \<Longrightarrow> stops t \<Longrightarrow> 2 * length (json_text (snd kv)) < n \<Longrightarrow>
             peer_value n (Suc d) (json_text (snd kv) @ t) = Inr (snd kv, t)"
    and "kvs \<noteq> []" "2 * length (js_join '','' (json_members kvs)) + 1 < n"
    and "\<forall>kv \<in> set kvs. snd kv \<noteq> JUndefined" "distinct (map fst kvs)" "fst ` set kvs \<inter> set ks = {}"
  shows "peer_members n d ks (js_join '','' (json_members kvs) @ CHR ''}'' # t) = Inr (kvs, t)"
  using assms
proof (induction kvs arbitrary: n ks)
  case (Cons kv kvs)
  obtain k v where kv: "kv = (k, v)" by (cases kv)
  obtain m where n: "n = Suc m" using Cons.prems(3) by (cases n) auto
  have nu: "v \<noteq> JUndefined" "k \<notin> set ks" using Cons.prems(4,6) by (auto simp: kv)
  have v: "peer_value m (Suc d) (json_text v @ u) = Inr (v, u)" if "stops u" for u
    using Cons.prems(1) [of kv u m] that Cons.prems(3) nu by (cases "json_members kvs") (auto simp: n kv)
  show ?case
  proof (cases kvs)
    case Nil
    with v [of "CHR ''}'' # t"] nu show ?thesis by (simp add: n kv del: peer_value.simps)
  next
    case (Cons w ws)
    have ne: "json_members kvs \<noteq> []" using Cons.prems(4) by (cases w) (auto simp: Cons)
    have "peer_members m d (k # ks) (js_join '','' (json_members kvs) @ CHR ''}'' # t) = Inr (kvs, t)"
      using Cons.prems ne nu by (intro Cons.IH) (auto simp: n kv Cons js_join_Cons)
    with v nu ne show ?thesis by (simp add: n kv js_join_Cons del: peer_value.simps)
  qed
qed simp

lemma peer_value_print:
  "wire_ok d v \<Longrightarrow> stops t \<Longrightarrow> 2 * length (json_text v) < n \<Longrightarrow> peer_value n d (json_text v @ t) = Inr (v, t)"
proof (induction v arbitrary: d t n)
  case (JBool b)
  then obtain m where "n = Suc m" by (cases n) auto
  with JBool show ?case
    by (cases b) (simp_all add: skip_space_def json_space_def code_unit_def peer_atom_def)
next
  case (JNum i)
  then obtain m where "n = Suc m" by (cases n) auto
  with JNum show ?case using peer_value_number [of t i d m] by (simp del: peer_value.simps)
next
  case (JStr s)
  then obtain m where n: "n = Suc m" by (cases n) auto
  have "peer_string (dquote # concat (map json_char s) @ dquote # t) = Inr (s, t)"
    using peer_string_print [of s t] by (simp add: json_string_def)
  with JStr show ?case by (simp add: n json_string_def)
next
  case (JArr vs)
  then obtain m where n: "n = Suc m" by (cases n) auto
  show ?case
  proof (cases vs)
    case Nil
    with JArr show ?thesis by (simp add: n)
  next
    case (Cons w ws)
    let ?j = "js_join '','' (json_items vs)"
    have "peer_elements m d (?j @ CHR '']'' # t) = Inr (vs, t)"
      using JArr.IH JArr.prems Cons by (intro elements_print) (auto simp: n list_all_iff)
    moreover obtain c r where c: "json_text w = c # r" "\<not> json_space c" "c \<noteq> CHR '']''"
      using json_text_head [of "Suc d" w] JArr.prems(1) Cons by auto
    moreover obtain r' where "?j = c # r'" using Cons c by (cases ws) auto
    moreover have "skip_space (c # u) = c # u" for u using c by (simp add: skip_space_def)
    ultimately show ?thesis using JArr.prems(1) by (simp add: n)
  qed
next
  case (JObj kvs)
  then obtain m where n: "n = Suc m" by (cases n) auto
  show ?case
  proof (cases kvs)
    case Nil
    with JObj show ?thesis by (simp add: n)
  next
    case (Cons w ws)
    let ?j = "js_join '','' (json_members kvs)"
    have ok: "wire_ok (Suc d) (snd kv)" if "kv \<in> set kvs" for kv
      using JObj.prems(1) that by (simp add: list_all_iff)
    have nu: "snd kv \<noteq> JUndefined" if "kv \<in> set kvs" for kv using ok [OF that] by auto
    have v: "peer_value k (Suc d) (json_text (snd kv) @ u) = Inr (snd kv, u)"
      if "kv \<in> set kvs" "stops u" "2 * length (json_text (snd kv)) < k" for kv u k
      using JObj.IH [of kv "snd kv" "Suc d" u k] ok that by (cases kv) auto
    have "peer_members m d [] (?j @ CHR ''}'' # t) = Inr (kvs, t)"
      using v nu JObj.prems Cons by (intro members_print) (auto simp: n)
    moreover obtain r' where "?j = dquote # r'"
      using nu [of w] Cons by (cases w; cases "json_members ws") (auto simp: json_string_def)
    ultimately show ?thesis using JObj.prems(1) by (simp add: n)
  qed
qed simp_all

lemma json_text_inject:
  assumes "wire_ok d v" "wire_ok d w" "json_text v = json_text w"
  shows "v = w"
  using peer_value_print [OF assms(1) stops_simps(1), of "Suc (2 * length (json_text v))"]
    peer_value_print [OF assms(2) stops_simps(1), of "Suc (2 * length (json_text w))"] assms(3)
  by (simp del: peer_value.simps)

lemma parsePeerJson_print:
  assumes "wire_ok 0 v" "utf8Length (json_text v) \<le> MAX_PEER_CONTROL_BYTES"
  shows "parsePeerJson (json_text v) = Inr v"
  using peer_value_print [of 0 v "[]" "2 * length (json_text v) + 1"] assms
  by (simp add: parsePeerJson_def del: peer_value.simps)

lemma safe_limit: "is_safe_integer n \<Longrightarrow> nat \<bar>n\<bar> < number_limit"
proof -
  have "9007199254740991 < number_limit" by (simp add: number_limit_def)
  then show "is_safe_integer n \<Longrightarrow> nat \<bar>n\<bar> < number_limit"
    by (auto simp: is_safe_integer_def max_safe_integer_def)
qed



end
