(* ===== verification/Peer_Records.thy ===== *)
theory Peer_Records
  imports Peer_Wire "HOL-Library.Multiset"
begin

text \<open>
  The records of the peer network as the launcher admits them: the account rows the coordinator reports
  (\<open>electron/main/p2p/account-records.ts\<close>), the device catalog (\<open>catalog-schema.ts\<close>) and the renderer's
  management requests (\<open>management-admission.ts\<close>).

  A service or computer of the catalog is the object the file holds (\<open>return record\<close>), so it stays a
  \<open>js_value\<close>: the order of its keys is visible to \<open>JSON.stringify\<close>. The host's URL parser, base64 codec,
  SHA-256 and X.509 reader are the fields of \<open>peer_host\<close>.
\<close>

section \<open>Fields of an object\<close>

definition js_text :: "js_value \<Rightarrow> string \<Rightarrow> string" where
  \<comment> \<open>a field the code knows to be a string\<close>
  "js_text v k = (case js_field v k of JStr s \<Rightarrow> s | _ \<Rightarrow> [])"

definition js_numeric :: "js_value \<Rightarrow> string \<Rightarrow> int" where
  "js_numeric v k = (case js_field v k of JNum n \<Rightarrow> n | _ \<Rightarrow> 0)"

fun safe_integer_value :: "js_value \<Rightarrow> bool" where
  \<comment> \<open>\<open>Number.isSafeInteger\<close>\<close>
  "safe_integer_value (JNum n) = is_safe_integer n"
| "safe_integer_value _ = False"

definition is_hex :: "string \<Rightarrow> bool" where
  \<comment> \<open>\<open>/^[a-f0-9]+$/\<close>\<close>
  "is_hex s \<longleftrightarrow> s \<noteq> [] \<and> list_all (\<lambda>c. js_is_digit c \<or> (97 \<le> code_unit c \<and> code_unit c \<le> 102)) s"

definition breaks_line :: "string \<Rightarrow> bool" where
  \<comment> \<open>\<open>/[\x00\r\n]/\<close>\<close>
  "breaks_line s \<longleftrightarrow> list_ex (\<lambda>c. code_unit c \<in> {0, 10, 13}) s"

section \<open>Account rows\<close>

record peer_user =
  pu_userId :: string
  pu_username :: string

record peer_network =
  pn_networkId :: string
  pn_userId :: string
  pn_name :: string
  pn_maxDevices :: int

record peer_network_device =
  pd_deviceId :: string
  pd_userId :: string
  pd_name :: string
  pd_presence :: string
  pd_lastSeen :: int
  pd_version :: string
  pd_platform :: string
  pd_architecture :: string

record peer_user_session =
  pus_user :: peer_user
  pus_token :: string
  pus_expiresAt :: int

record peer_network_directory =
  nd_network :: peer_network
  nd_devices :: "peer_network_device list"

record peer_directory =
  dir_known :: bool
  dir_revision :: int
  dir_fetchedAt :: int
  dir_networks :: "peer_network_directory list"
  dir_devices :: "peer_network_device list"

definition P2P_NETWORK_DEVICE_LIMITS :: "int list" where
  "P2P_NETWORK_DEVICE_LIMITS = [10, 20, 30]"

definition invalid_request :: "'a peer_result" where
  "invalid_request = peer_fail ''p2p.invalid_request''"

definition assertAccountId :: "js_value \<Rightarrow> nat \<Rightarrow> string peer_result" where
  "assertAccountId v n = (case v of JStr s \<Rightarrow> (if length s \<noteq> n \<or> \<not> is_hex s then invalid_request else Inr s) | _ \<Rightarrow> invalid_request)"

definition assertAccountText :: "js_value \<Rightarrow> string peer_result" where
  "assertAccountText v =
     (case v of
        JStr s \<Rightarrow> (if s = [] \<or> js_trim s \<noteq> s \<or> utf8Length s > 256 \<or> breaks_line s then invalid_request else Inr s)
      | _ \<Rightarrow> invalid_request)"

definition alnum :: "char \<Rightarrow> bool" where
  "alnum c \<longleftrightarrow> js_is_alpha c \<or> js_is_digit c"

definition account_handle :: "string \<Rightarrow> bool" where
  \<comment> \<open>\<open>/^[a-zA-Z0-9][a-zA-Z0-9_.-]{2,63}$/\<close>\<close>
  "account_handle s \<longleftrightarrow> 3 \<le> length s \<and> length s \<le> 64 \<and> alnum (hd s) \<and>
     list_all (\<lambda>c. alnum c \<or> c \<in> set ''_.-'') (tl s)"

definition account_address :: "string \<Rightarrow> bool" where
  \<comment> \<open>\<open>/^[a-zA-Z0-9._%+-]+@[a-zA-Z0-9.-]+\.[a-zA-Z]{2,}$/\<close>: no class holds \<open>@\<close>, the last one no dot\<close>
  "account_address s =
     (case js_split (CHR ''@'') s of
        [l, d] \<Rightarrow> l \<noteq> [] \<and> list_all (\<lambda>c. alnum c \<or> c \<in> set ''._%+-'') l \<and>
          (case js_last_index_of (CHR ''.'') d of
             None \<Rightarrow> False
           | Some i \<Rightarrow> 0 < i \<and> list_all (\<lambda>c. alnum c \<or> c \<in> set ''.-'') (take i d) \<and>
               2 \<le> length (drop (Suc i) d) \<and> list_all js_is_alpha (drop (Suc i) d))
      | _ \<Rightarrow> False)"

definition assertAccountUsername :: "js_value \<Rightarrow> string peer_result" where
  "assertAccountUsername v =
     (case v of
        JStr s \<Rightarrow> (if account_handle s \<or> (utf8Length s \<le> 254 \<and> account_address s) then Inr s else invalid_request)
      | _ \<Rightarrow> invalid_request)"

definition assertAccountEmail :: "js_value \<Rightarrow> string peer_result" where
  "assertAccountEmail v =
     (case v of JStr s \<Rightarrow> (if utf8Length s > 254 \<or> \<not> account_address s then invalid_request else Inr s) | _ \<Rightarrow> invalid_request)"

definition assertAccountIdentity :: "js_value \<Rightarrow> string peer_result" where
  "assertAccountIdentity v =
     (case v of
        JStr s \<Rightarrow> (if utf8Length s > 254 then invalid_request
                  else if account_handle s \<or> account_address s then Inr s else invalid_request)
      | _ \<Rightarrow> invalid_request)"

definition peerUser :: "js_value \<Rightarrow> peer_user peer_result" where
  "peerUser v =
     bind_result (exactPeerObject v [''userId'', ''username'']) (\<lambda>r.
     bind_result (assertAccountId (js_field r ''userId'') 12) (\<lambda>userId.
     bind_result (assertAccountIdentity (js_field r ''username'')) (\<lambda>username.
       Inr \<lparr>pu_userId = userId, pu_username = username\<rparr>)))"

definition peerUserSession :: "js_value \<Rightarrow> peer_user_session peer_result" where
  "peerUserSession v =
     bind_result (exactPeerObject v [''user'', ''token'', ''expiresAt'']) (\<lambda>r.
       case (js_field r ''token'', js_field r ''expiresAt'') of
         (JStr token, JNum expiresAt) \<Rightarrow>
           (if length token \<noteq> 64 \<or> \<not> is_hex token \<or> \<not> is_safe_integer expiresAt \<or> expiresAt \<le> 0
            then peer_fail ''p2p.invalid_user_session''
            else bind_result (peerUser (js_field r ''user'')) (\<lambda>u.
              Inr \<lparr>pus_user = u, pus_token = token, pus_expiresAt = expiresAt\<rparr>))
       | _ \<Rightarrow> peer_fail ''p2p.invalid_user_session'')"

definition peerNetwork :: "js_value \<Rightarrow> string \<Rightarrow> peer_network peer_result" where
  "peerNetwork v userId =
     bind_result (exactPeerObject v [''networkId'', ''userId'', ''name'', ''maxDevices'']) (\<lambda>r.
     bind_result (assertAccountId (js_field r ''networkId'') 12) (\<lambda>networkId.
     bind_result (assertAccountText (js_field r ''name'')) (\<lambda>name.
       if js_field r ''userId'' \<noteq> JStr userId then peer_fail ''p2p.user_scope_mismatch''
       else if js_field r ''maxDevices'' \<notin> JNum ` set P2P_NETWORK_DEVICE_LIMITS then peer_fail ''p2p.invalid_network_limit''
       else Inr \<lparr>pn_networkId = networkId, pn_userId = userId, pn_name = name, pn_maxDevices = js_numeric r ''maxDevices''\<rparr>)))"

definition displayable :: "js_value \<Rightarrow> string" where
  "displayable v =
     (case v of
        JStr s \<Rightarrow> (if length s > 64 then [] else if breaks_line s \<or> js_trim s \<noteq> s then [] else s)
      | _ \<Rightarrow> [])"

definition peerNetworkDevice :: "js_value \<Rightarrow> string \<Rightarrow> peer_network_device peer_result" where
  "peerNetworkDevice v userId =
     bind_result (exactPeerObject v [''deviceId'', ''userId'', ''name'', ''presence'', ''lastSeen'', ''version'', ''platform'',
                                     ''architecture'']) (\<lambda>r.
     bind_result (assertAccountId (js_field r ''deviceId'') 12) (\<lambda>deviceId.
     bind_result (assertAccountId (js_field r ''userId'') 12) (\<lambda>_.
     bind_result (assertAccountText (js_field r ''name'')) (\<lambda>name.
       if js_field r ''presence'' \<notin> {JStr ''online'', JStr ''stale'', JStr ''offline''} then peer_fail ''p2p.invalid_device_state''
       else if \<not> safe_integer_value (js_field r ''lastSeen'') \<or> js_numeric r ''lastSeen'' < 0
         then peer_fail ''p2p.invalid_device_state''
       else Inr \<lparr>pd_deviceId = deviceId, pd_userId = userId, pd_name = name,
                 pd_presence = (if js_field r ''presence'' = JStr ''online'' then ''online'' else ''offline''),
                 pd_lastSeen = js_numeric r ''lastSeen'', pd_version = displayable (js_field r ''version''),
                 pd_platform = displayable (js_field r ''platform''),
                 pd_architecture = displayable (js_field r ''architecture'')\<rparr>))))"

definition isCount :: "js_value \<Rightarrow> bool" where
  "isCount v = (case v of JNum n \<Rightarrow> is_safe_integer n \<and> 0 \<le> n | _ \<Rightarrow> False)"

definition invalid_server_response :: "'a peer_result" where
  "invalid_server_response = peer_fail ''p2p.invalid_server_response''"

definition peerDirectoryNetwork :: "js_value \<Rightarrow> string \<Rightarrow> peer_network_directory peer_result" where
  "peerDirectoryNetwork v userId =
     bind_result (exactPeerObject v [''networkId'', ''userId'', ''name'', ''maxDevices'', ''devices'']) (\<lambda>r.
       case js_field r ''devices'' of
         JArr devices \<Rightarrow>
           bind_result (peerNetwork (JObj [(''networkId'', js_field r ''networkId''), (''userId'', js_field r ''userId''),
                                           (''name'', js_field r ''name''), (''maxDevices'', js_field r ''maxDevices'')]) userId) (\<lambda>n.
           bind_result (traverse_result (\<lambda>d. peerNetworkDevice d userId) devices) (\<lambda>ds.
             Inr \<lparr>nd_network = n, nd_devices = ds\<rparr>))
       | _ \<Rightarrow> invalid_server_response)"

definition directory_body :: "js_value \<Rightarrow> string \<Rightarrow> string \<Rightarrow> peer_directory peer_result" where
  \<comment> \<open>the \<open>try\<close> block of \<open>peerDirectory\<close>\<close>
  "directory_body v serviceId userId =
     bind_result (exactPeerObject v [''serviceId'', ''known'', ''revision'', ''fetchedAt'', ''networks'', ''devices'']) (\<lambda>r.
       case (js_field r ''known'', js_field r ''networks'', js_field r ''devices'') of
         (JBool known, JArr networks, JArr devices) \<Rightarrow>
           (if js_field r ''serviceId'' \<noteq> JStr serviceId \<or> \<not> isCount (js_field r ''revision'') \<or>
               \<not> isCount (js_field r ''fetchedAt'')
            then invalid_server_response
            else bind_result (traverse_result (\<lambda>n. peerDirectoryNetwork n userId) networks) (\<lambda>ns.
                 bind_result (traverse_result (\<lambda>d. peerNetworkDevice d userId) devices) (\<lambda>ds.
                   Inr \<lparr>dir_known = known, dir_revision = js_numeric r ''revision'', dir_fetchedAt = js_numeric r ''fetchedAt'',
                        dir_networks = ns, dir_devices = ds\<rparr>)))
       | _ \<Rightarrow> invalid_server_response)"

definition peerDirectory :: "js_value \<Rightarrow> string \<Rightarrow> string \<Rightarrow> peer_directory peer_result" where
  "peerDirectory v serviceId userId =
     (case directory_body v serviceId userId of Inl _ \<Rightarrow> invalid_server_response | Inr d \<Rightarrow> Inr d)"

definition peerNetworks :: "js_value \<Rightarrow> string \<Rightarrow> peer_network list peer_result" where
  "peerNetworks v userId =
     (case v of
        JArr rows \<Rightarrow>
          bind_result (traverse_result (\<lambda>r. peerNetwork r userId) rows) (\<lambda>ns.
            if distinct (map pn_networkId ns) then Inr ns else peer_fail ''p2p.invalid_network_list'')
      | _ \<Rightarrow> peer_fail ''p2p.invalid_network_list'')"

section \<open>The device catalog\<close>

record peer_url =
  pu_protocol :: string
  pu_origin :: string
  pu_href :: string
  pu_host :: string
  pu_hostname :: string
  pu_port :: "nat option"  \<comment> \<open>\<open>None\<close> is the empty text\<close>
  pu_pathname :: string
  pu_credentials :: "string \<times> string"
  pu_search :: string
  pu_hash :: string

record x509 =
  x5_raw :: "nat list"
  x5_ca :: bool
  x5_keyType :: string
  x5_selfSigned :: bool
  x5_spki :: "nat list"

record peer_host =
  ph_new_url :: "string \<Rightarrow> peer_url option"        \<comment> \<open>\<open>new URL(text)\<close>; \<open>None\<close> when it throws\<close>
  ph_from_base64 :: "string \<Rightarrow> nat list"            \<comment> \<open>\<open>Buffer.from(text, 'base64')\<close>\<close>
  ph_to_base64 :: "nat list \<Rightarrow> string"
  ph_sha256 :: "nat list \<Rightarrow> string"                  \<comment> \<open>hexadecimal digest\<close>
  ph_certificate :: "nat list \<Rightarrow> x509 option"        \<comment> \<open>\<open>new X509Certificate(bytes)\<close>\<close>

record peer_catalog =
  pc_catalogId :: string
  pc_services :: "js_value list"
  pc_computers :: "js_value list"
  pc_forgotten :: "string list"

definition MAX_CATALOG_BYTES :: nat where
  "MAX_CATALOG_BYTES = 60 * 1024"

definition catalog_fail :: "'a peer_result" where
  "catalog_fail = peer_fail ''p2p.catalog_invalid''"

definition peer_id :: "js_value \<Rightarrow> nat \<Rightarrow> bool" where
  "peer_id v n = (case v of JStr s \<Rightarrow> length s = n \<and> is_hex s | _ \<Rightarrow> False)"

definition peer_name :: "js_value \<Rightarrow> bool" where
  "peer_name v = (case v of JStr s \<Rightarrow> js_trim s = s \<and> 0 < utf8Length s \<and> utf8Length s \<le> 256 \<and> \<not> breaks_line s | _ \<Rightarrow> False)"

definition peer_key :: "peer_host \<Rightarrow> js_value \<Rightarrow> bool" where
  "peer_key h v =
     (case v of
        JStr s \<Rightarrow> length (ph_from_base64 h s) = 32 \<and> ph_to_base64 h (ph_from_base64 h s) = s
      | _ \<Rightarrow> False)"

definition last_bytes :: "nat \<Rightarrow> 'a list \<Rightarrow> 'a list" where
  \<comment> \<open>\<open>subarray(-n)\<close>\<close>
  "last_bytes n bs = drop (length bs - n) bs"

definition assertServiceCertificate :: "peer_host \<Rightarrow> string \<Rightarrow> string \<Rightarrow> unit peer_result" where
  "assertServiceCertificate h encoded publicKey =
     (let bytes = ph_from_base64 h encoded in
      if bytes = [] \<or> length bytes > 16 * 1024 \<or> ph_to_base64 h bytes \<noteq> encoded then catalog_fail
      else case ph_certificate h bytes of
        None \<Rightarrow> catalog_fail
      | Some c \<Rightarrow>
          if x5_raw c \<noteq> bytes \<or> \<not> x5_ca c \<or> x5_keyType c \<noteq> ''ed25519'' \<or> \<not> x5_selfSigned c then catalog_fail
          else if last_bytes 32 (x5_spki c) \<noteq> ph_from_base64 h publicKey then catalog_fail
          else Inr ())"

definition plain_url :: "peer_url \<Rightarrow> bool" where
  \<comment> \<open>no user name, password, search or hash\<close>
  "plain_url u \<longleftrightarrow> pu_credentials u = ([], []) \<and> pu_search u = [] \<and> pu_hash u = []"

definition assertPeerEndpoints :: "peer_host \<Rightarrow> string \<Rightarrow> string \<Rightarrow> string \<Rightarrow> unit peer_result" where
  "assertPeerEndpoints h httpsOrigin wssUrl stunAddress =
     (case (ph_new_url h httpsOrigin, ph_new_url h wssUrl, ph_new_url h (''udp://'' @ stunAddress)) of
        (Some https, Some wss, Some stun) \<Rightarrow>
          (if pu_protocol https \<noteq> ''https:'' \<or> pu_origin https \<noteq> httpsOrigin \<or> \<not> plain_url https \<or>
              pu_protocol wss \<noteq> ''wss:'' \<or> pu_href wss \<noteq> wssUrl \<or> pu_host wss \<noteq> pu_host https \<or>
              pu_pathname wss \<noteq> ''/v1/signals'' \<or> \<not> plain_url wss \<or>
              pu_hostname stun = [] \<or> pu_port stun \<in> {None, Some 0} \<or> pu_host stun \<noteq> stunAddress \<or>
              pu_pathname stun \<noteq> [] \<or> \<not> plain_url stun \<or> list_ex js_is_space stunAddress
           then catalog_fail else Inr ())
      | _ \<Rightarrow> catalog_fail)"

definition service_keys :: "string list" where
  "service_keys = [''serviceId'', ''displayName'', ''httpsOrigin'', ''wssUrl'', ''stunAddress'', ''publicKey'', ''certificate'']"

definition parsePeerService :: "peer_host \<Rightarrow> js_value \<Rightarrow> js_value peer_result" where
  "parsePeerService h v =
     bind_result (exactPeerObject v service_keys) (\<lambda>r.
       case js_field r ''certificate'' of
         JStr certificate \<Rightarrow>
           (if \<not> peer_id (js_field r ''serviceId'') 12 \<or> \<not> peer_name (js_field r ''displayName'') \<or>
               \<not> peer_key h (js_field r ''publicKey'') \<or> certificate = []
            then catalog_fail
            else bind_result (assertServiceCertificate h certificate (js_text r ''publicKey'')) (\<lambda>_.
              if take 12 (ph_sha256 h (ph_from_base64 h (js_text r ''publicKey''))) \<noteq> js_text r ''serviceId'' then catalog_fail
              else case (js_field r ''httpsOrigin'', js_field r ''wssUrl'', js_field r ''stunAddress'') of
                (JStr httpsOrigin, JStr wssUrl, JStr stunAddress) \<Rightarrow>
                  bind_result (assertPeerEndpoints h httpsOrigin wssUrl stunAddress) (\<lambda>_. Inr r)
              | _ \<Rightarrow> catalog_fail))
       | _ \<Rightarrow> catalog_fail)"

definition computer_ids :: "string list" where
  "computer_ids = [''connectionId'', ''serviceId'', ''pairId'', ''networkId'', ''localDeviceId'', ''remoteDeviceId'', ''userId'']"

definition computer_keys :: "string list" where
  "computer_keys =
     [''connectionId'', ''serviceId'', ''displayName'', ''pairId'', ''networkId'', ''localDeviceId'', ''remoteDeviceId'', ''userId'',
      ''localPublicKey'', ''remotePublicKey'', ''pairRevision'', ''pairState'']"

definition parse_computer :: "peer_host \<Rightarrow> js_value \<Rightarrow> js_value peer_result" where
  "parse_computer h v =
     bind_result (exactPeerObject v computer_keys) (\<lambda>r.
       if \<not> list_all (\<lambda>k. peer_id (js_field r k) 12) computer_ids \<or> \<not> peer_name (js_field r ''displayName'') \<or>
          js_field r ''localDeviceId'' = js_field r ''remoteDeviceId'' \<or>
          \<not> peer_key h (js_field r ''localPublicKey'') \<or> \<not> peer_key h (js_field r ''remotePublicKey'') \<or>
          js_field r ''localPublicKey'' = js_field r ''remotePublicKey'' \<or>
          \<not> safe_integer_value (js_field r ''pairRevision'') \<or> js_numeric r ''pairRevision'' \<le> 0 \<or>
          js_field r ''pairState'' \<notin> {JStr ''active'', JStr ''revoked''}
       then catalog_fail else Inr r)"

definition catalog_keys :: "string list" where
  "catalog_keys = [''format'', ''version'', ''catalogId'', ''services'', ''computers'', ''forgottenServiceIds'']"

definition pair_name :: "js_value \<Rightarrow> string" where
  "pair_name c = js_text c ''serviceId'' @ '':'' @ js_text c ''pairId''"

definition catalog_of_value :: "peer_host \<Rightarrow> js_value \<Rightarrow> peer_catalog peer_result" where
  \<comment> \<open>\<open>parsePeerCatalog\<close> once the text is read\<close>
  "catalog_of_value h v =
     bind_result (exactPeerObject v catalog_keys) (\<lambda>r.
       case (js_field r ''services'', js_field r ''computers'', js_field r ''forgottenServiceIds'') of
         (JArr svs, JArr cs, JArr fs) \<Rightarrow>
           (if js_field r ''format'' \<noteq> JStr ''dshker.p2p-devices'' \<or> js_field r ''version'' \<noteq> JNum 1 \<or>
               \<not> peer_id (js_field r ''catalogId'') 12
            then catalog_fail
            else bind_result (traverse_result (parsePeerService h) svs) (\<lambda>services.
                 bind_result (traverse_result (parse_computer h) cs) (\<lambda>computers.
                   if \<not> list_all (\<lambda>f. peer_id f 12) fs \<or>
                      \<not> distinct (map (\<lambda>s. js_text s ''serviceId'') services) \<or>
                      \<not> distinct (map (\<lambda>c. js_text c ''connectionId'') computers) \<or>
                      \<not> distinct (map pair_name computers) \<or>
                      \<not> distinct fs \<or>
                      \<not> list_all (\<lambda>c. js_text c ''serviceId'' \<in> set (map (\<lambda>s. js_text s ''serviceId'') services)) computers
                   then catalog_fail
                   else Inr \<lparr>pc_catalogId = js_text r ''catalogId'', pc_services = services, pc_computers = computers,
                             pc_forgotten = map (\<lambda>f. case f of JStr s \<Rightarrow> s | _ \<Rightarrow> []) fs\<rparr>)))
       | _ \<Rightarrow> catalog_fail)"

definition parsePeerCatalog :: "peer_host \<Rightarrow> string \<Rightarrow> peer_catalog peer_result" where
  "parsePeerCatalog h t =
     (if utf8Length t > MAX_CATALOG_BYTES then catalog_fail
      else bind_result (parsePeerJson t) (catalog_of_value h))"

definition catalog_value :: "peer_catalog \<Rightarrow> js_value" where
  \<comment> \<open>the object \<open>parsePeerCatalog\<close> returns\<close>
  "catalog_value r =
     JObj [(''format'', JStr ''dshker.p2p-devices''), (''version'', JNum 1), (''catalogId'', JStr (pc_catalogId r)),
           (''services'', JArr (pc_services r)), (''computers'', JArr (pc_computers r)),
           (''forgottenServiceIds'', JArr (map JStr (pc_forgotten r)))]"

section \<open>Management requests\<close>

definition management_fields :: "(string \<times> string list) list" where
  "management_fields =
    [(''enable'', []), (''catalog'', []), (''resetCatalog'', []),
     (''addService'', [''revision'', ''displayName'', ''httpsOrigin'', ''wssUrl'', ''stunAddress'']),
     (''login'', [''serviceId'', ''username'', ''password'']),
     (''register'', [''serviceId'', ''email'', ''password'']),
     (''currentUser'', [''serviceId'']), (''logout'', [''serviceId'']), (''networks'', [''serviceId'']),
     (''createNetwork'', [''serviceId'', ''name'']),
     (''renameNetwork'', [''serviceId'', ''networkId'', ''name'']),
     (''updateNetworkLimit'', [''serviceId'', ''networkId'', ''maxDevices'']),
     (''deleteNetwork'', [''serviceId'', ''networkId'']), (''registration'', [''serviceId'']),
     (''registerDevice'', [''serviceId'', ''networkId'', ''name'']),
     (''joinNetwork'', [''serviceId'', ''networkId'', ''name'']),
     (''leaveNetwork'', [''serviceId'', ''networkId'', ''deviceId'']),
     (''accountSelection'', [''serviceId'', ''userId'']),
     (''rememberAccountSelection'', [''serviceId'', ''userId'', ''networkId'']),
     (''submitEnrollment'', [''serviceId'', ''revision'']), (''recoverEnrollment'', [''serviceId'', ''revision'']),
     (''pairs'', [''serviceId'']), (''networkChoices'', [''serviceId'']),
     (''selectNetwork'', [''serviceId'', ''pairId'', ''networkId'', ''userId'', ''expectedRevision'']),
     (''pairIdentity'', [''serviceId'', ''pairId'']), (''createInvite'', [''serviceId'', ''networkId'']),
     (''acceptInvite'', [''serviceId'', ''networkId'', ''code'']),
     (''approvePair'', [''serviceId'', ''pairId'', ''fingerprint'']),
     (''rejectPair'', [''serviceId'', ''pairId'']), (''revokePair'', [''serviceId'', ''pairId'']),
     (''removeService'', [''serviceId'']), (''connections'', []),
     (''connect'', [''serviceId'', ''pairId'']), (''disconnect'', [''serviceId'', ''pairId'']),
     (''entry'', [''serviceId'', ''pairId'', ''generation'']), (''localDevice'', []), (''serviceSessions'', []),
     (''directory'', [''serviceId'']), (''refreshDirectory'', [''serviceId'']),
     (''updateServiceConfig'', [''serviceId'', ''revision'', ''displayName'', ''httpsOrigin'', ''wssUrl'', ''stunAddress'']),
     (''remoteRoots'', [''serviceId'', ''pairId'']),
     (''remoteDirectory'', [''serviceId'', ''pairId'', ''rootId'', ''ref'', ''offset'', ''limit'']),
     (''cancel'', [''targetRequestId''])]"

definition assertRequestId :: "js_value \<Rightarrow> unit peer_result" where
  "assertRequestId v = (case v of JNum n \<Rightarrow> (if \<not> is_safe_integer n \<or> n \<le> 0 then invalid_request else Inr ()) | _ \<Rightarrow> invalid_request)"

definition url_safe :: "string \<Rightarrow> bool" where
  \<comment> \<open>\<open>[A-Za-z0-9_-]*\<close>\<close>
  "url_safe s \<longleftrightarrow> list_all (\<lambda>c. alnum c \<or> c = CHR ''_'' \<or> c = CHR ''-'') s"

definition grouped_hex :: "string \<Rightarrow> bool" where
  \<comment> \<open>\<open>/^([a-f0-9]{4} ){2}[a-f0-9]{4}$/\<close>\<close>
  "grouped_hex s \<longleftrightarrow> (case js_split (CHR '' '') s of
     [a, b, c] \<Rightarrow> list_all (\<lambda>g. length g = 4 \<and> is_hex g) [a, b, c] | _ \<Rightarrow> False)"

definition check_text :: "(string \<Rightarrow> bool) \<Rightarrow> string \<Rightarrow> js_value \<Rightarrow> unit peer_result" where
  "check_text p code v = (case v of JStr s \<Rightarrow> (if p s then Inr () else peer_fail code) | _ \<Rightarrow> peer_fail code)"

definition validateField :: "string \<Rightarrow> js_value \<Rightarrow> unit peer_result" where
  "validateField field v =
     (if field = ''targetRequestId'' then assertRequestId v
      else if field = ''serviceId'' then bind_result (assertAccountId v 12) (\<lambda>_. Inr ())
      else if field = ''revision'' \<or> field = ''expectedRevision'' then bind_result (assertAccountId v 64) (\<lambda>_. Inr ())
      else if field = ''userId'' then bind_result (assertAccountId v 12) (\<lambda>_. Inr ())
      else if field = ''networkId'' \<or> field = ''pairId'' \<or> field = ''deviceId'' then bind_result (assertAccountId v 12) (\<lambda>_. Inr ())
      else if field = ''name'' \<or> field = ''displayName'' then bind_result (assertAccountText v) (\<lambda>_. Inr ())
      else if field = ''username'' then bind_result (assertAccountUsername v) (\<lambda>_. Inr ())
      else if field = ''offset'' \<or> field = ''limit'' then (if isCount v then Inr () else invalid_request)
      else if field = ''generation'' then assertRequestId v
      else if field = ''rootId'' then check_text (\<lambda>s. s \<noteq> [] \<and> length s \<le> 128) ''p2p.invalid_request'' v
      else if field = ''ref'' then check_text (\<lambda>s. length s \<le> 4096 \<and> url_safe s) ''p2p.remote_reference_invalid'' v
      else if field = ''code'' then check_text (\<lambda>s. 16 \<le> length s \<and> length s \<le> 2048 \<and> url_safe s) ''p2p.invite_invalid'' v
      else if field = ''fingerprint'' then check_text grouped_hex ''p2p.pair_fingerprint_mismatch'' v
      else if field = ''email'' then
        check_text (\<lambda>s. s \<noteq> [] \<and> length s \<le> 320 \<and> utf8Length s \<le> 2048) ''p2p.invalid_request'' v
      else if field = ''password'' then check_text (\<lambda>s. s \<noteq> [] \<and> utf8Length s \<le> 72) ''p2p.invalid_request'' v
      else if field = ''maxDevices'' then
        (if v \<in> JNum ` set P2P_NETWORK_DEVICE_LIMITS then Inr () else peer_fail ''p2p.invalid_network_limit'')
      else check_text (\<lambda>s. s \<noteq> [] \<and> utf8Length s \<le> 2048) ''p2p.invalid_request'' v)"

definition P2P_MANAGEMENT_VERSION :: int where
  "P2P_MANAGEMENT_VERSION = 1"

definition parseManagementRequest :: "peer_host \<Rightarrow> string \<Rightarrow> js_value \<Rightarrow> js_value peer_result" where
  \<comment> \<open>\<open>method\<close> is one of the operations of \<open>management_fields\<close>; the result is the copied record\<close>
  "parseManagementRequest h m v =
     (let fields = (case map_of management_fields m of None \<Rightarrow> [] | Some fs \<Rightarrow> fs) in
      bind_result (exactPeerObject v (''version'' # ''requestId'' # fields)) (\<lambda>r.
        if js_field r ''version'' \<noteq> JNum P2P_MANAGEMENT_VERSION then wire_fail
        else bind_result (assertRequestId (js_field r ''requestId'')) (\<lambda>_.
             bind_result (traverse_result (\<lambda>f. validateField f (js_field r f)) fields) (\<lambda>_.
             bind_result (if m = ''addService'' \<or> m = ''updateServiceConfig''
                          then assertPeerEndpoints h (js_text r ''httpsOrigin'') (js_text r ''wssUrl'') (js_text r ''stunAddress'')
                          else Inr ()) (\<lambda>_. Inr r)))))"

section \<open>Exact objects\<close>

lemma peer_fail_simps [simp]: "peer_fail c \<noteq> Inr a" "Inr a \<noteq> peer_fail c" "catalog_fail \<noteq> Inr a" "invalid_request \<noteq> Inr b"
  "invalid_server_response \<noteq> Inr d"
  by (simp_all add: peer_fail_def catalog_fail_def invalid_request_def invalid_server_response_def)

lemma exactPeerObject_Inr:
  "exactPeerObject v ks = Inr r \<longleftrightarrow> (\<exists>kvs. v = JObj kvs \<and> r = v \<and> length kvs = length ks \<and> set ks \<subseteq> fst ` set kvs)"
  by (auto simp: exactPeerObject_def list_all_iff split: js_value.splits)

lemma exact_keys:
  assumes "length kvs = length ks" "set ks \<subseteq> fst ` set kvs" "distinct ks"
  shows "distinct (map fst kvs) \<and> fst ` set kvs = set ks"
proof -
  have l: "card (set ks) = length kvs" using assms by (simp add: distinct_card)
  moreover have "card (fst ` set kvs) \<le> length kvs"
    using card_length [of "map fst kvs"] by simp
  moreover have "card (set ks) \<le> card (fst ` set kvs)" using assms(2) by (intro card_mono) auto
  ultimately have "card (fst ` set kvs) = length kvs" by simp
  then have "distinct (map fst kvs)" using card_distinct [of "map fst kvs"] by simp
  moreover have "fst ` set kvs = set ks"
    using card_subset_eq [OF _ assms(2)] l \<open>card (fst ` set kvs) = length kvs\<close> by auto
  ultimately show ?thesis by blast
qed

lemma js_field_member: "distinct (map fst kvs) \<Longrightarrow> (k, x) \<in> set kvs \<Longrightarrow> js_field (JObj kvs) k = x"
  by simp

section \<open>Admitted requests hold primitive values only\<close>

fun primitive :: "js_value \<Rightarrow> bool" where
  "primitive (JStr _) = True"
| "primitive (JNum _) = True"
| "primitive _ = False"

lemma assert_primitive:
  "assertAccountId v n = Inr s \<Longrightarrow> primitive v" "assertAccountText v = Inr s \<Longrightarrow> primitive v"
  "assertAccountUsername v = Inr s \<Longrightarrow> primitive v" "assertRequestId v = Inr u \<Longrightarrow> primitive v"
  "check_text p c v = Inr u \<Longrightarrow> primitive v" "isCount v \<Longrightarrow> primitive v"
  by (auto simp: assertAccountId_def assertAccountText_def assertAccountUsername_def assertRequestId_def check_text_def
      isCount_def split: js_value.splits)

lemma if_resultE:
  assumes "(if c then a else b) = Inr u" "c \<Longrightarrow> a = Inr u \<Longrightarrow> P" "b = Inr u \<Longrightarrow> P"
  shows P
  using assms by (cases c) auto

lemma limit_primitive: "v \<in> JNum ` S \<Longrightarrow> primitive v"
  by auto

lemma bind_primitive:
  "bind_result (assertAccountId v n) f = Inr u \<Longrightarrow> primitive v" "bind_result (assertAccountText v) f = Inr u \<Longrightarrow> primitive v"
  "bind_result (assertAccountUsername v) f = Inr u \<Longrightarrow> primitive v"
  by (auto elim!: bind_resultE dest: assert_primitive)

lemma validateField_primitive: "validateField f v = Inr u \<Longrightarrow> primitive v"
  unfolding validateField_def
  by (elim if_resultE) (erule assert_primitive(4-6) limit_primitive bind_primitive | simp only: peer_fail_simps)+

lemma management_fields_distinct:
  "map_of management_fields m = Some fs \<Longrightarrow> distinct (''version'' # ''requestId'' # fs)"
proof -
  have "list_all (\<lambda>(m, fs). distinct (''version'' # ''requestId'' # fs)) management_fields" by code_simp
  then show "map_of management_fields m = Some fs \<Longrightarrow> distinct (''version'' # ''requestId'' # fs)"
    by (auto simp: list_all_iff dest: map_of_SomeD)
qed

lemma traverse_result_all: "traverse_result f xs = Inr ys \<Longrightarrow> x \<in> set xs \<Longrightarrow> \<exists>y. f x = Inr y"
  by (induction xs arbitrary: ys) (auto simp: bind_result_Inr)

text \<open>(C31) An admitted management request is an object with exactly the version, the request id and the fields of its
  operation, each a text or a number, and it is admitted unchanged: the shallow copy the main process keeps
  shares nothing with the caller.\<close>

theorem management_request_primitive:
  assumes "map_of management_fields m = Some fs" and "parseManagementRequest h m v = Inr r"
  shows "r = v \<and> (\<exists>kvs. v = JObj kvs \<and> distinct (map fst kvs) \<and> fst ` set kvs = {''version'', ''requestId''} \<union> set fs \<and>
           (\<forall>(k, x) \<in> set kvs. primitive x))"
proof -
  let ?ks = "''version'' # ''requestId'' # fs"
  from assms(2) obtain r0 where x: "exactPeerObject v ?ks = Inr r0" and r0: "r = r0"
    and version: "js_field r ''version'' = JNum P2P_MANAGEMENT_VERSION" and i: "assertRequestId (js_field r ''requestId'') = Inr ()"
    and fields: "\<exists>us. traverse_result (\<lambda>f. validateField f (js_field r f)) fs = Inr us"
    by (auto simp: parseManagementRequest_def assms(1) bind_result_Inr split: if_splits simp del: One_nat_def)
  then obtain kvs where r: "r = v" "v = JObj kvs" and len: "length kvs = length ?ks" "set ?ks \<subseteq> fst ` set kvs"
    unfolding exactPeerObject_Inr by blast
  note ks = exact_keys [OF len management_fields_distinct [OF assms(1)]]
  have "primitive (js_field r k)" if "k \<in> set ?ks" for k
    using that version assert_primitive(4) [OF i] fields validateField_primitive by (auto dest!: traverse_result_all)
  then have "primitive x" if "(k, x) \<in> set kvs" for k x
    using that ks js_field_member [of kvs k x] r by (metis fst_conv image_eqI)
  with ks r show ?thesis by auto
qed

definition device_ok :: "string \<Rightarrow> peer_network_device \<Rightarrow> bool" where
  "device_ok userId d \<longleftrightarrow> pd_userId d = userId \<and> pd_presence d \<in> {''online'', ''offline''} \<and> 0 \<le> pd_lastSeen d \<and>
     (\<forall>s \<in> {pd_version d, pd_platform d, pd_architecture d}. length s \<le> 64 \<and> js_trim s = s \<and> \<not> breaks_line s)"

lemma displayable_ok: "length (displayable v) \<le> 64 \<and> js_trim (displayable v) = displayable v \<and> \<not> breaks_line (displayable v)"
  by (auto simp: displayable_def js_trim_def js_trim_start_def js_trim_end_def breaks_line_def split: js_value.split)

lemma peerNetworkDevice_ok: "peerNetworkDevice v userId = Inr d \<Longrightarrow> device_ok userId d"
  by (auto simp: peerNetworkDevice_def bind_result_Inr device_ok_def displayable_ok split: if_splits)

lemma peerNetwork_ok: "peerNetwork v userId = Inr n \<Longrightarrow> pn_userId n = userId \<and> pn_maxDevices n \<in> {10, 20, 30}"
  by (auto simp: peerNetwork_def bind_result_Inr P2P_NETWORK_DEVICE_LIMITS_def js_numeric_def split: if_splits)

lemma traverse_result_set: "traverse_result f xs = Inr ys \<Longrightarrow> y \<in> set ys \<Longrightarrow> \<exists>x \<in> set xs. f x = Inr y"
  by (induction xs arbitrary: ys) (auto simp: bind_result_Inr)

lemma devices_ok: "traverse_result (\<lambda>d. peerNetworkDevice d userId) vs = Inr ds \<Longrightarrow> \<forall>d \<in> set ds. device_ok userId d"
  by (meson traverse_result_set peerNetworkDevice_ok)

lemma peerDirectoryNetwork_ok:
  assumes "peerDirectoryNetwork v userId = Inr n"
  shows "pn_userId (nd_network n) = userId \<and> pn_maxDevices (nd_network n) \<in> {10, 20, 30} \<and>
    (\<forall>d \<in> set (nd_devices n). device_ok userId d)"
proof -
  obtain r where r: "(case js_field r ''devices'' of
         JArr devices \<Rightarrow>
           bind_result (peerNetwork (JObj [(''networkId'', js_field r ''networkId''), (''userId'', js_field r ''userId''),
                                           (''name'', js_field r ''name''), (''maxDevices'', js_field r ''maxDevices'')]) userId) (\<lambda>n.
           bind_result (traverse_result (\<lambda>d. peerNetworkDevice d userId) devices) (\<lambda>ds.
             Inr \<lparr>nd_network = n, nd_devices = ds\<rparr>))
       | _ \<Rightarrow> invalid_server_response) = Inr n"
    using assms by (auto simp: peerDirectoryNetwork_def elim: bind_resultE)
  then show ?thesis
    by (cases "js_field r ''devices''")
      (auto simp: bind_result_Inr dest!: peerNetwork_ok devices_ok)
qed

lemma directory_body_ok:
  assumes "directory_body v serviceId userId = Inr dir"
  shows "0 \<le> dir_revision dir \<and> 0 \<le> dir_fetchedAt dir \<and>
    (\<forall>n \<in> set (dir_networks dir). pn_userId (nd_network n) = userId \<and> pn_maxDevices (nd_network n) \<in> {10, 20, 30} \<and>
       (\<forall>d \<in> set (nd_devices n). device_ok userId d)) \<and>
    (\<forall>d \<in> set (dir_devices dir). device_ok userId d)"
proof -
  obtain r known networks devices ns ds where
    c: "isCount (js_field r ''revision'')" "isCount (js_field r ''fetchedAt'')"
    and ns: "traverse_result (\<lambda>n. peerDirectoryNetwork n userId) networks = Inr ns"
    and ds: "traverse_result (\<lambda>d. peerNetworkDevice d userId) devices = Inr ds"
    and dir: "dir = \<lparr>dir_known = known, dir_revision = js_numeric r ''revision'', dir_fetchedAt = js_numeric r ''fetchedAt'',
                        dir_networks = ns, dir_devices = ds\<rparr>"
    using assms unfolding directory_body_def
    by (auto elim!: bind_resultE split: js_value.splits if_splits)
  have "0 \<le> js_numeric r k" if "isCount (js_field r k)" for k
    using that by (auto simp: isCount_def js_numeric_def split: js_value.splits)
  moreover have "pn_userId (nd_network n) = userId \<and> pn_maxDevices (nd_network n) \<in> {10, 20, 30} \<and>
       (\<forall>d \<in> set (nd_devices n). device_ok userId d)" if "n \<in> set ns" for n
    using traverse_result_set [OF ns that] peerDirectoryNetwork_ok by blast
  ultimately show ?thesis
    using c devices_ok [OF ds] by (simp add: dir)
qed

text \<open> A directory reply is either refused with one code, whatever was wrong in it, or every network and device
  in it is reported for the reading account, with a presence of online or offline, a capacity the
  service offers, counters that are safe non-negative integers and labels that can be shown as they are.\<close>

lemma peerDirectory_scoped:
  "(case peerDirectory v serviceId userId of
      Inl e \<Rightarrow> e = PeerHelperError ''p2p.invalid_server_response''
    | Inr dir \<Rightarrow> 0 \<le> dir_revision dir \<and> 0 \<le> dir_fetchedAt dir \<and>
        list_all (\<lambda>n. pn_userId (nd_network n) = userId \<and> pn_maxDevices (nd_network n) \<in> {10, 20, 30} \<and>
          list_all (device_ok userId) (nd_devices n)) (dir_networks dir) \<and>
        list_all (device_ok userId) (dir_devices dir))"
  using directory_body_ok [of v serviceId userId]
  by (auto simp: peerDirectory_def invalid_server_response_def peer_fail_def list_all_iff split: sum.split)

section \<open>Catalogs are read back as they were written\<close>

definition peer_catalog_ok :: "peer_host \<Rightarrow> peer_catalog \<Rightarrow> bool" where
  "peer_catalog_ok h r \<longleftrightarrow> peer_id (JStr (pc_catalogId r)) 12 \<and>
     (\<forall>s \<in> set (pc_services r). parsePeerService h s = Inr s) \<and>
     (\<forall>c \<in> set (pc_computers r). parse_computer h c = Inr c) \<and>
     (\<forall>f \<in> set (pc_forgotten r). peer_id (JStr f) 12) \<and>
     distinct (map (\<lambda>s. js_text s ''serviceId'') (pc_services r)) \<and>
     distinct (map (\<lambda>c. js_text c ''connectionId'') (pc_computers r)) \<and>
     distinct (map pair_name (pc_computers r)) \<and> distinct (pc_forgotten r) \<and>
     (\<forall>c \<in> set (pc_computers r). js_text c ''serviceId'' \<in> (\<lambda>s. js_text s ''serviceId'') ` set (pc_services r))"

definition catalog_members :: "peer_catalog \<Rightarrow> (string \<times> js_value) list" where
  "catalog_members r = [(''format'', JStr ''dshker.p2p-devices''), (''version'', JNum 1), (''catalogId'', JStr (pc_catalogId r)),
           (''services'', JArr (pc_services r)), (''computers'', JArr (pc_computers r)),
           (''forgottenServiceIds'', JArr (map JStr (pc_forgotten r)))]"

lemma catalog_value_members: "catalog_value r = JObj (catalog_members r)"
  by (simp add: catalog_value_def catalog_members_def)

lemma traverse_same:
  assumes "\<And>x y. f x = Inr y \<Longrightarrow> y = x" "traverse_result f xs = Inr ys"
  shows "ys = xs \<and> (\<forall>x \<in> set xs. f x = Inr x)"
  using assms(2) by (induction xs arbitrary: ys) (auto simp: bind_result_Inr dest: assms(1))

lemma traverse_self: "(\<forall>x \<in> set xs. f x = Inr x) \<Longrightarrow> traverse_result f xs = Inr xs"
  by (induction xs) auto

lemma parsePeerService_same: "parsePeerService h v = Inr s \<Longrightarrow> s = v"
  unfolding parsePeerService_def
  by (auto elim!: bind_resultE simp: exactPeerObject_Inr split: js_value.splits if_splits)

lemma parse_computer_same: "parse_computer h v = Inr c \<Longrightarrow> c = v"
  unfolding parse_computer_def by (auto elim!: bind_resultE simp: exactPeerObject_Inr split: if_splits)

lemma peer_ids_text: "list_all (\<lambda>f. peer_id f n) fs \<Longrightarrow> fs = map JStr (map (\<lambda>f. case f of JStr s \<Rightarrow> s | _ \<Rightarrow> []) fs)"
  by (induction fs) (auto simp: peer_id_def split: js_value.splits)

lemma catalog_of_value_Inr:
  assumes "catalog_of_value h v = Inr r"
  obtains kvs where "v = JObj kvs" "length kvs = length catalog_keys" "set catalog_keys \<subseteq> fst ` set kvs"
    "\<forall>(k, x) \<in> set (catalog_members r). js_field v k = x" "peer_catalog_ok h r"
proof -
  from assms obtain v0 where x: "exactPeerObject v catalog_keys = Inr v0"
    unfolding catalog_of_value_def by (rule bind_resultE)
  then obtain kvs where v: "v0 = v" "v = JObj kvs" "length kvs = length catalog_keys" "set catalog_keys \<subseteq> fst ` set kvs"
    unfolding exactPeerObject_Inr by blast
  from assms x v(1) obtain svs cs fs where a: "js_field v ''services'' = JArr svs" "js_field v ''computers'' = JArr cs"
      "js_field v ''forgottenServiceIds'' = JArr fs"
    unfolding catalog_of_value_def by (auto split: js_value.splits)
  from assms x v(1) a obtain services computers where
    h: "js_field v ''format'' = JStr ''dshker.p2p-devices''" "js_field v ''version'' = JNum 1" "peer_id (js_field v ''catalogId'') 12"
    and t: "traverse_result (parsePeerService h) svs = Inr services" "traverse_result (parse_computer h) cs = Inr computers"
    and f: "list_all (\<lambda>f. peer_id f 12) fs" "distinct fs"
    and d: "distinct (map (\<lambda>s. js_text s ''serviceId'') services)" "distinct (map (\<lambda>c. js_text c ''connectionId'') computers)"
      "distinct (map pair_name computers)"
      "list_all (\<lambda>c. js_text c ''serviceId'' \<in> set (map (\<lambda>s. js_text s ''serviceId'') services)) computers"
    and r: "r = \<lparr>pc_catalogId = js_text v ''catalogId'', pc_services = services, pc_computers = computers,
                 pc_forgotten = map (\<lambda>f. case f of JStr s \<Rightarrow> s | _ \<Rightarrow> []) fs\<rparr>"
    unfolding catalog_of_value_def by (auto elim!: bind_resultE split: if_splits)
  have s: "services = svs" "computers = cs" "\<forall>x \<in> set svs. parsePeerService h x = Inr x" "\<forall>x \<in> set cs. parse_computer h x = Inr x"
    using traverse_same [OF parsePeerService_same t(1)] traverse_same [OF parse_computer_same t(2)] by auto
  have r': "pc_services r = svs" "pc_computers r = cs" by (simp_all add: r s)
  have c: "js_field v ''catalogId'' = JStr (pc_catalogId r)"
    using h(3) by (auto simp: r js_text_def peer_id_def split: js_value.splits)
  have fs: "fs = map JStr (pc_forgotten r)" using peer_ids_text [OF f(1)] by (simp add: r)
  have "\<forall>(k, x) \<in> set (catalog_members r). js_field v k = x"
    by (simp add: catalog_members_def a h(1,2) c r' fs [symmetric])
  moreover have "peer_catalog_ok h r"
  proof -
    have "distinct (pc_forgotten r)" using f(2) fs by (metis distinct_map)
    moreover have "\<forall>f \<in> set (pc_forgotten r). peer_id (JStr f) 12" using f(1) fs by (simp add: list_all_iff)
    moreover have "peer_id (JStr (pc_catalogId r)) 12" using c h(3) by simp
    ultimately show ?thesis
      using s(3,4) d unfolding peer_catalog_ok_def r' s(1,2) list_all_iff by simp
  qed
  ultimately show thesis using that v by blast
qed

lemma catalog_keys_distinct: "distinct catalog_keys"
  by code_simp

lemma catalog_members_keys: "map fst (catalog_members r) = catalog_keys"
  by (simp add: catalog_members_def catalog_keys_def)

lemma member_iff_field:
  assumes "distinct (map fst kvs)"
  shows "(k, x) \<in> set kvs \<longleftrightarrow> k \<in> fst ` set kvs \<and> js_field (JObj kvs) k = x"
proof
  assume "k \<in> fst ` set kvs \<and> js_field (JObj kvs) k = x"
  moreover then obtain y where "(k, y) \<in> set kvs" by auto
  ultimately show "(k, x) \<in> set kvs" using js_field_member [OF assms] by blast
qed (use js_field_member [OF assms] in force)

text \<open>The object a catalog was read from holds the same members as the object the reader returns.\<close>

lemma catalog_of_value_mset:
  assumes "catalog_of_value h v = Inr r"
  obtains kvs where "v = JObj kvs" "mset kvs = mset (catalog_members r)" "peer_catalog_ok h r"
proof -
  obtain kvs where v: "v = JObj kvs" "length kvs = length catalog_keys" "set catalog_keys \<subseteq> fst ` set kvs"
    and m: "\<forall>(k, x) \<in> set (catalog_members r). js_field v k = x" and ok: "peer_catalog_ok h r"
    by (rule catalog_of_value_Inr [OF assms])
  note ks = exact_keys [OF v(2,3) catalog_keys_distinct]
  have d: "distinct (map fst (catalog_members r))" and e: "fst ` set (catalog_members r) = fst ` set kvs"
    using catalog_keys_distinct ks catalog_members_keys [of r] by (metis, metis set_map)
  have "(k, x) \<in> set kvs" if "(k, x) \<in> set (catalog_members r)" for k x
  proof -
    have "k \<in> fst ` set kvs" using that e by force
    moreover have "js_field v k = x" using bspec [OF m that] by simp
    ultimately show ?thesis using member_iff_field [of kvs k x] ks v(1) by blast
  qed
  moreover have "(k, x) \<in> set (catalog_members r)" if "(k, x) \<in> set kvs" for k x
  proof -
    have "k \<in> fst ` set (catalog_members r)" using that e by force
    then obtain y where y: "(k, y) \<in> set (catalog_members r)" by auto
    then have "js_field v k = y" using bspec [OF m] by fastforce
    moreover have "js_field v k = x" using that member_iff_field [of kvs k x] ks v(1) by blast
    ultimately show ?thesis using y by simp
  qed
  ultimately have "(k, x) \<in> set kvs \<longleftrightarrow> (k, x) \<in> set (catalog_members r)" for k x by blast
  then have "set kvs = set (catalog_members r)" by auto
  moreover have "distinct kvs" using ks by (simp add: distinct_map)
  moreover have "distinct (catalog_members r)"
    using catalog_members_keys [of r] catalog_keys_distinct by (metis distinct_map)
  ultimately have "mset kvs = mset (catalog_members r)" by (simp add: set_eq_iff_mset_eq_distinct)
  then show thesis using that v(1) ok by blast
qed

lemma utf8Length_simps [simp]: "utf8Length [] = 0" "utf8Length (s @ t) = utf8Length s + utf8Length t"
  "utf8Length (c # s) = (if code_unit c < 128 then 1 else 2) + utf8Length s"
  by (simp_all add: utf8Length_def)

lemma utf8Length_join: "utf8Length (js_join sep xs) = sum_list (map utf8Length xs) + (length xs - 1) * utf8Length sep"
  by (induction xs rule: js_join.induct) simp_all

lemma json_members_map:
  "\<forall>kv \<in> set kvs. snd kv \<noteq> JUndefined \<Longrightarrow>
     json_members kvs = map (\<lambda>(k, v). json_string k @ '':'' @ json_text v) kvs"
  by (induction kvs) auto

lemma wire_ok_defined: "wire_ok d (JObj kvs) \<Longrightarrow> kv \<in> set kvs \<Longrightarrow> snd kv \<noteq> JUndefined"
  by (auto simp: list_all_iff)

lemma wire_ok_mset: "mset kvs = mset kvs' \<Longrightarrow> wire_ok d (JObj kvs) \<longleftrightarrow> wire_ok d (JObj kvs')"
proof -
  assume m: "mset kvs = mset kvs'"
  then have "mset (map fst kvs) = mset (map fst kvs')" by simp
  then have "distinct (map fst kvs) = distinct (map fst kvs')" by (rule mset_eq_imp_distinct_iff)
  moreover have "set kvs = set kvs'" using m by (rule mset_eq_setD)
  ultimately show ?thesis by (simp add: list_all_iff)
qed

lemma utf8Length_mset:
  assumes "mset kvs = mset kvs'" "wire_ok d (JObj kvs)"
  shows "utf8Length (json_text (JObj kvs)) = utf8Length (json_text (JObj kvs'))"
proof -
  let ?f = "\<lambda>(k, v). utf8Length (json_string k @ '':'' @ json_text v)"
  have ok: "wire_ok d (JObj kvs')" using assms wire_ok_mset by blast
  have "sum_list (map ?f kvs) = sum_list (map ?f kvs')"
    using arg_cong [OF assms(1), of "\<lambda>m. sum_mset (image_mset ?f m)"] by (simp only: mset_map [symmetric] sum_mset_sum_list)
  moreover have "length kvs = length kvs'" using assms(1) by (metis size_mset)
  moreover have "map utf8Length (json_members ms) = map ?f ms" if "wire_ok d (JObj ms)" for ms
    using json_members_map [of ms] wire_ok_defined [OF that] by auto
  moreover have "length (json_members ms) = length ms" if "wire_ok d (JObj ms)" for ms
    using json_members_map [of ms] wire_ok_defined [OF that] by auto
  ultimately show ?thesis using assms(2) ok by (simp add: utf8Length_join del: wire_ok.simps)
qed

lemma catalog_of_value_self:
  assumes "peer_catalog_ok h r"
  shows "catalog_of_value h (catalog_value r) = Inr r"
proof -
  note ok = assms [unfolded peer_catalog_ok_def]
  have "exactPeerObject (catalog_value r) catalog_keys = Inr (catalog_value r)"
    unfolding exactPeerObject_Inr catalog_value_members
    using catalog_members_keys [of r] by (metis length_map list.set_map order_refl)
  moreover have "traverse_result (parsePeerService h) (pc_services r) = Inr (pc_services r)"
    "traverse_result (parse_computer h) (pc_computers r) = Inr (pc_computers r)"
    using ok by (auto intro: traverse_self)
  moreover have "map (\<lambda>f. case f of JStr s \<Rightarrow> s | _ \<Rightarrow> []) (map JStr fs) = fs" for fs by (induction fs) auto
  moreover have "js_field (catalog_value r) ''format'' = JStr ''dshker.p2p-devices''" "js_field (catalog_value r) ''version'' = JNum 1"
    "js_field (catalog_value r) ''catalogId'' = JStr (pc_catalogId r)" "js_field (catalog_value r) ''services'' = JArr (pc_services r)"
    "js_field (catalog_value r) ''computers'' = JArr (pc_computers r)"
    "js_field (catalog_value r) ''forgottenServiceIds'' = JArr (map JStr (pc_forgotten r))"
    "js_text (catalog_value r) ''catalogId'' = pc_catalogId r"
    by (simp_all add: catalog_value_def js_text_def)
  ultimately show ?thesis
    using ok by (simp add: catalog_of_value_def list_all_iff distinct_map inj_on_def del: map_map)
qed

text \<open>Whatever the reader accepts can be written back within the size limit and is then read as the same catalog.\<close>

lemma catalog_rewrite:
  assumes "wire_ok 0 v" "parsePeerCatalog h (json_text v) = Inr r"
  shows "parsePeerCatalog h (json_text (catalog_value r)) = Inr r"
    "wire_ok 0 (catalog_value r)" "utf8Length (json_text (catalog_value r)) \<le> MAX_CATALOG_BYTES" "peer_catalog_ok h r"
proof -
  have m: "MAX_CATALOG_BYTES \<le> MAX_PEER_CONTROL_BYTES"
    by (simp add: MAX_CATALOG_BYTES_def MAX_PEER_CONTROL_BYTES_def)
  have len: "utf8Length (json_text v) \<le> MAX_CATALOG_BYTES"
    using assms(2) by (simp add: parsePeerCatalog_def split: if_splits)
  then have "parsePeerJson (json_text v) = Inr v" using parsePeerJson_print [OF assms(1)] m by simp
  with assms(2) len have "catalog_of_value h v = Inr r" by (simp add: parsePeerCatalog_def)
  then obtain kvs where v: "v = JObj kvs" and ms: "mset kvs = mset (catalog_members r)" and ok: "peer_catalog_ok h r"
    by (rule catalog_of_value_mset)
  show "peer_catalog_ok h r" by (fact ok)
  show w: "wire_ok 0 (catalog_value r)" using assms(1) wire_ok_mset [OF ms] by (simp only: v catalog_value_members)
  show l: "utf8Length (json_text (catalog_value r)) \<le> MAX_CATALOG_BYTES"
    using utf8Length_mset [OF ms, of 0] assms(1) len by (simp only: v catalog_value_members)
  have "parsePeerJson (json_text (catalog_value r)) = Inr (catalog_value r)"
    using parsePeerJson_print [OF w] l m by simp
  with l ok show "parsePeerCatalog h (json_text (catalog_value r)) = Inr r"
    by (simp add: parsePeerCatalog_def catalog_of_value_self)
qed

end
