(* ===== verification/Peer_Catalog.thy ===== *)
theory Peer_Catalog
  imports Peer_Records
begin

text \<open>
  The store of the device catalog: which successor records persistence accepts
  (\<open>electron/main/p2p/catalog-transition.ts\<close>), the file store with its core routing
  (\<open>electron/main/p2p/catalog.ts\<close>) and the projection of the core's answers (\<open>electron/main/core/catalog.ts\<close>).

  The settings directory is an association list from file names to entries. Every call takes what its host
  decides as \<open>catalog_io\<close>: whether the directory, \<open>lstat\<close> and reads work, how each write ends, the random
  identifiers; and the core's reply, if it is asked. Operations of one store are serialised by
  \<open>#serialize\<close>, so each is one step.
\<close>

section \<open>Accepted successors\<close>

definition identityFields :: "string list" where
  "identityFields = [''serviceId'', ''pairId'', ''networkId'', ''localDeviceId'', ''remoteDeviceId'', ''userId'',
     ''localPublicKey'', ''remotePublicKey'']"

definition by_key :: "string \<Rightarrow> js_value list \<Rightarrow> string \<Rightarrow> js_value option" where
  \<comment> \<open>\<open>new Map(values.map(v => [v[key], v])).get\<close>: the last entry wins\<close>
  "by_key key vs = map_of (rev (map (\<lambda>v. (js_text v key, v)) vs))"

definition same_json :: "js_value option \<Rightarrow> js_value \<Rightarrow> bool" where
  \<comment> \<open>\<open>JSON.stringify(old) === JSON.stringify(value)\<close>\<close>
  "same_json old v \<longleftrightarrow> Option.bind old JSON_stringify = JSON_stringify v"

definition assertComputerTransition :: "js_value \<Rightarrow> js_value \<Rightarrow> unit peer_result" where
  "assertComputerTransition previous succ =
     (if list_ex (\<lambda>f. js_field previous f \<noteq> js_field succ f) identityFields then peer_fail ''p2p.identity_mismatch''
      else if js_numeric succ ''pairRevision'' < js_numeric previous ''pairRevision'' \<or>
              (js_text previous ''pairState'' = ''revoked'' \<and> js_text succ ''pairState'' \<noteq> ''revoked'')
        then peer_fail ''p2p.trust_restore_rejected''
      else Inr ())"

definition check_service :: "peer_catalog \<Rightarrow> js_value \<Rightarrow> unit peer_result" where
  "check_service previous service =
     (let old = by_key ''serviceId'' (pc_services previous) (js_text service ''serviceId'') in
      if js_text service ''serviceId'' \<in> set (pc_forgotten previous) \<and> \<not> same_json old service
        then peer_fail ''p2p.trust_restore_rejected''
      else case old of
        None \<Rightarrow> Inr ()
      | Some o1 \<Rightarrow> if js_field o1 ''publicKey'' \<noteq> js_field service ''publicKey'' then peer_fail ''p2p.identity_mismatch'' else Inr ())"

definition check_computer :: "peer_catalog \<Rightarrow> js_value \<Rightarrow> unit peer_result" where
  "check_computer previous computer =
     (let old = by_key ''connectionId'' (pc_computers previous) (js_text computer ''connectionId'') in
      if js_text computer ''serviceId'' \<in> set (pc_forgotten previous) \<and> \<not> same_json old computer
        then peer_fail ''p2p.trust_restore_rejected''
      else case old of None \<Rightarrow> Inr () | Some o1 \<Rightarrow> assertComputerTransition o1 computer)"

definition each_result :: "('a \<Rightarrow> unit peer_result) \<Rightarrow> 'a list \<Rightarrow> unit peer_result" where
  "each_result f xs = bind_result (traverse_result f xs) (\<lambda>_. Inr ())"

definition assertPeerCatalogTransition :: "peer_catalog \<Rightarrow> peer_catalog \<Rightarrow> unit peer_result" where
  "assertPeerCatalogTransition previous succ =
     (if \<not> list_all (\<lambda>i. i \<in> set (pc_forgotten succ)) (pc_forgotten previous) then peer_fail ''p2p.trust_restore_rejected''
      else bind_result (each_result (check_service previous) (pc_services succ)) (\<lambda>_.
           bind_result (each_result (\<lambda>service.
               if js_text service ''serviceId'' \<notin> set (map (\<lambda>s. js_text s ''serviceId'') (pc_services succ)) \<and>
                  js_text service ''serviceId'' \<notin> set (pc_forgotten previous)
               then peer_fail ''p2p.forget_required'' else Inr ()) (pc_services previous)) (\<lambda>_.
           bind_result (each_result (check_computer previous) (pc_computers succ)) (\<lambda>_.
             each_result (\<lambda>computer.
               if js_text computer ''connectionId'' \<notin> set (map (\<lambda>c. js_text c ''connectionId'') (pc_computers succ)) \<and>
                  js_text computer ''pairState'' \<noteq> ''revoked'' \<and>
                  js_text computer ''serviceId'' \<notin> set (pc_forgotten previous)
               then peer_fail ''p2p.revocation_required'' else Inr ()) (pc_computers previous)))))"

section \<open>The core's answers\<close>

record catalog_snapshot =
  cs_revision :: string
  cs_record :: peer_catalog

definition invalid_payload :: "'a peer_result" where
  "invalid_payload = peer_fail ''p2p.invalid_payload''"

definition has_fields :: "js_value \<Rightarrow> string list \<Rightarrow> bool" where
  \<comment> \<open>\<open>asRecord\<close>\<close>
  "has_fields v ks = (case v of JObj kvs \<Rightarrow> list_all (\<lambda>k. k \<in> set (map fst kvs)) ks | _ \<Rightarrow> False)"

definition core_snapshot :: "peer_host \<Rightarrow> js_value \<Rightarrow> catalog_snapshot option peer_result" where
  "core_snapshot h v =
     (if \<not> has_fields v [''enabled''] then invalid_payload
      else if js_field v ''enabled'' = JBool False then Inr None
      else if js_field v ''enabled'' \<noteq> JBool True then invalid_payload
      else if \<not> has_fields v [''enabled'', ''revision'', ''record''] then invalid_payload
      else case js_field v ''revision'' of
        JStr revision \<Rightarrow>
          (if length revision \<noteq> 64 \<or> \<not> is_hex revision then invalid_payload
           else case JSON_stringify (js_field v ''record'') of
             None \<Rightarrow> Inl HostError
           | Some t \<Rightarrow> bind_result (parsePeerCatalog h t) (\<lambda>r. Inr (Some \<lparr>cs_revision = revision, cs_record = r\<rparr>)))
      | _ \<Rightarrow> invalid_payload)"

definition core_required :: "peer_host \<Rightarrow> js_value \<Rightarrow> catalog_snapshot peer_result" where
  "core_required h v = bind_result (core_snapshot h v) (\<lambda>s. case s of None \<Rightarrow> catalog_fail | Some s1 \<Rightarrow> Inr s1)"

datatype core_reply =
    CoreValue js_value
  | CoreRefused string
  | CoreBroken

definition CORE_UNSERVED :: "string list" where
  "CORE_UNSERVED = [''p2p.catalog_unavailable'', ''p2p.not_implemented'', ''p2p.invalid_operation'']"

section \<open>The settings directory\<close>

datatype disk_entry =
    RegularFile string
  | OtherEntry      \<comment> \<open>a directory or a symbolic link\<close>

type_synonym disk = "(string \<times> disk_entry) list"

datatype publish_outcome =
    PubOk
  | PubOpenFails
  | PubFails
  | PubLosesTarget  \<comment> \<open>the Windows fallback moved the target away and could move neither file back\<close>

record catalog_io =
  io_parent :: bool
  io_lstat :: bool
  io_read :: bool
  io_publish :: "nat \<Rightarrow> publish_outcome"
  io_rename :: "nat \<Rightarrow> bool"
  io_catalogId :: string
  io_stamp :: string
  io_suffixes :: "nat \<Rightarrow> string list"

record catalog_store =
  st_coreServes :: bool
  st_files :: disk

abbreviation record_file :: string where "record_file \<equiv> ''p2p-devices.json''"
abbreviation marker_file :: string where "marker_file \<equiv> ''p2p-enabled.json''"

definition catalog_unavailable :: "'a peer_result" where
  "catalog_unavailable = peer_fail ''p2p.catalog_unavailable''"

definition write_failed :: "'a peer_result" where
  "write_failed = peer_fail ''p2p.catalog_write_failed''"

definition file_exists :: "catalog_io \<Rightarrow> disk \<Rightarrow> string \<Rightarrow> bool peer_result" where
  "file_exists io files p = (if io_lstat io then Inr (map_of files p \<noteq> None) else catalog_unavailable)"

definition both_exist :: "catalog_io \<Rightarrow> disk \<Rightarrow> (bool \<times> bool) peer_result" where
  "both_exist io files =
     bind_result (file_exists io files record_file) (\<lambda>r.
     bind_result (file_exists io files marker_file) (\<lambda>m. Inr (r, m)))"

definition settings_parent :: "catalog_io \<Rightarrow> unit peer_result" where
  "settings_parent io = (if io_parent io then Inr () else peer_fail ''p2p.settings_root_required'')"

definition readRecord :: "catalog_io \<Rightarrow> disk \<Rightarrow> string \<Rightarrow> string peer_result" where
  "readRecord io files p =
     (if \<not> io_read io then Inl HostError
      else case map_of files p of
        None \<Rightarrow> Inl HostError
      | Some OtherEntry \<Rightarrow> catalog_fail
      | Some (RegularFile t) \<Rightarrow> if utf8Length t > MAX_CATALOG_BYTES then catalog_fail else Inr t)"

definition publish :: "publish_outcome \<Rightarrow> string \<Rightarrow> string \<Rightarrow> bool \<Rightarrow> disk \<Rightarrow> unit peer_result \<times> disk" where
  "publish out p t replace files =
     (case out of
        PubOk \<Rightarrow> (if replace \<or> map_of files p = None then (Inr (), AList.update p (RegularFile t) files) else (write_failed, files))
      | PubOpenFails \<Rightarrow> (Inl HostError, files)
      | PubFails \<Rightarrow> (write_failed, files)
      | PubLosesTarget \<Rightarrow>
          (case (replace, map_of files p) of
             (True, Some entry) \<Rightarrow> (write_failed, AList.update (p @ ''.bak'') entry (AList.delete p files))
           | _ \<Rightarrow> (write_failed, files)))"

definition marker_of :: "string \<Rightarrow> js_value" where
  "marker_of catalogId = JObj [(''version'', JNum 1), (''catalogId'', JStr catalogId)]"

definition revision_of :: "peer_host \<Rightarrow> string \<Rightarrow> string" where
  "revision_of h raw = ph_sha256 h (concat (map utf8_char raw))"

definition read_body :: "peer_host \<Rightarrow> catalog_io \<Rightarrow> disk \<Rightarrow> catalog_snapshot peer_result" where
  \<comment> \<open>the \<open>try\<close> block of \<open>#read\<close>\<close>
  "read_body h io files =
     bind_result (readRecord io files record_file) (\<lambda>raw.
     bind_result (parsePeerCatalog h raw) (\<lambda>r.
     bind_result (readRecord io files marker_file) (\<lambda>m.
     bind_result (parsePeerJson m) (\<lambda>v.
     bind_result (exactPeerObject v [''version'', ''catalogId'']) (\<lambda>marker.
       if js_field marker ''version'' \<noteq> JNum 1 \<or> js_field marker ''catalogId'' \<noteq> JStr (pc_catalogId r) then catalog_fail
       else Inr \<lparr>cs_revision = revision_of h raw, cs_record = r\<rparr>)))))"

definition read_catalog :: "peer_host \<Rightarrow> catalog_io \<Rightarrow> disk \<Rightarrow> catalog_snapshot peer_result" where
  "read_catalog h io files = (case read_body h io files of Inl HostError \<Rightarrow> catalog_unavailable | x \<Rightarrow> x)"

section \<open>Operations on the files\<close>

definition inspectLocal :: "peer_host \<Rightarrow> catalog_io \<Rightarrow> disk \<Rightarrow> catalog_snapshot option peer_result" where
  "inspectLocal h io files =
     bind_result (settings_parent io) (\<lambda>_.
     bind_result (both_exist io files) (\<lambda>(r, m).
       if \<not> r \<and> \<not> m then Inr None
       else if \<not> r \<or> \<not> m then peer_fail ''p2p.catalog_incomplete''
       else bind_result (read_catalog h io files) (\<lambda>s. Inr (Some s))))"

definition empty_catalog :: "string \<Rightarrow> peer_catalog" where
  "empty_catalog catalogId = \<lparr>pc_catalogId = catalogId, pc_services = [], pc_computers = [], pc_forgotten = []\<rparr>"

definition enableLocal :: "peer_host \<Rightarrow> catalog_io \<Rightarrow> disk \<Rightarrow> catalog_snapshot peer_result \<times> disk" where
  "enableLocal h io files =
     (case bind_result (settings_parent io) (\<lambda>_. both_exist io files) of
        Inl e \<Rightarrow> (Inl e, files)
      | Inr (r, m) \<Rightarrow>
          if r \<or> m then (peer_fail ''p2p.catalog_exists'', files)
          else case publish (io_publish io 0) record_file (json_text (catalog_value (empty_catalog (io_catalogId io)))) False files of
            (Inl e, files1) \<Rightarrow> (Inl e, files1)
          | (Inr _, files1) \<Rightarrow>
              case publish (io_publish io 1) marker_file (json_text (marker_of (io_catalogId io))) False files1 of
                (Inl e, files2) \<Rightarrow> (Inl e, files2)
              | (Inr _, files2) \<Rightarrow> (read_catalog h io files2, files2))"

definition commitLocal :: "peer_host \<Rightarrow> catalog_io \<Rightarrow> string \<Rightarrow> peer_catalog \<Rightarrow> disk \<Rightarrow> catalog_snapshot peer_result \<times> disk" where
  "commitLocal h io expectedRevision validated files =
     (case bind_result (settings_parent io) (\<lambda>_. read_catalog h io files) of
        Inl e \<Rightarrow> (Inl e, files)
      | Inr previous \<Rightarrow>
          if cs_revision previous \<noteq> expectedRevision \<or> pc_catalogId (cs_record previous) \<noteq> pc_catalogId validated
            then (peer_fail ''p2p.catalog_conflict'', files)
          else case assertPeerCatalogTransition (cs_record previous) validated of
            Inl e \<Rightarrow> (Inl e, files)
          | Inr _ \<Rightarrow>
              if json_text (catalog_value (cs_record previous)) = json_text (catalog_value validated) then (Inr previous, files)
              else case publish (io_publish io 0) record_file (json_text (catalog_value validated)) True files of
                (Inl e, files1) \<Rightarrow> (Inl e, files1)
              | (Inr _, files1) \<Rightarrow> (read_catalog h io files1, files1))"

definition js_array :: "js_value \<Rightarrow> js_value list" where
  "js_array v = (case v of JArr xs \<Rightarrow> xs | _ \<Rightarrow> [])"

fun is_array :: "js_value \<Rightarrow> bool" where
  "is_array (JArr _) = True"
| "is_array _ = False"

definition tolerant_record :: "peer_host \<Rightarrow> string \<Rightarrow> js_value peer_result" where
  \<comment> \<open>the record to remove from: the strict one, or the bare shape when it does not validate\<close>
  "tolerant_record h raw =
     (case parsePeerCatalog h raw of
        Inr r \<Rightarrow> Inr (catalog_value r)
      | Inl _ \<Rightarrow>
          bind_result (parsePeerJson raw) (\<lambda>v.
          bind_result (exactPeerObject v catalog_keys) (\<lambda>r.
            if js_field r ''format'' \<noteq> JStr ''dshker.p2p-devices'' \<or> js_field r ''version'' \<noteq> JNum 1 \<or>
               list_ex (\<lambda>k. \<not> is_array (js_field r k)) [''services'', ''computers'', ''forgottenServiceIds'']
            then catalog_fail else Inr r)))"

definition without_service :: "string \<Rightarrow> js_value \<Rightarrow> js_value" where
  "without_service serviceId v =
     (let others = filter (\<lambda>x. js_field x ''serviceId'' \<noteq> JStr serviceId) in
      case v of
        JObj kvs \<Rightarrow> JObj (map (\<lambda>(k, x).
          (k, if k = ''services'' \<or> k = ''computers'' then JArr (others (js_array x))
              else if k = ''forgottenServiceIds'' then JArr (js_array x @ [JStr serviceId]) else x)) kvs)
      | _ \<Rightarrow> v)"

definition removeServiceLocal :: "peer_host \<Rightarrow> catalog_io \<Rightarrow> string \<Rightarrow> disk \<Rightarrow> catalog_snapshot peer_result \<times> disk" where
  "removeServiceLocal h io serviceId files =
     (case bind_result (settings_parent io) (\<lambda>_. bind_result (readRecord io files record_file) (tolerant_record h)) of
        Inl e \<Rightarrow> (Inl e, files)
      | Inr parsed \<Rightarrow>
          if JStr serviceId \<in> set (js_array (js_field parsed ''forgottenServiceIds''))
            then (peer_fail ''p2p.trust_restore_rejected'', files)
          else if \<not> list_ex (\<lambda>s. js_field s ''serviceId'' = JStr serviceId) (js_array (js_field parsed ''services''))
            then (peer_fail ''p2p.service_not_found'', files)
          else case parsePeerCatalog h (json_text (without_service serviceId parsed)) of
            Inl e \<Rightarrow> (Inl e, files)
          | Inr validated \<Rightarrow>
              case publish (io_publish io 0) record_file (json_text (catalog_value validated)) True files of
                (Inl e, files1) \<Rightarrow> (Inl e, files1)
              | (Inr _, files1) \<Rightarrow> (read_catalog h io files1, files1))"

fun aside_target :: "disk \<Rightarrow> string \<Rightarrow> string \<Rightarrow> string list \<Rightarrow> string" where
  \<comment> \<open>the loop of \<open>moveAside\<close>: one random suffix per attempt\<close>
  "aside_target files preferred target [] = target"
| "aside_target files preferred target (s # ss) =
     (if map_of files target \<noteq> None then aside_target files preferred (preferred @ ''-'' @ s) ss else target)"

definition moveAside :: "catalog_io \<Rightarrow> nat \<Rightarrow> string \<Rightarrow> string \<Rightarrow> disk \<Rightarrow> unit peer_result \<times> disk" where
  "moveAside io i p preferred files =
     (if \<not> io_lstat io then (catalog_unavailable, files)
      else case map_of files p of
        None \<Rightarrow> (write_failed, files)
      | Some entry \<Rightarrow>
          if \<not> io_rename io i then (write_failed, files)
          else (Inr (), AList.update (aside_target files preferred preferred (take 4 (io_suffixes io i))) entry (AList.delete p files)))"

section \<open>The catalog service\<close>

definition onCore :: "('a peer_result) option \<Rightarrow> catalog_store \<Rightarrow> 'a option peer_result \<times> catalog_store" where
  \<comment> \<open>\<open>Inr None\<close> is \<open>UNSERVED\<close>; the argument is the port's answer, \<open>None\<close> without a port\<close>
  "onCore call st =
     (case call of
        None \<Rightarrow> (Inr None, st)
      | Some answer \<Rightarrow>
          if \<not> st_coreServes st then (Inr None, st)
          else case answer of
            Inr a \<Rightarrow> (Inr (Some a), st)
          | Inl e \<Rightarrow>
              if \<exists>code \<in> set CORE_UNSERVED. e = PeerHelperError code then (Inr None, st\<lparr>st_coreServes := False\<rparr>) else (Inl e, st))"

definition port_answer :: "(js_value \<Rightarrow> 'a peer_result) \<Rightarrow> core_reply \<Rightarrow> 'a peer_result" where
  "port_answer project reply =
     (case reply of CoreValue v \<Rightarrow> project v | CoreRefused code \<Rightarrow> peer_fail code | CoreBroken \<Rightarrow> Inl HostError)"

definition with_files :: "'a \<times> disk \<Rightarrow> catalog_store \<Rightarrow> 'a \<times> catalog_store" where
  "with_files p st = (fst p, st\<lparr>st_files := snd p\<rparr>)"

definition inspect :: "peer_host \<Rightarrow> catalog_io \<Rightarrow> core_reply option \<Rightarrow> catalog_store \<Rightarrow>
    catalog_snapshot option peer_result \<times> catalog_store" where
  "inspect h io reply st =
     (case onCore (map_option (port_answer (core_snapshot h)) reply) st of
        (Inl e, st1) \<Rightarrow> (Inl e, st1)
      | (Inr (Some routed), st1) \<Rightarrow> (Inr routed, st1)
      | (Inr None, st1) \<Rightarrow> (inspectLocal h io (st_files st1), st1))"

definition routed :: "peer_host \<Rightarrow> core_reply option \<Rightarrow> (disk \<Rightarrow> catalog_snapshot peer_result \<times> disk) \<Rightarrow> catalog_store \<Rightarrow>
    catalog_snapshot peer_result \<times> catalog_store" where
  \<comment> \<open>\<open>routed === UNSERVED ? this.#...Local() : routed\<close>\<close>
  "routed h reply local st =
     (case onCore (map_option (port_answer (core_required h)) reply) st of
        (Inl e, st1) \<Rightarrow> (Inl e, st1)
      | (Inr (Some answer), st1) \<Rightarrow> (Inr answer, st1)
      | (Inr None, st1) \<Rightarrow> with_files (local (st_files st1)) st1)"

definition enable :: "peer_host \<Rightarrow> catalog_io \<Rightarrow> core_reply option \<Rightarrow> catalog_store \<Rightarrow>
    catalog_snapshot peer_result \<times> catalog_store" where
  "enable h io reply st = routed h reply (enableLocal h io) st"

definition commit :: "peer_host \<Rightarrow> catalog_io \<Rightarrow> core_reply option \<Rightarrow> string \<Rightarrow> js_value \<Rightarrow> catalog_store \<Rightarrow>
    catalog_snapshot peer_result \<times> catalog_store" where
  "commit h io reply expectedRevision succ st =
     (case parsePeerCatalog h (json_text succ) of
        Inl e \<Rightarrow> (Inl e, st)
      | Inr validated \<Rightarrow> routed h reply (commitLocal h io expectedRevision validated) st)"

definition removeService :: "peer_host \<Rightarrow> catalog_io \<Rightarrow> core_reply option \<Rightarrow> string \<Rightarrow> catalog_store \<Rightarrow>
    catalog_snapshot peer_result \<times> catalog_store" where
  "removeService h io reply serviceId st = routed h reply (removeServiceLocal h io serviceId) st"

definition move_present :: "catalog_io \<Rightarrow> nat \<Rightarrow> string \<Rightarrow> bool \<Rightarrow> disk \<Rightarrow> unit peer_result \<times> disk" where
  "move_present io i p present files =
     (if present then moveAside io i p (p @ ''.legacy-'' @ io_stamp io) files else (Inr (), files))"

definition reset :: "peer_host \<Rightarrow> catalog_io \<Rightarrow> core_reply option \<Rightarrow> catalog_store \<Rightarrow>
    catalog_snapshot peer_result \<times> catalog_store" where
  "reset h io reply st =
     (case bind_result (settings_parent io) (\<lambda>_. both_exist io (st_files st)) of
        Inl e \<Rightarrow> (Inl e, st)
      | Inr (r, m) \<Rightarrow>
          if \<not> r \<and> \<not> m then enable h io reply st
          else if r \<and> m \<and> is_ok (read_catalog h io (st_files st)) then (peer_fail ''p2p.catalog_intact'', st)
          else case move_present io 0 record_file r (st_files st) of
            (Inl e, files1) \<Rightarrow> (Inl e, st\<lparr>st_files := files1\<rparr>)
          | (Inr _, files1) \<Rightarrow>
              case move_present io 1 marker_file m files1 of
                (Inl e, files2) \<Rightarrow> (Inl e, st\<lparr>st_files := files2\<rparr>)
              | (Inr _, files2) \<Rightarrow> enable h io reply (st\<lparr>st_files := files2\<rparr>))"

section \<open>Accepted successors are exactly those that continue the trust\<close>

lemma parsePeerCatalog_ok:
  assumes "parsePeerCatalog h t = Inr r"
  shows "peer_catalog_ok h r" "wire_ok 0 (catalog_value r)"
proof -
  obtain v where v: "parsePeerJson t = Inr v" "catalog_of_value h v = Inr r"
    using assms by (auto simp: parsePeerCatalog_def elim!: bind_resultE split: if_splits)
  from v(2) obtain kvs where k: "v = JObj kvs" "mset kvs = mset (catalog_members r)" "peer_catalog_ok h r"
    by (rule catalog_of_value_mset)
  show "peer_catalog_ok h r" by (fact k(3))
  show "wire_ok 0 (catalog_value r)"
    using parsePeerJson_ok [OF v(1)] wire_ok_mset [OF k(2)] by (simp only: k(1) catalog_value_members)
qed

lemma catalog_value_entries:
  assumes "wire_ok 0 (catalog_value r)" "x \<in> set (pc_services r) \<or> x \<in> set (pc_computers r)"
  shows "wire_ok 2 x"
  using assms by (auto simp: catalog_value_def list_all_iff numeral_2_eq_2)

definition same_identity :: "js_value \<Rightarrow> js_value \<Rightarrow> bool" where
  "same_identity c d \<longleftrightarrow> (\<forall>f \<in> set identityFields. js_field c f = js_field d f)"

text \<open>What persistence promises of two successive catalogs.\<close>

definition trust_continues :: "peer_catalog \<Rightarrow> peer_catalog \<Rightarrow> bool" where
  "trust_continues old new \<longleftrightarrow>
     set (pc_forgotten old) \<subseteq> set (pc_forgotten new) \<and>
     (\<forall>s \<in> set (pc_services new). js_text s ''serviceId'' \<in> set (pc_forgotten old) \<longrightarrow> s \<in> set (pc_services old)) \<and>
     (\<forall>s \<in> set (pc_services new). \<forall>o1 \<in> set (pc_services old). js_text o1 ''serviceId'' = js_text s ''serviceId'' \<longrightarrow>
        js_field o1 ''publicKey'' = js_field s ''publicKey'') \<and>
     (\<forall>o1 \<in> set (pc_services old). js_text o1 ''serviceId'' \<in> (\<lambda>s. js_text s ''serviceId'') ` set (pc_services new) \<or>
        js_text o1 ''serviceId'' \<in> set (pc_forgotten old)) \<and>
     (\<forall>c \<in> set (pc_computers new). js_text c ''serviceId'' \<in> set (pc_forgotten old) \<longrightarrow> c \<in> set (pc_computers old)) \<and>
     (\<forall>c \<in> set (pc_computers new). \<forall>o1 \<in> set (pc_computers old). js_text o1 ''connectionId'' = js_text c ''connectionId'' \<longrightarrow>
        same_identity o1 c \<and> js_numeric o1 ''pairRevision'' \<le> js_numeric c ''pairRevision'' \<and>
        (js_text o1 ''pairState'' = ''revoked'' \<longrightarrow> js_text c ''pairState'' = ''revoked'')) \<and>
     (\<forall>o1 \<in> set (pc_computers old). js_text o1 ''connectionId'' \<in> (\<lambda>c. js_text c ''connectionId'') ` set (pc_computers new) \<or>
        js_text o1 ''pairState'' = ''revoked'' \<or> js_text o1 ''serviceId'' \<in> set (pc_forgotten old))"

lemma by_key_Some:
  assumes "distinct (map (\<lambda>v. js_text v key) vs)"
  shows "by_key key vs k = Some v \<longleftrightarrow> v \<in> set vs \<and> js_text v key = k"
proof -
  have "distinct (map fst (rev (map (\<lambda>v. (js_text v key, v)) vs)))"
    using assms by (simp add: rev_map [symmetric] comp_def)
  from map_of_eq_Some_iff [OF this, of k v] show ?thesis
    by (auto simp: by_key_def)
qed

lemma by_key_None: "by_key key vs k = None \<longleftrightarrow> k \<notin> (\<lambda>v. js_text v key) ` set vs"
  by (simp add: by_key_def map_of_eq_None_iff image_image)

lemma each_result_Inr: "each_result f xs = Inr u \<longleftrightarrow> (\<forall>x \<in> set xs. f x = Inr ())"
proof -
  have "(\<exists>us. traverse_result f xs = Inr us) \<longleftrightarrow> (\<forall>x \<in> set xs. f x = Inr ())"
    by (induction xs) (auto simp: bind_result_Inr)
  then show ?thesis by (auto simp: each_result_def bind_result_Inr)
qed

lemma same_json_iff:
  assumes "\<And>o1. old = Some o1 \<Longrightarrow> wire_ok 2 o1" "wire_ok 2 v"
  shows "same_json old v \<longleftrightarrow> old = Some v"
proof (cases old)
  case (Some o1)
  have "o1 \<noteq> JUndefined" "v \<noteq> JUndefined" using assms Some by auto
  then show ?thesis
    using assms json_text_inject [of 2 o1 v] Some by (auto simp: same_json_def JSON_stringify_def)
qed (use assms in \<open>auto simp: same_json_def JSON_stringify_def\<close>)

lemma assertComputerTransition_iff:
  "assertComputerTransition o1 c = Inr () \<longleftrightarrow> same_identity o1 c \<and> js_numeric o1 ''pairRevision'' \<le> js_numeric c ''pairRevision'' \<and>
     (js_text o1 ''pairState'' = ''revoked'' \<longrightarrow> js_text c ''pairState'' = ''revoked'')"
  by (auto simp: assertComputerTransition_def same_identity_def list_ex_iff not_less)

lemma check_service_iff:
  assumes "peer_catalog_ok h old" "wire_ok 0 (catalog_value old)" "wire_ok 2 s"
  shows "check_service old s = Inr () \<longleftrightarrow>
    (js_text s ''serviceId'' \<in> set (pc_forgotten old) \<longrightarrow> s \<in> set (pc_services old)) \<and>
    (\<forall>o1 \<in> set (pc_services old). js_text o1 ''serviceId'' = js_text s ''serviceId'' \<longrightarrow>
       js_field o1 ''publicKey'' = js_field s ''publicKey'')"
proof -
  have d: "distinct (map (\<lambda>v. js_text v ''serviceId'') (pc_services old))" using assms(1) by (simp add: peer_catalog_ok_def)
  note k = by_key_Some [OF d]
  let ?old = "by_key ''serviceId'' (pc_services old) (js_text s ''serviceId'')"
  have j: "same_json ?old s \<longleftrightarrow> ?old = Some s"
    using catalog_value_entries [OF assms(2)] assms(3) by (intro same_json_iff) (auto simp: k)
  show ?thesis
  proof (cases ?old)
    case None
    then have "\<not> (\<exists>o1 \<in> set (pc_services old). js_text s ''serviceId'' = js_text o1 ''serviceId'')"
      by (simp only: by_key_None image_iff not_False_eq_True)
    then have "\<forall>o1 \<in> set (pc_services old). js_text o1 ''serviceId'' \<noteq> js_text s ''serviceId''" by (simp add: eq_commute)
    moreover from this have "s \<notin> set (pc_services old)" by auto
    ultimately show ?thesis using j by (simp add: check_service_def Let_def None)
  next
    case (Some o1)
    then have o1: "o1 \<in> set (pc_services old)" "js_text o1 ''serviceId'' = js_text s ''serviceId''" by (simp_all add: k)
    have u: "o2 = o1" if "o2 \<in> set (pc_services old)" "js_text o2 ''serviceId'' = js_text s ''serviceId''" for o2
      using that k Some by (metis option.inject)
    have "o1 = s \<longleftrightarrow> s \<in> set (pc_services old)" using o1 u [of s] by auto
    moreover have "same_json (Some o1) s \<longleftrightarrow> o1 = s" using j by (simp add: Some)
    moreover have "(\<forall>o2 \<in> set (pc_services old). js_text o2 ''serviceId'' = js_text s ''serviceId'' \<longrightarrow> P o2) \<longleftrightarrow> P o1" for P
      using o1 u by blast
    ultimately show ?thesis by (simp add: check_service_def Let_def Some)
  qed
qed

lemma check_computer_iff:
  assumes "peer_catalog_ok h old" "wire_ok 0 (catalog_value old)" "wire_ok 2 c"
  shows "check_computer old c = Inr () \<longleftrightarrow>
    (js_text c ''serviceId'' \<in> set (pc_forgotten old) \<longrightarrow> c \<in> set (pc_computers old)) \<and>
    (\<forall>o1 \<in> set (pc_computers old). js_text o1 ''connectionId'' = js_text c ''connectionId'' \<longrightarrow>
       assertComputerTransition o1 c = Inr ())"
proof -
  have d: "distinct (map (\<lambda>v. js_text v ''connectionId'') (pc_computers old))" using assms(1) by (simp add: peer_catalog_ok_def)
  note k = by_key_Some [OF d]
  let ?old = "by_key ''connectionId'' (pc_computers old) (js_text c ''connectionId'')"
  have j: "same_json ?old c \<longleftrightarrow> ?old = Some c"
    using catalog_value_entries [OF assms(2)] assms(3) by (intro same_json_iff) (auto simp: k)
  show ?thesis
  proof (cases ?old)
    case None
    then have "\<not> (\<exists>o1 \<in> set (pc_computers old). js_text c ''connectionId'' = js_text o1 ''connectionId'')"
      by (simp only: by_key_None image_iff not_False_eq_True)
    then have "\<forall>o1 \<in> set (pc_computers old). js_text o1 ''connectionId'' \<noteq> js_text c ''connectionId''" by (simp add: eq_commute)
    moreover from this have "c \<notin> set (pc_computers old)" by auto
    ultimately show ?thesis using j by (simp add: check_computer_def Let_def None)
  next
    case (Some o1)
    then have o1: "o1 \<in> set (pc_computers old)" "js_text o1 ''connectionId'' = js_text c ''connectionId''" by (simp_all add: k)
    have u: "o2 = o1" if "o2 \<in> set (pc_computers old)" "js_text o2 ''connectionId'' = js_text c ''connectionId''" for o2
      using that k Some by (metis option.inject)
    have "o1 = c \<longleftrightarrow> c \<in> set (pc_computers old)" using o1 u [of c] by auto
    moreover have "same_json (Some o1) c \<longleftrightarrow> o1 = c" using j by (simp add: Some)
    moreover have "(\<forall>o2 \<in> set (pc_computers old). js_text o2 ''connectionId'' = js_text c ''connectionId'' \<longrightarrow> P o2) \<longleftrightarrow> P o1" for P
      using o1 u by blast
    ultimately show ?thesis by (simp add: check_computer_def Let_def Some)
  qed
qed

lemma transition_checks:
  "assertPeerCatalogTransition old new = Inr () \<longleftrightarrow>
     set (pc_forgotten old) \<subseteq> set (pc_forgotten new) \<and>
     (\<forall>s \<in> set (pc_services new). check_service old s = Inr ()) \<and>
     (\<forall>o1 \<in> set (pc_services old). js_text o1 ''serviceId'' \<in> (\<lambda>s. js_text s ''serviceId'') ` set (pc_services new) \<or>
        js_text o1 ''serviceId'' \<in> set (pc_forgotten old)) \<and>
     (\<forall>c \<in> set (pc_computers new). check_computer old c = Inr ()) \<and>
     (\<forall>o1 \<in> set (pc_computers old). js_text o1 ''connectionId'' \<in> (\<lambda>c. js_text c ''connectionId'') ` set (pc_computers new) \<or>
        js_text o1 ''pairState'' = ''revoked'' \<or> js_text o1 ''serviceId'' \<in> set (pc_forgotten old))"
proof -
  have c: "(if P then peer_fail code else Inr ()) = Inr () \<longleftrightarrow> \<not> P" for P code by simp
  have s: "list_all (\<lambda>i. i \<in> set (pc_forgotten new)) (pc_forgotten old) \<longleftrightarrow> set (pc_forgotten old) \<subseteq> set (pc_forgotten new)"
    by (auto simp: list_all_iff)
  show ?thesis
    unfolding assertPeerCatalogTransition_def
    by (simp add: bind_result_Inr each_result_Inr c s set_map)
qed

lemma transition_iff:
  assumes "peer_catalog_ok h old" "wire_ok 0 (catalog_value old)" "wire_ok 0 (catalog_value new)"
  shows "assertPeerCatalogTransition old new = Inr () \<longleftrightarrow> trust_continues old new"
proof -
  have "(\<forall>s \<in> set (pc_services new). check_service old s = Inr ()) \<longleftrightarrow>
    (\<forall>s \<in> set (pc_services new). js_text s ''serviceId'' \<in> set (pc_forgotten old) \<longrightarrow> s \<in> set (pc_services old)) \<and>
    (\<forall>s \<in> set (pc_services new). \<forall>o1 \<in> set (pc_services old). js_text o1 ''serviceId'' = js_text s ''serviceId'' \<longrightarrow>
        js_field o1 ''publicKey'' = js_field s ''publicKey'')"
    using check_service_iff [OF assms(1,2) catalog_value_entries [OF assms(3)]] by (simp add: ball_conj_distrib)
  moreover have "(\<forall>c \<in> set (pc_computers new). check_computer old c = Inr ()) \<longleftrightarrow>
    (\<forall>c \<in> set (pc_computers new). js_text c ''serviceId'' \<in> set (pc_forgotten old) \<longrightarrow> c \<in> set (pc_computers old)) \<and>
    (\<forall>c \<in> set (pc_computers new). \<forall>o1 \<in> set (pc_computers old). js_text o1 ''connectionId'' = js_text c ''connectionId'' \<longrightarrow>
        same_identity o1 c \<and> js_numeric o1 ''pairRevision'' \<le> js_numeric c ''pairRevision'' \<and>
        (js_text o1 ''pairState'' = ''revoked'' \<longrightarrow> js_text c ''pairState'' = ''revoked''))"
    using check_computer_iff [OF assms(1,2) catalog_value_entries [OF assms(3)]]
    by (simp add: ball_conj_distrib assertComputerTransition_iff)
  ultimately show ?thesis unfolding transition_checks trust_continues_def by (simp only: conj_assoc)
qed

section \<open>Files\<close>

lemma publish_files:
  assumes "publish out p t replace files = (res, files')"
  shows "map_of files' p = map_of files p \<or> map_of files' p = Some (RegularFile t) \<or> map_of files' p = None"
    "q \<noteq> p \<Longrightarrow> q \<noteq> p @ ''.bak'' \<Longrightarrow> map_of files' q = map_of files q"
    "res = Inr u \<Longrightarrow> map_of files' p = Some (RegularFile t)"
  using assms
  by (auto simp: publish_def write_failed_def update_conv' delete_conv' split: publish_outcome.splits if_splits bool.splits option.splits)

lemma read_catalog_Inr:
  assumes "read_catalog h io files = Inr snap"
  obtains raw m where "io_read io" "map_of files record_file = Some (RegularFile raw)" "parsePeerCatalog h raw = Inr (cs_record snap)"
    "cs_revision snap = revision_of h raw" "map_of files marker_file = Some (RegularFile m)"
proof -
  have "read_body h io files = Inr snap"
    using assms by (auto simp: read_catalog_def catalog_unavailable_def split: sum.splits peer_error.splits)
  then obtain raw m r where "readRecord io files record_file = Inr raw" "parsePeerCatalog h raw = Inr r"
      "readRecord io files marker_file = Inr m" "snap = \<lparr>cs_revision = revision_of h raw, cs_record = r\<rparr>"
    unfolding read_body_def by (elim bind_resultE) (auto split: if_splits)
  then show thesis
    using that by (auto simp: readRecord_def split: if_splits option.splits disk_entry.splits)
qed

section \<open>A forgotten service stays forgotten\<close>

definition forgets :: "string \<Rightarrow> peer_catalog \<Rightarrow> bool" where
  "forgets sid r \<longleftrightarrow> sid \<in> set (pc_forgotten r) \<and> sid \<notin> (\<lambda>s. js_text s ''serviceId'') ` set (pc_services r)"

definition forget_inv :: "peer_host \<Rightarrow> string \<Rightarrow> disk \<Rightarrow> bool" where
  "forget_inv h sid files \<longleftrightarrow> map_of files marker_file \<noteq> None \<and>
     (\<forall>e. map_of files record_file = Some e \<longrightarrow>
        (\<exists>t r. e = RegularFile t \<and> parsePeerCatalog h t = Inr r \<and> forgets sid r))"

lemma forget_inv_publish:
  assumes "forget_inv h sid files" "publish out record_file t True files = (res, files')"
    "parsePeerCatalog h t = Inr r" "forgets sid r"
  shows "forget_inv h sid files'"
proof -
  have "map_of files' marker_file = map_of files marker_file" using publish_files(2) [OF assms(2)] by simp
  with publish_files(1) [OF assms(2)] assms show ?thesis unfolding forget_inv_def by auto
qed

lemma enableLocal_existing: "map_of files marker_file \<noteq> None \<Longrightarrow> snd (enableLocal h io files) = files"
  by (auto simp: enableLocal_def bind_result_Inr both_exist_def file_exists_def catalog_unavailable_def split: sum.splits
      elim!: bind_resultE)

lemma forgets_continues:
  assumes "trust_continues old new" "forgets sid old"
  shows "forgets sid new"
  using assms unfolding trust_continues_def forgets_def by (metis (no_types, lifting) image_iff subsetD)

lemma commitLocal_published:
  assumes "commitLocal h io expected validated files = (res, files')"
  obtains "files' = files"
  | old out u where "read_catalog h io files = Inr old" "cs_revision old = expected"
      "pc_catalogId (cs_record old) = pc_catalogId validated" "assertPeerCatalogTransition (cs_record old) validated = Inr ()"
      "publish (io_publish io 0) record_file (json_text (catalog_value validated)) True files = (out, files')"
  using assms unfolding commitLocal_def
  by (auto simp: bind_result_Inr split: sum.splits if_splits prod.splits elim!: bind_resultE)

lemma commitLocal_forget_inv:
  assumes "forget_inv h sid files" "wire_ok 0 v" "parsePeerCatalog h (json_text v) = Inr validated"
    "commitLocal h io expected validated files = (res, files')"
  shows "forget_inv h sid files'"
proof (rule commitLocal_published [OF assms(4)])
  fix old out
  assume r: "read_catalog h io files = Inr old" and t: "assertPeerCatalogTransition (cs_record old) validated = Inr ()"
    and p: "publish (io_publish io 0) record_file (json_text (catalog_value validated)) True files = (out, files')"
  obtain raw where raw: "map_of files record_file = Some (RegularFile raw)" "parsePeerCatalog h raw = Inr (cs_record old)"
    by (rule read_catalog_Inr [OF r])
  then have f: "forgets sid (cs_record old)" using assms(1) by (auto simp: forget_inv_def)
  note w = catalog_rewrite [OF assms(2,3)]
  have "trust_continues (cs_record old) validated"
    using transition_iff [OF parsePeerCatalog_ok [OF raw(2)] w(2)] t by blast
  from forgets_continues [OF this f] show ?thesis by (rule forget_inv_publish [OF assms(1) p w(1)])
qed (use assms(1) in simp)

section \<open>Removing a service\<close>

lemma catalog_read_value:
  assumes "wire_ok 0 v" "parsePeerCatalog h (json_text v) = Inr r"
  shows "catalog_of_value h v = Inr r"
proof -
  have "utf8Length (json_text v) \<le> MAX_CATALOG_BYTES"
    using assms(2) by (simp add: parsePeerCatalog_def split: if_splits)
  then show ?thesis
    using assms parsePeerJson_print [OF assms(1)]
    by (simp add: parsePeerCatalog_def MAX_CATALOG_BYTES_def MAX_PEER_CONTROL_BYTES_def)
qed

definition kept :: "string \<Rightarrow> js_value list \<Rightarrow> js_value list" where
  "kept sid = filter (\<lambda>x. js_field x ''serviceId'' \<noteq> JStr sid)"

definition removal :: "string \<Rightarrow> string \<Rightarrow> js_value \<Rightarrow> js_value" where
  "removal sid k x = (if k = ''services'' \<or> k = ''computers'' then JArr (kept sid (js_array x))
     else if k = ''forgottenServiceIds'' then JArr (js_array x @ [JStr sid]) else x)"

lemma without_service_map: "without_service sid (JObj kvs) = JObj (map (\<lambda>(k, x). (k, removal sid k x)) kvs)"
  by (auto simp: without_service_def removal_def [abs_def] kept_def Let_def)

lemma wire_ok_array: "wire_ok d x \<Longrightarrow> y \<in> set (js_array x) \<Longrightarrow> wire_ok (Suc d) y"
  by (cases x) (auto simp: js_array_def list_all_iff)

lemma removal_wire: "wire_ok 1 x \<Longrightarrow> wire_ok 1 (removal sid k x)"
  using wire_ok_array [of 1 x] by (auto simp: removal_def kept_def list_all_iff)

lemma without_service_wire: "wire_ok 0 (JObj kvs) \<Longrightarrow> wire_ok 0 (without_service sid (JObj kvs))"
  using removal_wire by (auto simp: without_service_map list_all_iff comp_def case_prod_unfold)

lemma tolerant_record_wire:
  assumes "tolerant_record h raw = Inr v"
  shows "wire_ok 0 v" "\<exists>kvs. v = JObj kvs"
proof -
  have "wire_ok 0 v \<and> (\<exists>kvs. v = JObj kvs)"
  proof (cases "parsePeerCatalog h raw")
    case (Inr r)
    with assms show ?thesis using parsePeerCatalog_ok(2) [OF Inr] by (auto simp: tolerant_record_def catalog_value_members simp del: wire_ok.simps)
  next
    case (Inl e)
    with assms show ?thesis
      by (auto simp: tolerant_record_def exactPeerObject_Inr elim!: bind_resultE split: if_splits dest!: parsePeerJson_ok
          simp del: wire_ok.simps)
  qed
  then show "wire_ok 0 v" "\<exists>kvs. v = JObj kvs" by auto
qed

lemma js_field_map:
  "k \<in> fst ` set kvs \<Longrightarrow> js_field (JObj (map (\<lambda>(k, x). (k, f k x)) kvs)) k = f k (js_field (JObj kvs) k)"
  by (induction kvs) auto

lemma remove_validated:
  assumes "tolerant_record h raw = Inr v" "parsePeerCatalog h (json_text (without_service sid v)) = Inr r"
  shows "wire_ok 0 (without_service sid v)" "pc_services r = kept sid (js_array (js_field v ''services''))"
    "map JStr (pc_forgotten r) = js_array (js_field v ''forgottenServiceIds'') @ [JStr sid]" "peer_catalog_ok h r"
proof -
  obtain kvs where v: "v = JObj kvs" using tolerant_record_wire(2) [OF assms(1)] by blast
  let ?w = "without_service sid v"
  show w: "wire_ok 0 ?w" using without_service_wire tolerant_record_wire(1) [OF assms(1)] v by blast
  obtain ws where e: "?w = JObj ws" "set catalog_keys \<subseteq> fst ` set ws" and m: "\<forall>(k, x) \<in> set (catalog_members r). js_field ?w k = x"
    and ok: "peer_catalog_ok h r"
    by (rule catalog_of_value_Inr [OF catalog_read_value [OF w assms(2)]])
  show "peer_catalog_ok h r" by (fact ok)
  have "fst ` set ws = fst ` set kvs" using e(1) by (auto simp: v without_service_map image_iff) force+
  then have f: "js_field ?w k = removal sid k (js_field v k)" if "k \<in> set catalog_keys" for k
    using js_field_map [of k kvs "removal sid"] subsetD [OF e(2) that] by (simp only: v without_service_map)
  have "js_field ?w ''services'' = JArr (pc_services r)" "js_field ?w ''forgottenServiceIds'' = JArr (map JStr (pc_forgotten r))"
    using m by (simp_all add: catalog_members_def)
  moreover have "''services'' \<in> set catalog_keys" "''forgottenServiceIds'' \<in> set catalog_keys" by (simp_all add: catalog_keys_def)
  ultimately show "pc_services r = kept sid (js_array (js_field v ''services''))"
    "map JStr (pc_forgotten r) = js_array (js_field v ''forgottenServiceIds'') @ [JStr sid]"
    using f by (simp_all add: removal_def)
qed

lemma service_id_text:
  assumes "parsePeerService h s = Inr s"
  shows "js_field s ''serviceId'' = JStr (js_text s ''serviceId'')"
proof -
  obtain s0 where "exactPeerObject s service_keys = Inr s0" using assms unfolding parsePeerService_def by (rule bind_resultE)
  then have "exactPeerObject s service_keys = Inr s" by (auto simp: exactPeerObject_Inr)
  then have "peer_id (js_field s ''serviceId'') 12"
    using assms by (cases "js_field s ''certificate''") (auto simp: parsePeerService_def split: if_splits)
  then show ?thesis by (cases "js_field s ''serviceId''") (simp_all add: peer_id_def js_text_def)
qed

lemma remove_forgets:
  assumes "tolerant_record h raw = Inr v" "parsePeerCatalog h (json_text (without_service sid v)) = Inr r"
  shows "forgets sid r"
proof -
  note r = remove_validated [OF assms]
  have "JStr sid \<in> set (map JStr (pc_forgotten r))" by (simp only: r(3)) simp
  then have "sid \<in> set (pc_forgotten r)" by auto
  moreover have "js_text s ''serviceId'' \<noteq> sid" if "s \<in> set (pc_services r)" for s
  proof -
    have "js_field s ''serviceId'' \<noteq> JStr sid" using that by (auto simp: r(2) kept_def)
    then show ?thesis using service_id_text [of h s] r(4) that by (auto simp: peer_catalog_ok_def)
  qed
  ultimately show ?thesis by (auto simp: forgets_def)
qed

lemma remove_keeps_forgotten:
  assumes "parsePeerCatalog h raw = Inr r0" "tolerant_record h raw = Inr v"
    "parsePeerCatalog h (json_text (without_service sid v)) = Inr r" "forgets fid r0"
  shows "forgets fid r"
proof -
  have v: "v = catalog_value r0" using assms(1,2) by (simp add: tolerant_record_def)
  note r = remove_validated [OF assms(2,3)]
  have "map JStr (pc_forgotten r) = map JStr (pc_forgotten r0) @ [JStr sid]" "pc_services r = kept sid (pc_services r0)"
    using r(2,3) by (simp_all add: v catalog_value_def js_array_def)
  then have "set (map JStr (pc_forgotten r0)) \<subseteq> set (map JStr (pc_forgotten r))" "set (pc_services r) \<subseteq> set (pc_services r0)"
    by (auto simp: kept_def)
  with assms(4) show ?thesis by (auto simp: forgets_def)
qed

lemma removeServiceLocal_published:
  assumes "removeServiceLocal h io sid files = (res, files')"
  obtains "files' = files" "\<forall>snap. res \<noteq> Inr snap"
  | raw v r out where "readRecord io files record_file = Inr raw" "tolerant_record h raw = Inr v"
      "parsePeerCatalog h (json_text (without_service sid v)) = Inr r"
      "publish (io_publish io 0) record_file (json_text (catalog_value r)) True files = (out, files')"
      "(\<exists>e. out = Inl e \<and> res = Inl e) \<or> (out = Inr () \<and> res = read_catalog h io files')"
  using assms unfolding removeServiceLocal_def
  by (auto simp: bind_result_Inr split: sum.splits if_splits prod.splits elim!: bind_resultE)

lemma readRecord_file: "readRecord io files p = Inr t \<Longrightarrow> map_of files p = Some (RegularFile t)"
  by (auto simp: readRecord_def split: if_splits option.splits disk_entry.splits)

lemma removeServiceLocal_forget_inv:
  assumes "forget_inv h fid files" "removeServiceLocal h io sid files = (res, files')"
  shows "forget_inv h fid files'"
proof (rule removeServiceLocal_published [OF assms(2)])
  fix raw v r out
  assume raw: "readRecord io files record_file = Inr raw" and v: "tolerant_record h raw = Inr v"
    and r: "parsePeerCatalog h (json_text (without_service sid v)) = Inr r"
    and p: "publish (io_publish io 0) record_file (json_text (catalog_value r)) True files = (out, files')"
  obtain r0 where "parsePeerCatalog h raw = Inr r0" "forgets fid r0"
    using assms(1) readRecord_file [OF raw] by (auto simp: forget_inv_def)
  then have "forgets fid r" using remove_keeps_forgotten v r by blast
  with catalog_rewrite(1) [OF remove_validated(1) [OF v r] r] show ?thesis
    by (rule forget_inv_publish [OF assms(1) p])
qed (use assms(1) in simp)

section \<open>Runs of the store\<close>

text \<open>Every operation but \<open>reset\<close>, with any host and core behaviour; a committed record is a JSON value, as its type says.\<close>

inductive store_step :: "peer_host \<Rightarrow> catalog_store \<Rightarrow> catalog_store \<Rightarrow> bool" for h where
  do_inspect: "inspect h io reply st = (res, st') \<Longrightarrow> store_step h st st'"
| do_enable: "enable h io reply st = (res, st') \<Longrightarrow> store_step h st st'"
| do_commit: "wire_ok 0 v \<Longrightarrow> commit h io reply expected v st = (res, st') \<Longrightarrow> store_step h st st'"
| do_remove: "removeService h io reply sid st = (res, st') \<Longrightarrow> store_step h st st'"

lemma onCore_files: "st_files (snd (onCore call st)) = st_files st"
  by (auto simp: onCore_def split: option.split sum.split)

lemma onCore_local: "\<not> st_coreServes st \<Longrightarrow> onCore call st = (Inr None, st)"
  by (simp add: onCore_def split: option.split)

lemma routed_files:
  assumes "routed h reply local st = (res, st')"
  obtains "st_files st' = st_files st" | res' where "local (st_files st) = (res', st_files st')"
proof -
  obtain r st1 where o1: "onCore (map_option (port_answer (core_required h)) reply) st = (r, st1)" by force
  then have "st_files st1 = st_files st" using onCore_files [of _ st] by (metis snd_conv)
  with assms o1 that show thesis
    by (cases "local (st_files st)") (auto simp: routed_def with_files_def split: sum.splits option.splits)
qed

lemma store_step_forget_inv: "store_step h st st' \<Longrightarrow> forget_inv h sid (st_files st) \<Longrightarrow> forget_inv h sid (st_files st')"
proof (induction rule: store_step.induct)
  case (do_inspect io reply st res st')
  then have "st_files st' = st_files st"
    using onCore_files [of "map_option (port_answer (core_snapshot h)) reply" st]
    by (auto simp: inspect_def split: prod.splits sum.splits option.splits)
  with do_inspect show ?case by simp
next
  case (do_enable io reply st res st')
  then have "routed h reply (enableLocal h io) st = (res, st')" by (simp add: enable_def)
  then show ?case
  proof (cases rule: routed_files)
    case (2 res')
    moreover have "snd (enableLocal h io (st_files st)) = st_files st"
      using do_enable.prems by (intro enableLocal_existing) (simp add: forget_inv_def)
    ultimately show ?thesis using do_enable.prems by simp
  qed (use do_enable.prems in simp)
next
  case (do_commit v io reply expected st res st')
  show ?case
  proof (cases "parsePeerCatalog h (json_text v)")
    case (Inr r)
    with do_commit have "routed h reply (commitLocal h io expected r) st = (res, st')" by (simp add: commit_def)
    then show ?thesis
      by (cases rule: routed_files) (use do_commit.prems commitLocal_forget_inv [OF _ do_commit.hyps(1) Inr] in auto)
  qed (use do_commit in \<open>simp add: commit_def\<close>)
next
  case (do_remove io reply sid' st res st')
  then have "routed h reply (removeServiceLocal h io sid') st = (res, st')" by (simp add: removeService_def)
  then show ?case
    by (cases rule: routed_files) (use do_remove.prems removeServiceLocal_forget_inv in auto)
qed

interpretation peer_forget: transition_system "\<lambda>st. forget_inv h sid (st_files st)" "store_step h" "\<lambda>st. forget_inv h sid (st_files st)"
  for h sid
  by unfold_locales (auto intro: store_step_forget_inv)


section \<open>Commit\<close>

lemma read_catalog_io: "io_read io = io_read io' \<Longrightarrow> read_catalog h io files = read_catalog h io' files"
  by (simp add: read_catalog_def read_body_def readRecord_def)

lemma inspect_read:
  assumes "\<not> st_coreServes st" "read_catalog h io (st_files st) = Inr snap" "io_parent io'" "io_lstat io'" "io_read io'"
  shows "inspect h io' reply st = (Inr (Some snap), st)"
proof -
  obtain raw m where f: "io_read io" "map_of (st_files st) record_file = Some (RegularFile raw)"
      "map_of (st_files st) marker_file = Some (RegularFile m)"
    by (rule read_catalog_Inr [OF assms(2)])
  then have "read_catalog h io' (st_files st) = Inr snap" using read_catalog_io [of io' io] assms by simp
  then show ?thesis
    using assms f by (simp add: inspect_def onCore_local inspectLocal_def settings_parent_def both_exist_def file_exists_def)
qed

lemma catalog_value_inject: "catalog_value r = catalog_value r' \<Longrightarrow> r = r'"
proof -
  assume "catalog_value r = catalog_value r'"
  moreover have "inj JStr" by (simp add: inj_def)
  ultimately show "r = r'" by (auto simp: catalog_value_def inj_map_eq_map)
qed

lemma read_catalog_update:
  assumes "read_catalog h io files = Inr old" "map_of files' marker_file = map_of files marker_file"
    "map_of files' record_file = Some (RegularFile t)" "parsePeerCatalog h t = Inr r"
    "pc_catalogId (cs_record old) = pc_catalogId r"
  shows "read_catalog h io files' = Inr \<lparr>cs_revision = revision_of h t, cs_record = r\<rparr>"
proof -
  have len: "utf8Length t \<le> MAX_CATALOG_BYTES" using assms(4) by (simp add: parsePeerCatalog_def split: if_splits)
  have b: "read_body h io files = Inr old"
    using assms(1) by (auto simp: read_catalog_def catalog_unavailable_def split: sum.splits peer_error.splits)
  then have rd: "io_read io" by (auto simp: read_body_def readRecord_def split: if_splits)
  have "readRecord io files' record_file = Inr t" using assms(3) len rd by (simp add: readRecord_def)
  moreover have "readRecord io files' marker_file = readRecord io files marker_file"
    using assms(2) by (simp add: readRecord_def)
  ultimately have "read_body h io files' = Inr \<lparr>cs_revision = revision_of h t, cs_record = r\<rparr>"
    using b assms(4,5) unfolding read_body_def by (auto elim!: bind_resultE split: if_splits)
  then show ?thesis by (simp add: read_catalog_def)
qed

lemma commitLocal_Inr:
  assumes "wire_ok 0 v" "parsePeerCatalog h (json_text v) = Inr r" "commitLocal h io expected r files = (Inr snap, files')"
  obtains old where "read_catalog h io files = Inr old" "cs_revision old = expected" "trust_continues (cs_record old) r"
    "pc_catalogId (cs_record old) = pc_catalogId r" "cs_record snap = r" "read_catalog h io files' = Inr snap"
proof -
  obtain old where old: "read_catalog h io files = Inr old" "cs_revision old = expected"
      "pc_catalogId (cs_record old) = pc_catalogId r" "assertPeerCatalogTransition (cs_record old) r = Inr ()"
    using assms(3) unfolding commitLocal_def by (auto elim!: bind_resultE split: sum.splits if_splits)
  note w = catalog_rewrite [OF assms(1,2)]
  obtain raw where raw: "parsePeerCatalog h raw = Inr (cs_record old)" by (rule read_catalog_Inr [OF old(1)])
  note ok = parsePeerCatalog_ok [OF raw]
  have t: "trust_continues (cs_record old) r" using transition_iff [OF ok w(2)] old(4) by blast
  show thesis
  proof (cases "json_text (catalog_value (cs_record old)) = json_text (catalog_value r)")
    case True
    then have "cs_record old = r" using catalog_value_inject json_text_inject [OF ok(2) w(2)] by blast
    with assms(3) old t that True show thesis
      by (auto simp: commitLocal_def settings_parent_def elim!: bind_resultE split: sum.splits if_splits)
  next
    case False
    with assms(3) old obtain u where p: "publish (io_publish io 0) record_file (json_text (catalog_value r)) True files = (Inr u, files')"
      and s: "read_catalog h io files' = Inr snap"
      by (auto simp: commitLocal_def elim!: bind_resultE split: sum.splits if_splits prod.splits)
    have "read_catalog h io files' = Inr \<lparr>cs_revision = revision_of h (json_text (catalog_value r)), cs_record = r\<rparr>"
      using publish_files(2) [OF p] publish_files(3) [OF p] w(1) old(1,3) by (intro read_catalog_update) simp_all
    with s have "cs_record snap = r" by auto
    with s old t that show thesis by blast
  qed
qed

lemma commitLocal_Inl:
  assumes "wire_ok 0 v" "parsePeerCatalog h (json_text v) = Inr r" "commitLocal h io expected r files = (Inl e, files')"
    "io_publish io 0 \<noteq> PubLosesTarget"
  shows "files' = files"
proof (rule commitLocal_published [OF assms(3)])
  fix old out
  assume old: "read_catalog h io files = Inr old" "cs_revision old = expected" "pc_catalogId (cs_record old) = pc_catalogId r"
      "assertPeerCatalogTransition (cs_record old) r = Inr ()"
    and p: "publish (io_publish io 0) record_file (json_text (catalog_value r)) True files = (out, files')"
  show "files' = files"
  proof (cases out)
    case (Inr u)
    have "read_catalog h io files' = Inr \<lparr>cs_revision = revision_of h (json_text (catalog_value r)), cs_record = r\<rparr>"
      using publish_files(2) [OF p] publish_files(3) [OF p] catalog_rewrite(1) [OF assms(1,2)] old(1,3) Inr
      by (intro read_catalog_update) simp_all
    with assms(3) old p Inr show ?thesis by (auto simp: commitLocal_def split: sum.splits if_splits)
  next
    case (Inl x)
    with p assms(4) show ?thesis by (auto simp: publish_def split: publish_outcome.splits if_splits)
  qed
qed



section \<open>Reset\<close>

lemma aside_target_fresh: "map_of files p = None \<Longrightarrow> aside_target files p p ss = p"
  by (cases ss) simp_all

lemma publish_fresh_keeps:
  assumes "map_of files q = Some e"
  shows "map_of (snd (publish out p t False files)) q = Some e"
  using assms by (auto simp: publish_def update_conv' split: publish_outcome.split option.split)

lemma enableLocal_keeps:
  assumes "map_of files q = Some e"
  shows "map_of (snd (enableLocal h io files)) q = Some e"
proof -
  obtain res1 files1 where p1: "publish (io_publish io 0) record_file
      (json_text (catalog_value (empty_catalog (io_catalogId io)))) False files = (res1, files1)" by force
  obtain res2 files2 where p2: "publish (io_publish io 1) marker_file (json_text (marker_of (io_catalogId io))) False files1 = (res2, files2)"
    by force
  have f1: "map_of files1 q = Some e" using publish_fresh_keeps [OF assms] p1 by (metis snd_conv)
  then have f2: "map_of files2 q = Some e" using publish_fresh_keeps p2 by (metis snd_conv)
  show ?thesis
    using assms f1 f2 by (auto simp: enableLocal_def p1 p2 [unfolded One_nat_def] split: sum.split)
qed

lemma enable_keeps: "map_of (st_files st) q = Some e \<Longrightarrow> map_of (st_files (snd (enable h io reply st))) q = Some e"
proof -
  assume q: "map_of (st_files st) q = Some e"
  obtain res st' where r: "routed h reply (enableLocal h io) st = (res, st')" by force
  then have "map_of (st_files st') q = Some e"
  proof (cases rule: routed_files)
    case (2 res')
    then show ?thesis using enableLocal_keeps [OF q, of h io] by simp
  qed (use q in simp)
  with r show ?thesis by (simp add: enable_def)
qed

lemma move_present_cases:
  assumes "map_of files (p @ ''.legacy-'' @ io_stamp io) = None"
  obtains "snd (move_present io i p present files) = files"
  | entry where "map_of files p = Some entry"
      "snd (move_present io i p present files) = AList.update (p @ ''.legacy-'' @ io_stamp io) entry (AList.delete p files)"
proof -
  let ?l = "p @ ''.legacy-'' @ io_stamp io"
  note t = aside_target_fresh [OF assms]
  show thesis
  proof (cases "present \<and> io_lstat io \<and> io_rename io i")
    case True
    then show thesis
      using that by (cases "map_of files p") (simp_all only: move_present_def moveAside_def t simp_thms if_True if_False option.case snd_conv)
  next
    case False
    then have "snd (move_present io i p present files) = files"
      by (auto simp: move_present_def moveAside_def split: option.split)
    then show thesis by (rule that(1))
  qed
qed

lemma move_present_keeps:
  assumes "map_of files q = Some e" "map_of files (p @ ''.legacy-'' @ io_stamp io) = None"
  shows "\<exists>q'. map_of (snd (move_present io i p present files)) q' = Some e \<and> (q' = q \<or> (q = p \<and> q' = p @ ''.legacy-'' @ io_stamp io))"
proof (rule move_present_cases [OF assms(2)])
  fix entry
  let ?l = "p @ ''.legacy-'' @ io_stamp io"
  assume e: "map_of files p = Some entry" and m: "snd (move_present io i p present files) = AList.update ?l entry (AList.delete p files)"
  show ?thesis
  proof (cases "q = p")
    case True
    with e assms(1) have "map_of (snd (move_present io i p present files)) ?l = Some e" unfolding m by (simp add: update_conv')
    then show ?thesis using True by blast
  next
    case False
    then have "map_of (snd (move_present io i p present files)) q = Some e"
      using assms unfolding m by (auto simp: update_conv' delete_conv')
    then show ?thesis by blast
  qed
qed (use assms(1) in auto)

lemma move_present_other:
  assumes "q \<noteq> p" "q \<noteq> p @ ''.legacy-'' @ io_stamp io" "map_of files (p @ ''.legacy-'' @ io_stamp io) = None"
  shows "map_of (snd (move_present io i p present files)) q = map_of files q"
  by (rule move_present_cases [OF assms(3), of i present]) (use assms(1,2) in \<open>simp_all add: update_conv' delete_conv'\<close>)

text \<open> Discarding the catalog never erases one. A catalog that reads cleanly is refused and nothing changes. Otherwise,
  when the stamped names are still free, every file of the directory is kept with its contents, the record and the
  marker under their stamped names.\<close>

lemma reset_erases_nothing:
  assumes "map_of (st_files st) (record_file @ ''.legacy-'' @ io_stamp io) = None"
    "map_of (st_files st) (marker_file @ ''.legacy-'' @ io_stamp io) = None" "map_of (st_files st) p = Some e"
  shows "(is_ok (read_catalog h io (st_files st)) \<longrightarrow> \<not> is_ok (fst (reset h io reply st)) \<and> snd (reset h io reply st) = st) \<and>
    (\<exists>q. map_of (st_files (snd (reset h io reply st))) q = Some e \<and>
       q \<in> {p, record_file @ ''.legacy-'' @ io_stamp io, marker_file @ ''.legacy-'' @ io_stamp io})"
proof (intro conjI impI)
  let ?rl = "record_file @ ''.legacy-'' @ io_stamp io" and ?ml = "marker_file @ ''.legacy-'' @ io_stamp io"
  assume ok: "is_ok (read_catalog h io (st_files st))"
  then obtain snap where "read_catalog h io (st_files st) = Inr snap" by (cases "read_catalog h io (st_files st)") auto
  then obtain raw m where "map_of (st_files st) record_file = Some (RegularFile raw)" "map_of (st_files st) marker_file = Some (RegularFile m)"
    by (rule read_catalog_Inr)
  with ok show "\<not> is_ok (fst (reset h io reply st))" "snd (reset h io reply st) = st"
    by (auto simp: reset_def settings_parent_def both_exist_def file_exists_def peer_fail_def catalog_unavailable_def)
next
  let ?rl = "record_file @ ''.legacy-'' @ io_stamp io" and ?ml = "marker_file @ ''.legacy-'' @ io_stamp io"
  have keep: "\<exists>q. map_of (st_files (snd (enable h io reply st'))) q = Some e \<and> q \<in> {p, ?rl, ?ml}"
    if "\<exists>q. map_of (st_files st') q = Some e \<and> q \<in> {p, ?rl, ?ml}" for st'
    using that enable_keeps by blast
  have m1: "\<exists>q. map_of (snd (move_present io 0 record_file r (st_files st))) q = Some e \<and> (q = p \<or> q = ?rl)" for r
    using move_present_keeps [OF assms(3,1)] by blast
  have m2: "\<exists>q. map_of (snd (move_present io 1 marker_file m (snd (move_present io 0 record_file r (st_files st))))) q = Some e \<and>
      q \<in> {p, ?rl, ?ml}" for r m
  proof -
    let ?f = "snd (move_present io 0 record_file r (st_files st))"
    obtain q where q: "map_of ?f q = Some e" "q = p \<or> q = ?rl" using m1 by blast
    have "map_of ?f ?ml = None" using move_present_other [of ?ml record_file io "st_files st" 0 r] assms(1,2) by simp
    from move_present_keeps [OF q(1) this] q(2) show ?thesis by blast
  qed
  define K where "K files \<longleftrightarrow> (\<exists>q. map_of files q = Some e \<and> q \<in> {p, ?rl, ?ml})" for files
  have "K (st_files (snd (reset h io reply st)))"
  proof (cases "bind_result (settings_parent io) (\<lambda>_. both_exist io (st_files st))")
    case (Inr rm)
    obtain r m where rm: "rm = (r, m)" by force
    obtain res1 files1 where p1: "move_present io 0 record_file r (st_files st) = (res1, files1)" by force
    obtain res2 files2 where p2: "move_present io 1 marker_file m files1 = (res2, files2)" by force
    have f1: "K files1" unfolding K_def using m1 [of r] p1 by auto
    have f2: "K files2" unfolding K_def using m2 [of m r] p1 p2 by simp
    have f0: "K (st_files st)" unfolding K_def using assms(3) by blast
    have k: "K (st_files (snd (enable h io reply st)))" "K (st_files (snd (enable h io reply (st\<lparr>st_files := files2\<rparr>))))"
      using keep [of st] keep [of "st\<lparr>st_files := files2\<rparr>"] f0 f2 unfolding K_def by simp_all
    define G :: "catalog_snapshot peer_result \<times> catalog_store \<Rightarrow> bool" where "G x \<longleftrightarrow> K (st_files (snd x))" for x
    have G: "G a \<Longrightarrow> G b \<Longrightarrow> G (if c then a else b)" for a b c by simp
    have "G (case res2 of Inl e \<Rightarrow> (Inl e, st\<lparr>st_files := files2\<rparr>) | Inr _ \<Rightarrow> enable h io reply (st\<lparr>st_files := files2\<rparr>))"
      by (cases res2) (simp_all add: G_def f2 k)
    then have "G (case res1 of Inl e \<Rightarrow> (Inl e, st\<lparr>st_files := files1\<rparr>) | Inr _ \<Rightarrow>
       (case res2 of Inl e \<Rightarrow> (Inl e, st\<lparr>st_files := files2\<rparr>) | Inr _ \<Rightarrow> enable h io reply (st\<lparr>st_files := files2\<rparr>)))"
      by (cases res1) (simp_all add: G_def f1)
    then have "G (reset h io reply st)"
      unfolding reset_def Inr rm sum.case prod.case p1 p2 by (intro G) (simp_all add: G_def f0 k)
    then show ?thesis by (simp add: G_def)
  next
    case (Inl x)
    have "K (st_files st)" unfolding K_def using assms(3) by blast
    then show ?thesis by (simp add: reset_def Inl)
  qed
  then show "\<exists>q. map_of (st_files (snd (reset h io reply st))) q = Some e \<and> q \<in> {p, ?rl, ?ml}" unfolding K_def .
qed

section \<open>Sample runs\<close>

lemma catalog_print:
  assumes "peer_catalog_ok h r" "wire_ok 0 (catalog_value r)" "utf8Length (json_text (catalog_value r)) \<le> MAX_CATALOG_BYTES"
  shows "parsePeerCatalog h (json_text (catalog_value r)) = Inr r"
  using parsePeerJson_print [OF assms(2)] catalog_of_value_self [OF assms(1)] assms(3)
  by (simp add: parsePeerCatalog_def MAX_CATALOG_BYTES_def MAX_PEER_CONTROL_BYTES_def)

definition sample_url :: "string \<Rightarrow> string \<Rightarrow> string \<Rightarrow> peer_url" where
  "sample_url t protocol pathname = \<lparr>pu_protocol = protocol, pu_origin = t, pu_href = t,
     pu_host = (if protocol = ''udp:'' then ''a:1'' else ''a''), pu_hostname = ''a'', pu_port = (if protocol = ''udp:'' then Some 1 else None),
     pu_pathname = pathname, pu_credentials = ([], []), pu_search = [], pu_hash = []\<rparr>"

definition sample_host :: peer_host where
  "sample_host = \<lparr>ph_new_url = (\<lambda>t. if t = ''https://a'' then Some (sample_url t ''https:'' ''/'')
       else if t = ''wss://a/v1/signals'' then Some (sample_url t ''wss:'' ''/v1/signals'')
       else if t = ''udp://a:1'' then Some (sample_url t ''udp:'' []) else None),
     ph_from_base64 = (\<lambda>s. if s = ''K'' then replicate 32 1 else [7]),
     ph_to_base64 = (\<lambda>b. if b = [7] then ''C'' else ''K''),
     ph_sha256 = (\<lambda>_. replicate 64 (CHR ''0'')),
     ph_certificate = (\<lambda>b. Some \<lparr>x5_raw = b, x5_ca = True, x5_keyType = ''ed25519'', x5_selfSigned = True, x5_spki = replicate 32 1\<rparr>)\<rparr>"

definition sample_sid :: string where "sample_sid = ''000000000000''"
definition sample_cid :: string where "sample_cid = ''111111111111''"

definition sample_peer_service :: js_value where
  "sample_peer_service = JObj [(''serviceId'', JStr sample_sid), (''displayName'', JStr ''S''), (''httpsOrigin'', JStr ''https://a''),
     (''wssUrl'', JStr ''wss://a/v1/signals''), (''stunAddress'', JStr ''a:1''), (''publicKey'', JStr ''K''), (''certificate'', JStr ''C'')]"

definition sample_peer_catalog :: peer_catalog where
  "sample_peer_catalog = \<lparr>pc_catalogId = sample_cid, pc_services = [sample_peer_service], pc_computers = [], pc_forgotten = []\<rparr>"

definition sample_forgot :: peer_catalog where
  "sample_forgot = \<lparr>pc_catalogId = sample_cid, pc_services = [], pc_computers = [], pc_forgotten = [sample_sid]\<rparr>"

definition good_io :: catalog_io where
  "good_io = \<lparr>io_parent = True, io_lstat = True, io_read = True, io_publish = (\<lambda>_. PubOk), io_rename = (\<lambda>_. True),
     io_catalogId = sample_cid, io_stamp = ''t'', io_suffixes = (\<lambda>_. [])\<rparr>"

definition sample_peer_store :: "peer_catalog \<Rightarrow> catalog_store" where
  "sample_peer_store r = \<lparr>st_coreServes = False, st_files =
     [(record_file, RegularFile (json_text (catalog_value r))), (marker_file, RegularFile (json_text (marker_of sample_cid)))]\<rparr>"

lemma sample_ids: "is_hex sample_sid" "is_hex sample_cid" "length sample_sid = 12" "length sample_cid = 12"
  by (simp_all add: is_hex_def sample_sid_def sample_cid_def js_is_digit_def code_unit_def)

lemma sample_peer_service_ok: "parsePeerService sample_host sample_peer_service = Inr sample_peer_service"
proof -
  have x: "exactPeerObject sample_peer_service service_keys = Inr sample_peer_service"
    by (simp add: exactPeerObject_def sample_peer_service_def service_keys_def)
  have c: "assertServiceCertificate sample_host ''C'' ''K'' = Inr ()"
    by (simp add: assertServiceCertificate_def sample_host_def last_bytes_def)
  have e: "assertPeerEndpoints sample_host ''https://a'' ''wss://a/v1/signals'' ''a:1'' = Inr ()"
    by (simp add: assertPeerEndpoints_def sample_host_def sample_url_def plain_url_def js_is_space_def code_unit_def)
  have i: "peer_id (JStr sample_sid) 12" by (simp add: peer_id_def sample_ids)
  have n: "peer_name (JStr ''S'')"
    by (simp add: peer_name_def js_trim_def js_trim_start_def js_trim_end_def js_is_space_def code_unit_def breaks_line_def)
  have k: "peer_key sample_host (JStr ''K'')" by (simp add: peer_key_def sample_host_def numeral_eq_Suc)
  have h: "take 12 (ph_sha256 sample_host b) = sample_sid" for b by (simp add: sample_host_def sample_sid_def numeral_eq_Suc)
  have f: "js_field sample_peer_service ''serviceId'' = JStr sample_sid" "js_field sample_peer_service ''displayName'' = JStr ''S''"
    "js_field sample_peer_service ''httpsOrigin'' = JStr ''https://a''" "js_field sample_peer_service ''wssUrl'' = JStr ''wss://a/v1/signals''"
    "js_field sample_peer_service ''stunAddress'' = JStr ''a:1''" "js_field sample_peer_service ''publicKey'' = JStr ''K''"
    "js_field sample_peer_service ''certificate'' = JStr ''C''"
    by (simp_all add: sample_peer_service_def)
  show ?thesis unfolding parsePeerService_def by (simp add: x f js_text_def c e i n k h)
qed

lemma sample_peer_catalog_ok: "peer_catalog_ok sample_host sample_peer_catalog"
  by (simp add: peer_catalog_ok_def sample_peer_catalog_def sample_peer_service_ok peer_id_def sample_ids)

lemma sample_forgot_ok: "peer_catalog_ok sample_host sample_forgot" "peer_catalog_ok sample_host (empty_catalog sample_cid)"
  by (simp_all add: peer_catalog_ok_def sample_forgot_def empty_catalog_def peer_id_def sample_ids)

lemma number_one: "nat \<bar>1\<bar> < number_limit"
  by (rule safe_limit) (simp add: is_safe_integer_def max_safe_integer_def)

lemma sample_wire: "wire_ok 0 (catalog_value sample_peer_catalog)" "wire_ok 0 (catalog_value sample_forgot)"
  "wire_ok 0 (catalog_value (empty_catalog sample_cid))" "wire_ok 0 (marker_of sample_cid)"
  using number_one
  by (simp_all add: catalog_value_def sample_peer_catalog_def sample_forgot_def empty_catalog_def sample_peer_service_def marker_of_def)

lemmas sample_bytes = catalog_value_def sample_peer_catalog_def sample_forgot_def empty_catalog_def sample_peer_service_def marker_of_def
  sample_sid_def sample_cid_def json_string_def json_char_def code_unit_def json_int_def MAX_CATALOG_BYTES_def

lemma digits_one: "digits_of_nat 1 = ''1''"
  by code_simp

lemma sample_sizes: "utf8Length (json_text (catalog_value sample_peer_catalog)) \<le> MAX_CATALOG_BYTES"
  "utf8Length (json_text (catalog_value sample_forgot)) \<le> MAX_CATALOG_BYTES"
  "utf8Length (json_text (catalog_value (empty_catalog sample_cid))) \<le> MAX_CATALOG_BYTES"
  "utf8Length (json_text (marker_of sample_cid)) \<le> MAX_CATALOG_BYTES"
  using digits_one by (simp_all add: sample_bytes)

lemma sample_parse: "parsePeerCatalog sample_host (json_text (catalog_value sample_peer_catalog)) = Inr sample_peer_catalog"
  "parsePeerCatalog sample_host (json_text (catalog_value sample_forgot)) = Inr sample_forgot"
  "parsePeerCatalog sample_host (json_text (catalog_value (empty_catalog sample_cid))) = Inr (empty_catalog sample_cid)"
  "parsePeerJson (json_text (marker_of sample_cid)) = Inr (marker_of sample_cid)"
  using catalog_print [OF sample_peer_catalog_ok sample_wire(1) sample_sizes(1)]
    catalog_print [OF sample_forgot_ok(1) sample_wire(2) sample_sizes(2)]
    catalog_print [OF sample_forgot_ok(2) sample_wire(3) sample_sizes(3)]
    parsePeerJson_print [OF sample_wire(4)] sample_sizes(4)
  by (simp_all add: MAX_CATALOG_BYTES_def MAX_PEER_CONTROL_BYTES_def)

lemma good_io_simps [simp]: "io_parent good_io" "io_lstat good_io" "io_read good_io" "io_publish good_io n = PubOk" "io_stamp good_io = ''t''"
  by (simp_all add: good_io_def)

lemma sample_peer_catalog_ids: "pc_catalogId sample_peer_catalog = sample_cid" "pc_catalogId sample_forgot = sample_cid"
  "pc_catalogId (empty_catalog sample_cid) = sample_cid"
  by (simp_all add: sample_peer_catalog_def sample_forgot_def empty_catalog_def)

lemma sample_read:
  assumes "r \<in> {sample_peer_catalog, sample_forgot, empty_catalog sample_cid}"
  shows "read_catalog sample_host good_io (st_files (sample_peer_store r)) =
    Inr \<lparr>cs_revision = revision_of sample_host (json_text (catalog_value r)), cs_record = r\<rparr>"
proof -
  have p: "parsePeerCatalog sample_host (json_text (catalog_value r)) = Inr r"
    "utf8Length (json_text (catalog_value r)) \<le> MAX_CATALOG_BYTES" "pc_catalogId r = sample_cid"
    using assms sample_parse sample_sizes sample_peer_catalog_ids by auto
  have f: "map_of (st_files (sample_peer_store r)) record_file = Some (RegularFile (json_text (catalog_value r)))"
    "map_of (st_files (sample_peer_store r)) marker_file = Some (RegularFile (json_text (marker_of sample_cid)))"
    by (simp_all add: sample_peer_store_def)
  have x: "exactPeerObject (marker_of sample_cid) [''version'', ''catalogId''] = Inr (marker_of sample_cid)"
    "js_field (marker_of sample_cid) ''version'' = JNum 1" "js_field (marker_of sample_cid) ''catalogId'' = JStr sample_cid"
    by (simp_all add: exactPeerObject_def marker_of_def)
  show ?thesis
    using p sample_sizes(4) by (simp add: read_catalog_def read_body_def readRecord_def f x sample_parse(4))
qed

lemma sample_publish: "publish PubOk record_file (json_text (catalog_value r')) True (st_files (sample_peer_store r)) =
    (Inr (), st_files (sample_peer_store r'))"
  by (simp add: publish_def sample_peer_store_def)

lemma sample_unserved: "\<not> st_coreServes (sample_peer_store r)"
  by (simp add: sample_peer_store_def)

lemma sample_remove:
  "removeService sample_host good_io None sample_sid (sample_peer_store sample_peer_catalog) =
     (Inr \<lparr>cs_revision = revision_of sample_host (json_text (catalog_value sample_forgot)), cs_record = sample_forgot\<rparr>,
      sample_peer_store sample_forgot)"
proof -
  let ?f = "st_files (sample_peer_store sample_peer_catalog)"
  have "readRecord good_io ?f record_file = Inr (json_text (catalog_value sample_peer_catalog))"
    using sample_sizes(1) by (simp add: readRecord_def sample_peer_store_def)
  moreover have "tolerant_record sample_host (json_text (catalog_value sample_peer_catalog)) = Inr (catalog_value sample_peer_catalog)"
    by (simp add: tolerant_record_def sample_parse)
  moreover have "js_array (js_field (catalog_value sample_peer_catalog) ''forgottenServiceIds'') = []"
    "js_array (js_field (catalog_value sample_peer_catalog) ''services'') = [sample_peer_service]"
    "js_field sample_peer_service ''serviceId'' = JStr sample_sid"
    by (simp_all add: catalog_value_def js_array_def sample_peer_catalog_def sample_peer_service_def)
  moreover have "without_service sample_sid (catalog_value sample_peer_catalog) = catalog_value sample_forgot"
    by (simp add: without_service_def Let_def catalog_value_def js_array_def sample_peer_catalog_def sample_forgot_def sample_peer_service_def)
  ultimately have "removeServiceLocal sample_host good_io sample_sid ?f =
     (Inr \<lparr>cs_revision = revision_of sample_host (json_text (catalog_value sample_forgot)), cs_record = sample_forgot\<rparr>,
      st_files (sample_peer_store sample_forgot))"
    unfolding removeServiceLocal_def
    by (simp add: settings_parent_def sample_parse sample_publish sample_read)
  then show ?thesis
    by (simp add: removeService_def routed_def onCore_def with_files_def) (simp add: sample_peer_store_def)
qed

lemma sample_inspect: "inspectLocal sample_host good_io (st_files (sample_peer_store sample_forgot)) =
    Inr (Some \<lparr>cs_revision = revision_of sample_host (json_text (catalog_value sample_forgot)), cs_record = sample_forgot\<rparr>)"
proof -
  have "both_exist good_io (st_files (sample_peer_store sample_forgot)) = Inr (True, True)"
    by (simp add: both_exist_def file_exists_def sample_peer_store_def)
  then show ?thesis by (simp add: inspectLocal_def settings_parent_def sample_read)
qed


lemma sample_trust: "trust_continues (empty_catalog sample_cid) sample_forgot"
  by (simp add: trust_continues_def empty_catalog_def sample_forgot_def)


lemma sample_commit:
  "is_ok (fst (commit sample_host good_io None (revision_of sample_host (json_text (catalog_value (empty_catalog sample_cid))))
     (catalog_value sample_forgot) (sample_peer_store (empty_catalog sample_cid))))"
proof -
  have "assertPeerCatalogTransition (empty_catalog sample_cid) sample_forgot = Inr ()"
    using transition_iff [OF sample_forgot_ok(2) sample_wire(3,2)] sample_trust by blast
  then have "is_ok (fst (commitLocal sample_host good_io (revision_of sample_host (json_text (catalog_value (empty_catalog sample_cid))))
      sample_forgot (st_files (sample_peer_store (empty_catalog sample_cid)))))"
    by (simp add: commitLocal_def settings_parent_def sample_read sample_peer_catalog_ids sample_publish)
  then show ?thesis
    by (simp add: commit_def sample_parse routed_def onCore_local sample_unserved with_files_def)
qed


lemma reset_erases_nothing_witness:
  "\<exists>q. map_of (st_files (snd (reset sample_host good_io None \<lparr>st_coreServes = False, st_files = [(record_file, OtherEntry)]\<rparr>))) q =
     Some OtherEntry"
proof -
  let ?st = "\<lparr>st_coreServes = False, st_files = [(record_file, OtherEntry)]\<rparr>"
  have "map_of (st_files ?st) (record_file @ ''.legacy-'' @ io_stamp good_io) = None"
    "map_of (st_files ?st) (marker_file @ ''.legacy-'' @ io_stamp good_io) = None" "map_of (st_files ?st) record_file = Some OtherEntry"
    by simp_all
  from reset_erases_nothing [OF this, of sample_host None] show ?thesis by blast
qed

definition sample_request :: js_value where
  "sample_request = JObj [(''requestId'', JNum 1), (''version'', JNum 1), (''serviceId'', JStr sample_sid)]"

lemma sample_admitted: "parseManagementRequest sample_host ''networks'' sample_request = Inr sample_request"
proof -
  have "map_of management_fields ''networks'' = Some [''serviceId'']" by (simp add: management_fields_def)
  then show ?thesis
    by (simp add: parseManagementRequest_def exactPeerObject_def sample_request_def P2P_MANAGEMENT_VERSION_def assertRequestId_def
        is_safe_integer_def max_safe_integer_def validateField_def assertAccountId_def sample_ids)
qed

theorem management_request_primitive_witness:
  "\<exists>kvs. sample_request = JObj kvs \<and> fst ` set kvs = {''version'', ''requestId'', ''serviceId''} \<and> list_all (\<lambda>(k, x). primitive x) kvs"
proof -
  have "map_of management_fields ''networks'' = Some [''serviceId'']" by (simp add: management_fields_def)
  from management_request_primitive [OF this sample_admitted] show ?thesis by (auto simp: list_all_iff)
qed

end
