(* ===== verification/Remote_Service.thy ===== *)
theory Remote_Service
  imports Peer_Wire "HOL-Library.Multiset"
begin

text \<open>
  SSH connections: the core's remote route (\<open>electron/main/core/remote-route.ts\<close>), the service that keeps the
  page's view of it (\<open>electron/main/remote/service.ts\<close>) and the requests the renderer may make
  (\<open>electron/main/remote-ipc.ts\<close>).

  Every operation of the service is cut at its awaits.  A \<open>task\<close> is an operation waiting for one reply of the
  core's private channel: it holds what the rest of the method still needs.  Starting an operation and
  resuming a task run one synchronous segment on the shared state and end in an \<open>outcome\<close>: waiting for the next
  reply, a returned state or a thrown error.  Resolving the document path and the catalog read that follows it are one
  reply.  \<open>rs_calls\<close> and \<open>rs_emitted\<close> are history variables: the calls made and the states published.
\<close>

section \<open>Views and errors\<close>

datatype remote_status = RemoteDisconnected | RemoteConnecting | RemoteReady string | RemoteFailed string string

datatype test_status = Untested | Testing | TestPassed | TestFailed string string

record core_connection =
  cc_connectionId :: string
  cc_displayName :: string
  cc_host :: string
  cc_port :: int
  cc_user :: string
  cc_sshKeyPath :: "string option"
  cc_configRevision :: string

record remote_connection =
  rc_connectionId :: string
  rc_displayName :: string
  rc_host :: string
  rc_port :: int
  rc_user :: string
  rc_sshKeyPath :: string
  rc_configRevision :: string
  rc_status :: remote_status
  rc_testStatus :: test_status

record create_request =
  rq_displayName :: string
  rq_host :: string
  rq_port :: int
  rq_user :: string
  rq_sshKeyPath :: string

record update_request =
  up_connectionId :: string
  up_fields :: create_request
  up_expectedConfigRevision :: string

datatype remote_error =
    RemoteConnectionError string string   \<comment> \<open>code and message\<close>
  | Foreign "string option"               \<comment> \<open>an error of another class, with its code when it has one\<close>

fun foreign_error :: "peer_error \<Rightarrow> remote_error" where
  "foreign_error (PeerHelperError code) = Foreign (Some code)"
| "foreign_error _ = Foreign None"

definition isNotConnected :: "remote_error \<Rightarrow> bool" where
  "isNotConnected e =
     (case e of RemoteConnectionError code _ \<Rightarrow> code = ''remote.connection_not_found''
      | Foreign code \<Rightarrow> code = Some ''remote.connection_not_found'')"

definition normalizeRemoteError :: "remote_error \<Rightarrow> string \<times> string" where
  "normalizeRemoteError e =
     (case e of RemoteConnectionError code message \<Rightarrow> (code, message)
      | Foreign _ \<Rightarrow> (''remote.tunnel_failed'', ''Remote connection failed.''))"

section \<open>The core's remote route\<close>

definition is_string :: "js_value \<Rightarrow> bool" where
  "is_string v = (case v of JStr _ \<Rightarrow> True | _ \<Rightarrow> False)"

fun text_of :: "js_value \<Rightarrow> string" where
  "text_of (JStr s) = s"
| "text_of _ = []"

fun connection_of :: "js_value \<Rightarrow> core_connection peer_result" where
  \<comment> \<open>the row of \<open>connectionsOf\<close>\<close>
  "connection_of (JObj kvs) =
     (let f = js_field (JObj kvs) in
      case (f ''connectionId'', f ''displayName'', f ''host'', f ''port'', f ''user'', f ''configRevision'') of
        (JStr i, JStr d, JStr h, JNum p, JStr u, JStr r) \<Rightarrow>
          (if f ''sshKeyPath'' = JUndefined \<or> is_string (f ''sshKeyPath'')
           then Inr \<lparr>cc_connectionId = i, cc_displayName = d, cc_host = h, cc_port = p, cc_user = u,
                     cc_sshKeyPath = Some (text_of (f ''sshKeyPath'')), cc_configRevision = r\<rparr>
           else peer_fail ''p2p.invalid_payload'')
      | _ \<Rightarrow> peer_fail ''p2p.invalid_payload'')"
| "connection_of _ = peer_fail ''p2p.invalid_payload''"

definition connectionsOf :: "js_value \<Rightarrow> core_connection list peer_result" where
  "connectionsOf v =
     (case v of
        JObj kvs \<Rightarrow>
          (case js_field v ''connections'' of JArr rows \<Rightarrow> traverse_result connection_of rows | _ \<Rightarrow> peer_fail ''p2p.invalid_payload'')
      | _ \<Rightarrow> peer_fail ''p2p.invalid_payload'')"

definition statusOf :: "js_value \<Rightarrow> string option" where
  "statusOf v =
     (case v of
        JObj kvs \<Rightarrow>
          (case (js_field v ''present'', js_field v ''url'') of (JBool True, JStr url) \<Rightarrow> Some url | _ \<Rightarrow> None)
      | _ \<Rightarrow> None)"

definition connect_url :: "js_value \<Rightarrow> string peer_result" where
  \<comment> \<open>the answer of \<open>CoreRemoteRoute.connect\<close>\<close>
  "connect_url v =
     (case v of
        JObj kvs \<Rightarrow> (case js_field v ''url'' of JStr url \<Rightarrow> Inr url | _ \<Rightarrow> peer_fail ''p2p.invalid_payload'')
      | _ \<Rightarrow> peer_fail ''p2p.invalid_payload'')"

type_synonym core_call = "string \<times> js_value"

definition inspect_call :: "string \<Rightarrow> core_call" where
  "inspect_call filePath = (''remote.catalog_inspect'', JObj [(''filePath'', JStr filePath)])"

definition create_call :: "string \<Rightarrow> create_request \<Rightarrow> core_call" where
  "create_call filePath q = (''remote.catalog_create'',
     JObj [(''filePath'', JStr filePath), (''displayName'', JStr (rq_displayName q)), (''host'', JStr (rq_host q)),
           (''port'', JNum (rq_port q)), (''user'', JStr (rq_user q)), (''sshKeyPath'', JStr (rq_sshKeyPath q))])"

definition update_call :: "string \<Rightarrow> update_request \<Rightarrow> core_call" where
  "update_call filePath u = (''remote.catalog_update'',
     JObj [(''filePath'', JStr filePath), (''connectionId'', JStr (up_connectionId u)),
           (''displayName'', JStr (rq_displayName (up_fields u))), (''host'', JStr (rq_host (up_fields u))),
           (''port'', JNum (rq_port (up_fields u))), (''user'', JStr (rq_user (up_fields u))),
           (''sshKeyPath'', JStr (rq_sshKeyPath (up_fields u))), (''expectedConfigRevision'', JStr (up_expectedConfigRevision u))])"

definition remove_call :: "string \<Rightarrow> string \<Rightarrow> core_call" where
  "remove_call filePath i = (''remote.catalog_remove'', JObj [(''filePath'', JStr filePath), (''connectionId'', JStr i)])"

definition connect_call :: "core_connection \<Rightarrow> core_call" where
  "connect_call c = (''remote.connect'',
     JObj [(''connectionId'', JStr (cc_connectionId c)),
           (''computer'', JObj [(''host'', JStr (cc_host c)), (''port'', JNum (cc_port c)), (''user'', JStr (cc_user c))]),
           (''ssh'', JStr []), (''scp'', JStr []),
           (''sshKeyPath'', JStr (case cc_sshKeyPath c of None \<Rightarrow> [] | Some p \<Rightarrow> p))])"

definition disconnect_call :: "string \<Rightarrow> core_call" where
  "disconnect_call i = (''remote.disconnect'', JObj [(''connectionId'', JStr i)])"

definition status_call :: "string \<Rightarrow> core_call" where
  "status_call i = (''remote.status'', JObj [(''connectionId'', JStr i)])"

section \<open>The service\<close>

record remote_service =
  rs_status :: "remote_status js_map"
  rs_testStatus :: "test_status js_map"
  rs_editing :: "string list"
  rs_busy :: "string list"
  rs_disconnecting :: "string list"
  rs_route :: bool               \<comment> \<open>whether \<open>route()\<close> gives a port now\<close>
  rs_filePath :: string
  rs_calls :: "core_call list"
  rs_emitted :: "remote_connection list list"

datatype find_goal =
    FindConnect string | FindTest string | FindDisconnect string
  | FindUpdate update_request | FindRemove string

datatype refresh_goal =
    ReadState
  | Connecting string core_connection | Connected string | ConnectFailed string remote_error
  | TestStarted string core_connection | TestedOk string | TestedBad string remote_error
  | Disconnected string

datatype task =
    Creating
  | Finding find_goal
  | Inspecting refresh_goal
  | Probing refresh_goal "core_connection list" "core_connection list"  \<comment> \<open>all rows, and the rows still to ask about\<close>
  | Dialing string
  | TestDialing string
  | TestHangup string
  | HangingUp string
  | Updating update_request bool
  | Removing string
  | ShuttingDown "string list"

datatype outcome =
    Waiting task
  | Returned "remote_connection list"
  | Finished                            \<comment> \<open>\<open>shutdown\<close> returns nothing\<close>
  | Threw remote_error

definition set_status :: "string \<Rightarrow> remote_status \<Rightarrow> remote_service \<Rightarrow> remote_service" where
  "set_status i st s = s\<lparr>rs_status := AList.update i st (rs_status s)\<rparr>"

definition set_test :: "string \<Rightarrow> test_status \<Rightarrow> remote_service \<Rightarrow> remote_service" where
  "set_test i st s = s\<lparr>rs_testStatus := AList.update i st (rs_testStatus s)\<rparr>"

definition status_of :: "remote_service \<Rightarrow> string \<Rightarrow> remote_status" where
  "status_of s i = (case map_of (rs_status s) i of None \<Rightarrow> RemoteDisconnected | Some st \<Rightarrow> st)"

definition test_of :: "remote_service \<Rightarrow> string \<Rightarrow> test_status" where
  "test_of s i = (case map_of (rs_testStatus s) i of None \<Rightarrow> Untested | Some st \<Rightarrow> st)"

definition unbusy :: "string \<Rightarrow> remote_service \<Rightarrow> remote_service" where
  "unbusy i s = s\<lparr>rs_busy := removeAll i (rs_busy s)\<rparr>"

definition unedit :: "string \<Rightarrow> remote_service \<Rightarrow> remote_service" where
  "unedit i s = s\<lparr>rs_editing := removeAll i (rs_editing s)\<rparr>"

definition undisconnect :: "string \<Rightarrow> remote_service \<Rightarrow> remote_service" where
  "undisconnect i s = s\<lparr>rs_disconnecting := removeAll i (rs_disconnecting s)\<rparr>"

definition call :: "core_call \<Rightarrow> remote_service \<Rightarrow> remote_service" where
  "call c s = s\<lparr>rs_calls := rs_calls s @ [c]\<rparr>"

definition emit :: "remote_connection list \<Rightarrow> remote_service \<Rightarrow> remote_service" where
  "emit state s = s\<lparr>rs_emitted := rs_emitted s @ [state]\<rparr>"

definition project :: "remote_service \<Rightarrow> core_connection list \<Rightarrow> remote_connection list" where
  "project s = map (\<lambda>c.
     \<lparr>rc_connectionId = cc_connectionId c, rc_displayName = cc_displayName c, rc_host = cc_host c, rc_port = cc_port c,
      rc_user = cc_user c, rc_sshKeyPath = (case cc_sshKeyPath c of None \<Rightarrow> [] | Some p \<Rightarrow> p),
      rc_configRevision = cc_configRevision c, rc_status = status_of s (cc_connectionId c),
      rc_testStatus = test_of s (cc_connectionId c)\<rparr>)"

definition hex_text :: "nat \<Rightarrow> string \<Rightarrow> bool" where
  "hex_text n t \<longleftrightarrow> length t = n \<and> list_all (\<lambda>c. hex_value c \<noteq> None) t"

definition uuid_v4 :: "string \<Rightarrow> bool" where
  \<comment> \<open>\<open>/^[0-9a-f]{8}-[0-9a-f]{4}-4[0-9a-f]{3}-[89ab][0-9a-f]{3}-[0-9a-f]{12}$/iu\<close>\<close>
  "uuid_v4 t =
     (case js_split (CHR ''-'') t of
        [a, b, c, d, e] \<Rightarrow> hex_text 8 a \<and> hex_text 4 b \<and> hex_text 4 c \<and> hd c = CHR ''4'' \<and>
          hex_text 4 d \<and> hd d \<in> set ''89abAB'' \<and> hex_text 12 e
      | _ \<Rightarrow> False)"

definition invalid_identity :: remote_error where
  "invalid_identity = RemoteConnectionError ''remote.invalid_request'' ''Remote connection identity is invalid.''"

definition busy_error :: "string \<Rightarrow> remote_error" where
  "busy_error message = RemoteConnectionError ''remote.connection_busy'' message"

definition core_unavailable :: remote_error where
  "core_unavailable = RemoteConnectionError ''remote.core_unavailable''
     ''The headless core is required to read or write remote connections.''"

definition not_found :: remote_error where
  "not_found = RemoteConnectionError ''remote.connection_not_found'' ''Remote computer was not found.''"

definition not_disconnected :: "string \<Rightarrow> remote_error" where
  "not_disconnected message = RemoteConnectionError ''remote.connection_not_disconnected'' message"

definition refuse_identity :: "string \<Rightarrow> remote_service \<Rightarrow> remote_error option" where
  \<comment> \<open>\<open>assertConnectionId\<close> and \<open>#assertNotEditing\<close>\<close>
  "refuse_identity i s =
     (if \<not> uuid_v4 i then Some invalid_identity
      else if i \<in> set (rs_editing s) \<or> i \<in> set (rs_disconnecting s)
        then Some (busy_error ''Remote computer has an operation in progress.'')
      else None)"

definition refuse_start :: "string \<Rightarrow> string \<Rightarrow> remote_service \<Rightarrow> remote_error option" where
  \<comment> \<open>the guards of \<open>connect\<close> and \<open>test\<close> before their first await\<close>
  "refuse_start message i s =
     (case refuse_identity i s of
        Some e \<Rightarrow> Some e
      | None \<Rightarrow>
          (case status_of s i of
             RemoteConnecting \<Rightarrow> Some (busy_error message)
           | RemoteReady _ \<Rightarrow> Some (busy_error message)
           | _ \<Rightarrow> if i \<in> set (rs_busy s) then Some (busy_error message)
                else if \<not> rs_route s then Some core_unavailable else None))"

subsection \<open>Starting an operation\<close>

definition getState :: "remote_service \<Rightarrow> remote_service \<times> outcome" where
  "getState s =
     (if \<not> rs_route s then (s, Threw core_unavailable)
      else (call (inspect_call (rs_filePath s)) s, Waiting (Inspecting ReadState)))"

definition create :: "create_request \<Rightarrow> remote_service \<Rightarrow> remote_service \<times> outcome" where
  "create q s =
     (if \<not> rs_route s then (s, Threw core_unavailable)
      else (call (create_call (rs_filePath s) q) s, Waiting Creating))"

definition connect :: "string \<Rightarrow> remote_service \<Rightarrow> remote_service \<times> outcome" where
  "connect i s =
     (case refuse_start ''Remote computer is already connecting or ready.'' i s of
        Some e \<Rightarrow> (s, Threw e)
      | None \<Rightarrow> (call (inspect_call (rs_filePath s)) s, Waiting (Finding (FindConnect i))))"

definition test :: "string \<Rightarrow> remote_service \<Rightarrow> remote_service \<times> outcome" where
  "test i s =
     (case refuse_start ''Remote computer is connecting, connected, or already being tested.'' i s of
        Some e \<Rightarrow> (s, Threw e)
      | None \<Rightarrow> (call (inspect_call (rs_filePath s)) s, Waiting (Finding (FindTest i))))"

definition disconnect :: "string \<Rightarrow> remote_service \<Rightarrow> remote_service \<times> outcome" where
  "disconnect i s =
     (case refuse_identity i s of
        Some e \<Rightarrow> (s, Threw e)
      | None \<Rightarrow>
          if \<not> rs_route s then (s, Threw core_unavailable)
          else (call (inspect_call (rs_filePath s)) (s\<lparr>rs_disconnecting := List.insert i (rs_disconnecting s)\<rparr>),
                Waiting (Finding (FindDisconnect i))))"

definition edit_start :: "string \<Rightarrow> find_goal \<Rightarrow> remote_service \<Rightarrow> remote_service \<times> outcome" where
  "edit_start i goal s =
     (case refuse_identity i s of
        Some e \<Rightarrow> (s, Threw e)
      | None \<Rightarrow>
          if \<not> rs_route s then (s, Threw core_unavailable)
          else (call (inspect_call (rs_filePath s)) (s\<lparr>rs_editing := List.insert i (rs_editing s)\<rparr>), Waiting (Finding goal)))"

definition update :: "update_request \<Rightarrow> remote_service \<Rightarrow> remote_service \<times> outcome" where
  "update u = edit_start (up_connectionId u) (FindUpdate u)"

definition remove :: "string \<Rightarrow> remote_service \<Rightarrow> remote_service \<times> outcome" where
  "remove i = edit_start i (FindRemove i)"

fun live_status :: "remote_status option \<Rightarrow> bool" where
  "live_status (Some (RemoteReady _)) = True"
| "live_status (Some RemoteConnecting) = True"
| "live_status _ = False"

fun shutdown_loop :: "string list \<Rightarrow> remote_service \<Rightarrow> remote_service \<times> outcome" where
  "shutdown_loop [] s = (s\<lparr>rs_status := [], rs_testStatus := []\<rparr>, Finished)"
| "shutdown_loop (i # is) s =
     (if live_status (map_of (rs_status s) i) then (call (disconnect_call i) s, Waiting (ShuttingDown is))
      else shutdown_loop is s)"

definition shutdown :: "remote_service \<Rightarrow> remote_service \<times> outcome" where
  "shutdown s = (if rs_route s then shutdown_loop (map fst (rs_status s)) s else (s\<lparr>rs_status := [], rs_testStatus := []\<rparr>, Finished))"

subsection \<open>Refreshing the view\<close>

definition refresh_failed :: "refresh_goal \<Rightarrow> remote_error \<Rightarrow> remote_service \<Rightarrow> remote_service \<times> outcome" where
  \<comment> \<open>\<open>getState\<close> threw inside the operation; the two that are refreshing inside their \<open>try\<close> go on in \<open>refresh_threw\<close>\<close>
  "refresh_failed goal e s =
     (case goal of
        ConnectFailed i _ \<Rightarrow> (unbusy i s, Threw e)
      | TestedBad i _ \<Rightarrow> (unbusy i s, Threw e)
      | Disconnected i \<Rightarrow> (undisconnect i s, Threw e)
      | _ \<Rightarrow> (s, Threw e))"

definition refresh :: "refresh_goal \<Rightarrow> remote_service \<Rightarrow> remote_service \<times> outcome" where
  "refresh goal s =
     (if \<not> rs_route s then refresh_failed goal core_unavailable s
      else (call (inspect_call (rs_filePath s)) s, Waiting (Inspecting goal)))"

definition connect_failed :: "string \<Rightarrow> remote_error \<Rightarrow> remote_service \<Rightarrow> remote_service \<times> outcome" where
  \<comment> \<open>the \<open>catch\<close> of \<open>connect\<close>\<close>
  "connect_failed i e s =
     (let (code, message) = normalizeRemoteError e in
      refresh (ConnectFailed i e) (set_test i (TestFailed code message) (set_status i (RemoteFailed code message) s)))"

definition test_failed :: "string \<Rightarrow> remote_error \<Rightarrow> remote_service \<Rightarrow> remote_service \<times> outcome" where
  \<comment> \<open>the \<open>catch\<close> of \<open>test\<close>\<close>
  "test_failed i e s =
     (let (code, message) = normalizeRemoteError e in refresh (TestedBad i e) (set_test i (TestFailed code message) s))"

definition refresh_threw :: "refresh_goal \<Rightarrow> remote_error \<Rightarrow> remote_service \<Rightarrow> remote_service \<times> outcome" where
  "refresh_threw goal e s =
     (case goal of
        Connected i \<Rightarrow> connect_failed i e s
      | TestedOk i \<Rightarrow> test_failed i e s
      | _ \<Rightarrow> refresh_failed goal e s)"

definition refresh_in_try :: "refresh_goal \<Rightarrow> remote_service \<Rightarrow> remote_service \<times> outcome" where
  "refresh_in_try goal s = (if \<not> rs_route s then refresh_threw goal core_unavailable s else refresh goal s)"

definition refreshed :: "refresh_goal \<Rightarrow> remote_connection list \<Rightarrow> remote_service \<Rightarrow> remote_service \<times> outcome" where
  "refreshed goal state s =
     (case goal of
        ReadState \<Rightarrow> (s, Returned state)
      | Connecting i c \<Rightarrow> (call (connect_call c) (emit state s), Waiting (Dialing i))
      | Connected i \<Rightarrow> (unbusy i (emit state s), Returned state)
      | ConnectFailed i e \<Rightarrow> (unbusy i (emit state s), Threw e)
      | TestStarted i c \<Rightarrow> (call (connect_call c) (emit state s), Waiting (TestDialing i))
      | TestedOk i \<Rightarrow> (unbusy i (emit state s), Returned state)
      | TestedBad i e \<Rightarrow> (unbusy i (emit state s), Threw e)
      | Disconnected i \<Rightarrow> (undisconnect i (emit state s), Returned state))"

definition probe_next :: "refresh_goal \<Rightarrow> core_connection list \<Rightarrow> core_connection list \<Rightarrow> remote_service \<Rightarrow> remote_service \<times> outcome" where
  "probe_next goal all rest s =
     (case rest of
        [] \<Rightarrow> refreshed goal (project s all) s
      | c # _ \<Rightarrow> (call (status_call (cc_connectionId c)) s, Waiting (Probing goal all rest)))"

definition mirror :: "string \<Rightarrow> js_value peer_result \<Rightarrow> remote_service \<Rightarrow> remote_service" where
  \<comment> \<open>the core's answer about one generation\<close>
  "mirror i reply s =
     (case (case reply of Inl _ \<Rightarrow> None | Inr v \<Rightarrow> statusOf v) of
        None \<Rightarrow> (case status_of s i of RemoteReady _ \<Rightarrow> set_status i RemoteDisconnected s | _ \<Rightarrow> s)
      | Some url \<Rightarrow> set_status i (RemoteReady url) s)"

subsection \<open>Resuming an operation\<close>

definition find_failed :: "find_goal \<Rightarrow> remote_error \<Rightarrow> remote_service \<Rightarrow> remote_service \<times> outcome" where
  "find_failed goal e s =
     ((case goal of
         FindDisconnect i \<Rightarrow> undisconnect i s
       | FindUpdate u \<Rightarrow> unedit (up_connectionId u) s
       | FindRemove i \<Rightarrow> unedit i s
       | _ \<Rightarrow> s), Threw e)"

definition goal_id :: "find_goal \<Rightarrow> string" where
  "goal_id goal =
     (case goal of FindConnect i \<Rightarrow> i | FindTest i \<Rightarrow> i | FindDisconnect i \<Rightarrow> i | FindUpdate u \<Rightarrow> up_connectionId u | FindRemove i \<Rightarrow> i)"

definition changed_parameters :: "core_connection \<Rightarrow> update_request \<Rightarrow> bool" where
  "changed_parameters c u \<longleftrightarrow>
     cc_host c \<noteq> rq_host (up_fields u) \<or> cc_port c \<noteq> rq_port (up_fields u) \<or> cc_user c \<noteq> rq_user (up_fields u) \<or>
     (case cc_sshKeyPath c of None \<Rightarrow> [] | Some p \<Rightarrow> p) \<noteq> rq_sshKeyPath (up_fields u)"

definition found :: "find_goal \<Rightarrow> core_connection \<Rightarrow> remote_service \<Rightarrow> remote_service \<times> outcome" where
  "found goal c s =
     (case goal of
        FindConnect i \<Rightarrow>
          refresh (Connecting i c) (set_status i RemoteConnecting (s\<lparr>rs_busy := List.insert i (rs_busy s)\<rparr>))
      | FindTest i \<Rightarrow>
          refresh (TestStarted i c) (set_test i Testing (s\<lparr>rs_busy := List.insert i (rs_busy s)\<rparr>))
      | FindDisconnect i \<Rightarrow> (call (disconnect_call i) s, Waiting (HangingUp i))
      | FindUpdate u \<Rightarrow>
          (let i = up_connectionId u in
           if changed_parameters c u \<and> (i \<in> set (rs_busy s) \<or> status_of s i \<noteq> RemoteDisconnected)
           then (unedit i s, Threw (not_disconnected ''Disconnect and finish any active test before changing SSH parameters.''))
           else (call (update_call (rs_filePath s) u) s, Waiting (Updating u (changed_parameters c u))))
      | FindRemove i \<Rightarrow>
          if i \<in> set (rs_busy s)
          then (unedit i s, Threw (busy_error ''Remote computer has an operation in progress.''))
          else if status_of s i \<noteq> RemoteDisconnected
          then (unedit i s, Threw (not_disconnected ''Disconnect the remote computer before removing it.''))
          else (call (remove_call (rs_filePath s) i) s, Waiting (Removing i)))"

definition catalog_reply :: "js_value peer_result \<Rightarrow> remote_error + core_connection list" where
  "catalog_reply reply = (case bind_result reply connectionsOf of Inl e \<Rightarrow> Inl (foreign_error e) | Inr cs \<Rightarrow> Inr cs)"

definition publish_state :: "core_connection list \<Rightarrow> remote_service \<Rightarrow> remote_service \<times> outcome" where
  "publish_state cs s = (emit (project s cs) s, Returned (project s cs))"

definition resume :: "task \<Rightarrow> js_value peer_result \<Rightarrow> remote_service \<Rightarrow> remote_service \<times> outcome" where
  "resume t reply s =
     (case t of
        Creating \<Rightarrow> (case catalog_reply reply of Inl e \<Rightarrow> (s, Threw e) | Inr cs \<Rightarrow> publish_state cs s)
      | Finding goal \<Rightarrow>
          (case catalog_reply reply of
             Inl e \<Rightarrow> find_failed goal e s
           | Inr cs \<Rightarrow>
               (case find (\<lambda>c. cc_connectionId c = goal_id goal) cs of
                  None \<Rightarrow> find_failed goal not_found s
                | Some c \<Rightarrow> found goal c s))
      | Inspecting goal \<Rightarrow>
          (case catalog_reply reply of
             Inl e \<Rightarrow> refresh_threw goal e s
           | Inr cs \<Rightarrow> probe_next goal cs cs s)
      | Probing goal all rest \<Rightarrow>
          (case rest of
             [] \<Rightarrow> probe_next goal all [] s
           | c # rest' \<Rightarrow> probe_next goal all rest' (mirror (cc_connectionId c) reply s))
      | Dialing i \<Rightarrow>
          (case bind_result reply connect_url of
             Inl e \<Rightarrow> connect_failed i (foreign_error e) s
           | Inr url \<Rightarrow> refresh_in_try (Connected i) (set_test i TestPassed (set_status i (RemoteReady url) s)))
      | TestDialing i \<Rightarrow>
          (case bind_result reply connect_url of
             Inl e \<Rightarrow> test_failed i (foreign_error e) s
           | Inr url \<Rightarrow> (call (disconnect_call i) s, Waiting (TestHangup i)))
      | TestHangup i \<Rightarrow>
          (case reply of
             Inl e \<Rightarrow> test_failed i (foreign_error e) s
           | Inr _ \<Rightarrow> refresh_in_try (TestedOk i) (set_test i TestPassed s))
      | HangingUp i \<Rightarrow>
          (let settled = (let s1 = set_status i RemoteDisconnected s in
                          refresh (Disconnected i) (if map_of (rs_testStatus s1) i = Some Testing then set_test i Untested s1 else s1)) in
           case reply of
             Inl e \<Rightarrow> if isNotConnected (foreign_error e) then settled else (undisconnect i s, Threw (foreign_error e))
           | Inr _ \<Rightarrow> settled)
      | Updating u changed \<Rightarrow>
          (let i = up_connectionId u in
           case catalog_reply reply of
             Inl e \<Rightarrow> (unedit i s, Threw e)
           | Inr cs \<Rightarrow>
               (let s1 = (if changed then set_test i Untested (set_status i RemoteDisconnected s) else s);
                    (s2, r) = publish_state cs s1 in (unedit i s2, r)))
      | Removing i \<Rightarrow>
          (case catalog_reply reply of
             Inl e \<Rightarrow> (unedit i s, Threw e)
           | Inr cs \<Rightarrow>
               (let (s2, r) = publish_state cs (s\<lparr>rs_status := AList.delete i (rs_status s), rs_testStatus := AList.delete i (rs_testStatus s)\<rparr>)
                in (unedit i s2, r)))
      | ShuttingDown is \<Rightarrow> shutdown_loop is s)"

section \<open>Requests of the renderer\<close>

definition remote_invalid :: "string \<Rightarrow> remote_error + 'a" where
  "remote_invalid message = Inl (RemoteConnectionError ''remote.invalid_request'' message)"

definition exactRecord :: "js_value \<Rightarrow> string list \<Rightarrow> remote_error + js_value" where
  "exactRecord v expected =
     (case v of
        JObj kvs \<Rightarrow>
          (if length kvs \<noteq> length expected \<or> list_ex (\<lambda>k. k \<notin> set expected) (map fst kvs)
           then remote_invalid ''Remote connection request fields are invalid.'' else Inr v)
      | _ \<Rightarrow> remote_invalid ''Remote connection request must be an object.'')"

definition validSSHKeyPath :: "(string \<Rightarrow> bool) \<Rightarrow> string \<Rightarrow> bool" where
  \<comment> \<open>\<open>isAbsolute\<close> is the platform's\<close>
  "validSSHKeyPath isAbsolute t \<longleftrightarrow>
     t = [] \<or> isAbsolute t \<and> length t \<le> 4096 \<and> \<not> list_ex (\<lambda>c. code_unit c \<le> 31 \<or> code_unit c = 127) t"

definition parseCreateRemoteConnectionRequest :: "(string \<Rightarrow> bool) \<Rightarrow> js_value \<Rightarrow> remote_error + create_request" where
  "parseCreateRemoteConnectionRequest isAbsolute payload =
     bind_result (exactRecord payload [''displayName'', ''host'', ''port'', ''user'', ''sshKeyPath'']) (\<lambda>r.
       case (js_field r ''displayName'', js_field r ''host'', js_field r ''port'', js_field r ''user'', js_field r ''sshKeyPath'') of
         (JStr d, JStr h, JNum p, JStr u, JStr k) \<Rightarrow>
           (if validSSHKeyPath isAbsolute k
            then Inr \<lparr>rq_displayName = d, rq_host = h, rq_port = p, rq_user = u, rq_sshKeyPath = k\<rparr>
            else remote_invalid ''Remote computer request is invalid.'')
       | _ \<Rightarrow> remote_invalid ''Remote computer request is invalid.'')"

definition parseRemoteConnectionIdentityRequest :: "js_value \<Rightarrow> remote_error + string" where
  "parseRemoteConnectionIdentityRequest payload =
     bind_result (exactRecord payload [''connectionId'']) (\<lambda>r.
       case js_field r ''connectionId'' of JStr i \<Rightarrow> Inr i | _ \<Rightarrow> remote_invalid ''Remote connection identity is invalid.'')"

definition lower_hex :: "char \<Rightarrow> bool" where
  "lower_hex c \<longleftrightarrow> js_is_digit c \<or> (97 \<le> code_unit c \<and> code_unit c \<le> 102)"

definition parseUpdateRemoteConnectionRequest :: "(string \<Rightarrow> bool) \<Rightarrow> js_value \<Rightarrow> remote_error + update_request" where
  "parseUpdateRemoteConnectionRequest isAbsolute payload =
     bind_result (exactRecord payload [''connectionId'', ''expectedConfigRevision'', ''displayName'', ''host'', ''port'', ''user'', ''sshKeyPath'']) (\<lambda>r.
       case (js_field r ''connectionId'', js_field r ''expectedConfigRevision'') of
         (JStr i, JStr revision) \<Rightarrow>
           (if length revision = 64 \<and> list_all lower_hex revision
            then bind_result (parseCreateRemoteConnectionRequest isAbsolute
                   (JObj (map (\<lambda>k. (k, js_field r k)) [''displayName'', ''host'', ''port'', ''user'', ''sshKeyPath''])))
                   (\<lambda>fields. Inr \<lparr>up_connectionId = i, up_fields = fields, up_expectedConfigRevision = revision\<rparr>)
            else remote_invalid ''Remote configuration revision is invalid.'')
       | _ \<Rightarrow> remote_invalid ''Remote configuration revision is invalid.'')"

datatype remote_api = ApiOk "remote_connection list" | ApiFail string string

definition remoteResult :: "remote_error + remote_connection list \<Rightarrow> remote_api" where
  "remoteResult r =
     (case r of
        Inr state \<Rightarrow> ApiOk state
      | Inl (RemoteConnectionError code message) \<Rightarrow> ApiFail code message
      | Inl (Foreign _) \<Rightarrow> ApiFail ''remote.tunnel_failed'' ''Remote connection operation failed.'')"

section \<open>Interleaved operations\<close>

datatype operation =
    OpGetState | OpCreate create_request | OpConnect string | OpTest string | OpDisconnect string
  | OpUpdate update_request | OpRemove string | OpShutdown

fun start :: "operation \<Rightarrow> remote_service \<Rightarrow> remote_service \<times> outcome" where
  "start OpGetState s = getState s"
| "start (OpCreate q) s = create q s"
| "start (OpConnect i) s = connect i s"
| "start (OpTest i) s = test i s"
| "start (OpDisconnect i) s = disconnect i s"
| "start (OpUpdate u) s = update u s"
| "start (OpRemove i) s = remove i s"
| "start OpShutdown s = shutdown s"

fun pending :: "outcome \<Rightarrow> task list" where
  "pending (Waiting t) = [t]"
| "pending _ = []"

record remote_pool =
  rp_service :: remote_service
  rp_tasks :: "task list"
  rp_outcomes :: "outcome list"                          \<comment> \<open>how operations ended, so far\<close>
  rp_log :: "(task \<times> js_value peer_result) list"          \<comment> \<open>the replies of the core, so far\<close>

definition new_pool :: "string \<Rightarrow> remote_pool" where
  "new_pool filePath =
     \<lparr>rp_service = \<lparr>rs_status = [], rs_testStatus = [], rs_editing = [], rs_busy = [], rs_disconnecting = [], rs_route = False,
        rs_filePath = filePath, rs_calls = [], rs_emitted = []\<rparr>, rp_tasks = [], rp_outcomes = [], rp_log = []\<rparr>"

text \<open>Operations start, replies arrive in any order, and the core's route comes and goes.\<close>

inductive remote_step :: "remote_pool \<Rightarrow> remote_pool \<Rightarrow> bool" where
  step_start: "start op (rp_service p) = (s, r) \<Longrightarrow>
    remote_step p (p\<lparr>rp_service := s, rp_tasks := rp_tasks p @ pending r, rp_outcomes := rp_outcomes p @ [r]\<rparr>)"
| step_reply: "rp_tasks p = ts @ t # us \<Longrightarrow> resume t reply (rp_service p) = (s, r) \<Longrightarrow>
    remote_step p (p\<lparr>rp_service := s, rp_tasks := ts @ us @ pending r, rp_outcomes := rp_outcomes p @ [r],
                     rp_log := rp_log p @ [(t, reply)]\<rparr>)"
| step_route: "remote_step p (p\<lparr>rp_service := (rp_service p)\<lparr>rs_route := available\<rparr>\<rparr>)"

inductive_cases remote_stepE [elim]: "remote_step p p'"

section \<open>Segments\<close>

lemmas service_updates = set_status_def set_test_def unbusy_def unedit_def undisconnect_def call_def emit_def

lemmas segments = resume_def Let_def refreshed_def probe_next_def refresh_threw_def refresh_in_try_def connect_failed_def test_failed_def
  refresh_def refresh_failed_def found_def find_failed_def publish_state_def mirror_def

lemmas segment_splits = option.splits sum.splits list.splits prod.splits find_goal.splits refresh_goal.splits remote_status.splits

lemmas starts = getState_def create_def connect_def test_def disconnect_def update_def remove_def edit_start_def shutdown_def

section \<open>Edits exclude each other\<close>

fun edits :: "task \<Rightarrow> string list" where
  "edits (Finding (FindUpdate u)) = [up_connectionId u]"
| "edits (Finding (FindRemove i)) = [i]"
| "edits (Updating u _) = [up_connectionId u]"
| "edits (Removing i) = [i]"
| "edits _ = []"

fun hangs_up :: "task \<Rightarrow> string list" where
  "hangs_up (Finding (FindDisconnect i)) = [i]"
| "hangs_up (HangingUp i) = [i]"
| "hangs_up (Inspecting (Disconnected i)) = [i]"
| "hangs_up (Probing (Disconnected i) _ _) = [i]"
| "hangs_up _ = []"

abbreviation released :: "(task \<Rightarrow> string list) \<Rightarrow> (remote_service \<Rightarrow> string list) \<Rightarrow> task \<Rightarrow> remote_service \<Rightarrow> remote_service \<times> outcome \<Rightarrow> bool" where
  "released own marks t s r \<equiv>
     concat (map own (pending (snd r))) = own t \<and> marks (fst r) = marks s \<or>
     concat (map own (pending (snd r))) = [] \<and> marks (fst r) = filter (\<lambda>i. i \<notin> set (own t)) (marks s)"

lemma shutdown_loop_marks [simp]:
  "rs_editing (fst (shutdown_loop is s)) = rs_editing s" "rs_disconnecting (fst (shutdown_loop is s)) = rs_disconnecting s"
  "rs_busy (fst (shutdown_loop is s)) = rs_busy s"
  by (induction "is" s rule: shutdown_loop.induct) (simp_all add: call_def)

lemma shutdown_loop_pending: "pending (snd (shutdown_loop is s)) = [] \<or> (\<exists>js. pending (snd (shutdown_loop is s)) = [ShuttingDown js])"
  by (induction "is" s rule: shutdown_loop.induct) simp_all

lemma removeAll_mark: "removeAll i xs = filter (\<lambda>j. j \<notin> set [i]) xs"
  by (induction xs) auto

lemma resume_edits: "released edits rs_editing t s (resume t reply s)"
proof (cases t)
  case (Finding goal)
  then show ?thesis by (cases goal) (simp_all add: segments service_updates removeAll_mark split: segment_splits)
next
  case (Inspecting goal)
  then show ?thesis by (cases goal) (simp_all add: segments service_updates removeAll_mark split: segment_splits)
next
  case (Probing goal a r)
  then show ?thesis by (cases goal) (simp_all add: segments service_updates removeAll_mark split: segment_splits)
next
  case (ShuttingDown js)
  then show ?thesis using shutdown_loop_pending [of js s] by (auto simp: segments)
qed (simp_all add: segments service_updates removeAll_mark split: segment_splits)

lemma resume_hangs_up: "released hangs_up rs_disconnecting t s (resume t reply s)"
proof (cases t)
  case (Finding goal)
  then show ?thesis by (cases goal) (simp_all add: segments service_updates removeAll_mark split: segment_splits)
next
  case (Inspecting goal)
  then show ?thesis by (cases goal) (simp_all add: segments service_updates removeAll_mark split: segment_splits)
next
  case (Probing goal a r)
  then show ?thesis by (cases goal) (simp_all add: segments service_updates removeAll_mark split: segment_splits)
next
  case (ShuttingDown js)
  then show ?thesis using shutdown_loop_pending [of js s] by (auto simp: segments)
qed (simp_all add: segments service_updates removeAll_mark split: segment_splits)


lemma start_marks:
  fixes op s
  defines "r \<equiv> start op s"
  shows "rs_editing (fst r) = rs_editing s \<and> rs_disconnecting (fst r) = rs_disconnecting s \<and>
      concat (map edits (pending (snd r))) = [] \<and> concat (map hangs_up (pending (snd r))) = [] \<or>
    (\<exists>i. i \<notin> set (rs_editing s) \<and> i \<notin> set (rs_disconnecting s) \<and> rs_disconnecting (fst r) = rs_disconnecting s \<and>
      rs_editing (fst r) = i # rs_editing s \<and>
      concat (map edits (pending (snd r))) = [i] \<and> concat (map hangs_up (pending (snd r))) = []) \<or>
    (\<exists>i. i \<notin> set (rs_editing s) \<and> i \<notin> set (rs_disconnecting s) \<and> rs_editing (fst r) = rs_editing s \<and>
      rs_disconnecting (fst r) = i # rs_disconnecting s \<and>
      concat (map edits (pending (snd r))) = [] \<and> concat (map hangs_up (pending (snd r))) = [i])"
proof (cases op)
  case OpShutdown
  then show ?thesis using shutdown_loop_pending [of "map fst (rs_status s)" s] by (auto simp: r_def shutdown_def)
qed (auto simp: r_def starts service_updates refuse_identity_def refuse_start_def split: segment_splits if_splits)

definition pool_exclusive :: "remote_pool \<Rightarrow> bool" where
  "pool_exclusive p \<longleftrightarrow>
     distinct (concat (map (\<lambda>t. edits t @ hangs_up t) (rp_tasks p))) \<and>
     set (rs_editing (rp_service p)) = set (concat (map edits (rp_tasks p))) \<and>
     set (rs_disconnecting (rp_service p)) = set (concat (map hangs_up (rp_tasks p)))"

lemma edits_hangs_up: "edits t = [] \<and> hangs_up t = [] \<or> (\<exists>i. edits t = [i] \<and> hangs_up t = [] \<or> edits t = [] \<and> hangs_up t = [i])"
proof (cases t)
  case (Finding goal)
  then show ?thesis by (cases goal) auto
next
  case (Inspecting goal)
  then show ?thesis by (cases goal) auto
next
  case (Probing goal all rest)
  then show ?thesis by (cases goal) auto
qed auto

lemma pool_exclusive_start:
  assumes "pool_exclusive p" "start op (rp_service p) = (s, r)"
  shows "pool_exclusive (p\<lparr>rp_service := s, rp_tasks := rp_tasks p @ pending r, rp_outcomes := os\<rparr>)"
  using start_marks [of op "rp_service p"] assms
  by (cases r) (auto simp: pool_exclusive_def)

lemma pool_exclusive_reply:
  assumes p: "pool_exclusive p" and ts: "rp_tasks p = ts @ t # us" and r: "resume t reply (rp_service p) = (s, r)"
  shows "pool_exclusive (p\<lparr>rp_service := s, rp_tasks := ts @ us @ pending r, rp_outcomes := os, rp_log := l\<rparr>)"
proof -
  have e: "released edits rs_editing t (rp_service p) (s, r)" and h: "released hangs_up rs_disconnecting t (rp_service p) (s, r)"
    using resume_edits [where t = t and reply = reply and s = "rp_service p"] resume_hangs_up [where t = t and reply = reply and s = "rp_service p"] by (simp_all add: r)
  let ?E = "concat (map edits (pending r))" and ?H = "concat (map hangs_up (pending r))"
  have c: "concat (map (\<lambda>t. edits t @ hangs_up t) (pending r)) = ?E @ ?H" by (cases r) simp_all
  consider (same) "?E = edits t" "?H = hangs_up t" "rs_editing s = rs_editing (rp_service p)" "rs_disconnecting s = rs_disconnecting (rp_service p)"
    | (unedited) i where "?E = []" "?H = []" "edits t = [i]" "hangs_up t = []" "rs_disconnecting s = rs_disconnecting (rp_service p)"
        "rs_editing s = filter (\<lambda>j. j \<noteq> i) (rs_editing (rp_service p))"
    | (hung) i where "?E = []" "?H = []" "edits t = []" "hangs_up t = [i]" "rs_editing s = rs_editing (rp_service p)"
        "rs_disconnecting s = filter (\<lambda>j. j \<noteq> i) (rs_disconnecting (rp_service p))"
    using e h edits_hangs_up [of t] by (elim disjE exE conjE) simp_all
  then show ?thesis
  proof cases
    case same
    with p show ?thesis by (auto simp: pool_exclusive_def ts c simp del: concat_eq_Nil_conv set_concat)
  next
    case unedited
    with p show ?thesis by (cases r) (auto simp: pool_exclusive_def ts)
  next
    case hung
    with p show ?thesis by (cases r) (auto simp: pool_exclusive_def ts)
  qed
qed

interpretation pool: transition_system "\<lambda>p. \<exists>f. p = new_pool f" remote_step pool_exclusive
proof
  show "pool_exclusive p" if "\<exists>f. p = new_pool f" for p using that by (auto simp: pool_exclusive_def new_pool_def)
  show "pool_exclusive p'" if "remote_step p p'" "pool_exclusive p" for p p'
    using that(1)
  proof cases
    case step_route
    then show ?thesis using that(2) by (simp add: pool_exclusive_def)
  qed (use that(2) in \<open>auto intro: pool_exclusive_start pool_exclusive_reply\<close>)
qed

text \<open>
  Edits and hang-ups of one computer exclude each other and never leak their marks (C14).  Under every
  interleaving of operations, replies and losses of the core, a computer is marked as being edited or
  disconnected exactly while one pending operation holds the mark, and no two pending updates, removals or
  disconnects are about the same computer; with nothing pending no mark is left.
\<close>

theorem edits_exclusive:
  assumes "remote_step\<^sup>*\<^sup>* (new_pool f) p"
  shows "distinct (concat (map (\<lambda>t. edits t @ hangs_up t) (rp_tasks p))) \<and>
    set (rs_editing (rp_service p)) = set (concat (map edits (rp_tasks p))) \<and>
    set (rs_disconnecting (rp_service p)) = set (concat (map hangs_up (rp_tasks p)))"
  using pool.inv_reached [OF exI [of _ f, OF refl] assms] by (simp add: pool_exclusive_def)

section \<open>A failed refresh\<close>

fun goal_works_on :: "refresh_goal \<Rightarrow> string list" where
  "goal_works_on (Connecting i _) = [i]"
| "goal_works_on (Connected i) = [i]"
| "goal_works_on (ConnectFailed i _) = [i]"
| "goal_works_on (TestStarted i _) = [i]"
| "goal_works_on (TestedOk i) = [i]"
| "goal_works_on (TestedBad i _) = [i]"
| "goal_works_on _ = []"

fun works_on :: "task \<Rightarrow> string list" where
  \<comment> \<open>the computer a task may mark busy or release\<close>
  "works_on (Finding (FindConnect i)) = [i]"
| "works_on (Finding (FindTest i)) = [i]"
| "works_on (Inspecting goal) = goal_works_on goal"
| "works_on (Probing goal _ _) = goal_works_on goal"
| "works_on (Dialing i) = [i]"
| "works_on (TestDialing i) = [i]"
| "works_on (TestHangup i) = [i]"
| "works_on _ = []"

definition stuck_busy :: "string \<Rightarrow> remote_pool \<Rightarrow> bool" where
  "stuck_busy i p \<longleftrightarrow> i \<in> set (rs_busy (rp_service p)) \<and> i \<notin> set (concat (map works_on (rp_tasks p)))"

lemma resume_works_on:
  "set (concat (map works_on (pending (snd (resume t reply s))))) \<subseteq> set (works_on t) \<and>
   set (rs_busy s) - set (works_on t) \<subseteq> set (rs_busy (fst (resume t reply s)))"
proof (cases t)
  case (Finding goal)
  then show ?thesis by (cases goal) (auto simp: segments service_updates split: segment_splits)
next
  case (Inspecting goal)
  then show ?thesis by (cases goal) (auto simp: segments service_updates split: segment_splits)
next
  case (Probing goal a r)
  then show ?thesis by (cases goal) (auto simp: segments service_updates split: segment_splits)
next
  case (ShuttingDown js)
  then show ?thesis using shutdown_loop_pending [of js s] by (auto simp: segments)
qed (auto simp: segments service_updates split: segment_splits)

lemma start_works_on:
  "rs_busy (fst (start op s)) = rs_busy s \<and> set (concat (map works_on (pending (snd (start op s))))) \<inter> set (rs_busy s) = {}"
proof (cases op)
  case OpShutdown
  then show ?thesis using shutdown_loop_pending [of "map fst (rs_status s)" s] by (auto simp: shutdown_def)
qed (auto simp: starts service_updates refuse_identity_def refuse_start_def split: segment_splits if_splits)

lemma stuck_busy_step:
  assumes "remote_step p p'" "stuck_busy i p"
  shows "stuck_busy i p'"
  using assms(1)
proof cases
  case (step_start op s r)
  then show ?thesis using assms(2) start_works_on [of op "rp_service p"] by (auto simp: stuck_busy_def)
next
  case (step_reply ts t us reply s r)
  then show ?thesis using assms(2) resume_works_on [of t reply "rp_service p"] by (auto simp: stuck_busy_def)
next
  case (step_route available)
  then show ?thesis using assms(2) by (simp add: stuck_busy_def)
qed

interpretation stuck: transition_system "stuck_busy i" remote_step "stuck_busy i" for i
  by unfold_locales (auto intro: stuck_busy_step)

lemma stuck_refused:
  assumes "stuck_busy i p"
  shows "\<exists>e. snd (connect i (rp_service p)) = Threw e" "\<exists>e. snd (test i (rp_service p)) = Threw e"
  using assms by (auto simp: stuck_busy_def connect_def test_def refuse_start_def split: option.split remote_status.split)


section \<open>Runs\<close>

datatype remote_event = EvStart operation | EvReply nat "js_value peer_result" | EvRoute bool

fun exec :: "remote_event \<Rightarrow> remote_pool \<Rightarrow> remote_pool" where
  "exec (EvStart op) p =
     (let (s, r) = start op (rp_service p) in
      p\<lparr>rp_service := s, rp_tasks := rp_tasks p @ pending r, rp_outcomes := rp_outcomes p @ [r]\<rparr>)"
| "exec (EvReply k reply) p =
     (if k < length (rp_tasks p)
      then (let t = rp_tasks p ! k; (s, r) = resume t reply (rp_service p) in
            p\<lparr>rp_service := s, rp_tasks := take k (rp_tasks p) @ drop (Suc k) (rp_tasks p) @ pending r,
              rp_outcomes := rp_outcomes p @ [r], rp_log := rp_log p @ [(t, reply)]\<rparr>)
      else p)"
| "exec (EvRoute available) p = p\<lparr>rp_service := (rp_service p)\<lparr>rs_route := available\<rparr>\<rparr>"

lemma exec_step: "remote_step\<^sup>*\<^sup>* p (exec e p)"
proof (cases e)
  case (EvStart op)
  then show ?thesis using step_start [of op p] by (cases "start op (rp_service p)") auto
next
  case (EvReply k reply)
  show ?thesis
  proof (cases "k < length (rp_tasks p)")
    case True
    obtain s r where r: "resume (rp_tasks p ! k) reply (rp_service p) = (s, r)" by fastforce
    show ?thesis using step_reply [OF id_take_nth_drop [OF True] r] True by (simp add: EvReply r)
  qed (simp add: EvReply)
next
  case (EvRoute available)
  then show ?thesis using step_route [of p available] by auto
qed

lemma run_steps: "remote_step\<^sup>*\<^sup>* p (fold exec es p)"
proof (induction es arbitrary: p)
  case (Cons e es)
  show ?case using rtranclp_trans [OF exec_step Cons.IH, of p e] by simp
qed simp

definition sample_row :: "string \<Rightarrow> js_value" where
  "sample_row i = JObj [(''connectionId'', JStr i), (''displayName'', JStr ''Studio''), (''host'', JStr ''studio''),
     (''port'', JNum 22), (''user'', JStr ''dev''), (''configRevision'', JStr ''r1'')]"

definition remote_catalog :: "string \<Rightarrow> js_value" where
  "remote_catalog i = JObj [(''connections'', JArr [sample_row i])]"

definition sample_id :: string where
  "sample_id = ''11111111-1111-4111-8111-111111111111''"

text \<open>
  Overlapping connects (C38).  The busy mark is set only after the catalog was read: two \<open>connect\<close> calls made
  before that read is answered both pass the guard and both dial the same computer.
\<close>

theorem overlapping_connects_both_dial:
  assumes "uuid_v4 i"
  shows "\<exists>p. remote_step\<^sup>*\<^sup>* (new_pool f) p \<and> rp_tasks p = [Dialing i, Dialing i]"
proof -
  let ?es = "[EvRoute True, EvStart (OpConnect i), EvStart (OpConnect i),
     EvReply 0 (Inr (remote_catalog i)), EvReply 0 (Inr (remote_catalog i)),
     EvReply 0 (Inr (remote_catalog i)), EvReply 0 (Inr (remote_catalog i)), EvReply 0 (Inr (JObj [])), EvReply 0 (Inr (JObj []))]"
  have "rp_tasks (fold exec ?es (new_pool f)) = [Dialing i, Dialing i]"
    using assms by (simp add: new_pool_def connect_def refuse_start_def refuse_identity_def status_of_def segments service_updates
        catalog_reply_def connectionsOf_def remote_catalog_def sample_row_def goal_id_def is_string_def statusOf_def)
  then show ?thesis using run_steps by blast
qed

definition idle_remote :: remote_service where
  "idle_remote = (rp_service (new_pool ''remote.json''))\<lparr>rs_route := True\<rparr>"

definition sample_found :: core_connection where
  "sample_found = \<lparr>cc_connectionId = sample_id, cc_displayName = ''Studio'', cc_host = ''studio'', cc_port = 22,
     cc_user = ''dev'', cc_sshKeyPath = Some [], cc_configRevision = ''r1''\<rparr>"


theorem overlapping_connects_both_dial_witness:
  "\<exists>p. remote_step\<^sup>*\<^sup>* (new_pool ''remote.json'') p \<and> rp_tasks p = [Dialing sample_id, Dialing sample_id]"
proof -
  have "uuid_v4 sample_id" by code_simp
  then show ?thesis by (rule overlapping_connects_both_dial)
qed

definition sample_edit :: remote_pool where
  "sample_edit = fold exec [EvRoute True, EvStart (OpRemove sample_id), EvStart (OpDisconnect sample_id)] (new_pool ''remote.json'')"

theorem edits_exclusive_witness:
  "set (rs_editing (rp_service sample_edit)) = {sample_id} \<and> rp_tasks sample_edit = [Finding (FindRemove sample_id)] \<and>
   distinct (concat (map (\<lambda>t. edits t @ hangs_up t) (rp_tasks sample_edit)))"
proof -
  have "rp_tasks sample_edit = [Finding (FindRemove sample_id)]" by code_simp
  moreover have "remote_step\<^sup>*\<^sup>* (new_pool ''remote.json'') sample_edit" unfolding sample_edit_def by (rule run_steps)
  ultimately show ?thesis using edits_exclusive by fastforce
qed

section \<open>Codes that reach the renderer\<close>

definition shell_codes :: "string list" where
  "shell_codes = [''remote.invalid_request'', ''remote.connection_busy'', ''remote.core_unavailable'',
     ''remote.connection_not_found'', ''remote.connection_not_disconnected'', ''remote.tunnel_failed'']"

fun own_error :: "remote_error \<Rightarrow> bool" where
  "own_error (RemoteConnectionError code _) \<longleftrightarrow> code \<in> set shell_codes"
| "own_error (Foreign _) \<longleftrightarrow> True"

fun own_goal :: "refresh_goal \<Rightarrow> bool" where
  "own_goal (ConnectFailed _ e) \<longleftrightarrow> own_error e"
| "own_goal (TestedBad _ e) \<longleftrightarrow> own_error e"
| "own_goal _ \<longleftrightarrow> True"

fun own_task :: "task \<Rightarrow> bool" where
  "own_task (Inspecting goal) = own_goal goal"
| "own_task (Probing goal _ _) = own_goal goal"
| "own_task _ \<longleftrightarrow> True"

fun own_outcome :: "outcome \<Rightarrow> bool" where
  "own_outcome (Waiting t) = own_task t"
| "own_outcome (Threw e) = own_error e"
| "own_outcome _ \<longleftrightarrow> True"

fun own_status :: "remote_status \<Rightarrow> bool" where
  "own_status (RemoteFailed code _) \<longleftrightarrow> code \<in> set shell_codes"
| "own_status _ \<longleftrightarrow> True"

fun own_test :: "test_status \<Rightarrow> bool" where
  "own_test (TestFailed code _) \<longleftrightarrow> code \<in> set shell_codes"
| "own_test _ \<longleftrightarrow> True"

definition own_service :: "remote_service \<Rightarrow> bool" where
  "own_service s \<longleftrightarrow> list_all own_status (map snd (rs_status s)) \<and> list_all own_test (map snd (rs_testStatus s))"

lemma own_errors [simp]:
  "own_error invalid_identity" "own_error (busy_error m)" "own_error core_unavailable" "own_error not_found"
  "own_error (not_disconnected m)" "own_error (foreign_error e)"
  by (simp_all add: invalid_identity_def busy_error_def core_unavailable_def not_found_def not_disconnected_def shell_codes_def)
    (cases e; simp)

lemma own_service_updates [simp]:
  "own_service s \<Longrightarrow> own_status st \<Longrightarrow> own_service (set_status i st s)"
  "own_service s \<Longrightarrow> own_test u \<Longrightarrow> own_service (set_test i u s)"
  "own_service (unbusy i s) = own_service s" "own_service (unedit i s) = own_service s" "own_service (undisconnect i s) = own_service s"
  "own_service (call c s) = own_service s" "own_service (emit v s) = own_service s"
  "own_service (s\<lparr>rs_busy := b\<rparr>) = own_service s" "own_service (s\<lparr>rs_route := r\<rparr>) = own_service s"
  "own_service (s\<lparr>rs_editing := b\<rparr>) = own_service s" "own_service (s\<lparr>rs_disconnecting := b\<rparr>) = own_service s"
  "own_service (s\<lparr>rs_status := [], rs_testStatus := []\<rparr>)"
  "own_service s \<Longrightarrow> own_service (s\<lparr>rs_status := AList.delete i (rs_status s), rs_testStatus := AList.delete i (rs_testStatus s)\<rparr>)"
  by (simp_all add: own_service_def service_updates list_all_update list_all_delete)

lemma own_normalized: "own_error e \<Longrightarrow> normalizeRemoteError e = (code, message) \<Longrightarrow> code \<in> set shell_codes"
  by (cases e) (auto simp: normalizeRemoteError_def shell_codes_def)

abbreviation own_result :: "remote_service \<times> outcome \<Rightarrow> bool" where
  "own_result r \<equiv> own_service (fst r) \<and> own_outcome (snd r)"

lemma own_refresh [simp]: "own_service s \<Longrightarrow> own_goal goal \<Longrightarrow> own_result (refresh goal s)"
  by (auto simp: refresh_def refresh_failed_def split: refresh_goal.split)

lemma own_failed [simp]:
  "own_service s \<Longrightarrow> own_error e \<Longrightarrow> own_result (connect_failed i e s)"
  "own_service s \<Longrightarrow> own_error e \<Longrightarrow> own_result (test_failed i e s)"
  using own_normalized [of e] by (auto simp: connect_failed_def test_failed_def split: prod.split)

lemma own_threw [simp]: "own_service s \<Longrightarrow> own_goal goal \<Longrightarrow> own_error e \<Longrightarrow> own_result (refresh_threw goal e s)"
  by (auto simp: refresh_threw_def refresh_failed_def split: refresh_goal.split)

lemma own_probe [simp]: "own_service s \<Longrightarrow> own_goal goal \<Longrightarrow> own_result (probe_next goal cs rest s)"
  by (cases goal) (auto simp: probe_next_def refreshed_def split: list.split)

lemma own_mirror [simp]: "own_service s \<Longrightarrow> own_service (mirror i reply s)"
  by (auto simp: mirror_def split: option.split remote_status.split)

lemma own_shutdown [simp]: "own_service s \<Longrightarrow> own_result (shutdown_loop is s)"
  by (induction "is" s rule: shutdown_loop.induct) auto

lemma own_find [simp]: "own_service s \<Longrightarrow> own_error e \<Longrightarrow> own_result (find_failed goal e s)" "own_service s \<Longrightarrow> own_result (found goal c s)"
  by (auto simp: find_failed_def found_def Let_def split: find_goal.split)

lemma own_resume: "own_service s \<Longrightarrow> own_task t \<Longrightarrow> own_result (resume t reply s)"
  by (cases t) (auto simp: resume_def publish_state_def catalog_reply_def refresh_in_try_def Let_def split: sum.split option.split list.split)

lemma own_start: "own_service s \<Longrightarrow> own_result (start op s)"
  by (cases op) (auto simp: starts refuse_identity_def refuse_start_def split: option.split remote_status.split)

definition own_pool :: "remote_pool \<Rightarrow> bool" where
  "own_pool p \<longleftrightarrow> own_service (rp_service p) \<and> list_all own_task (rp_tasks p) \<and> list_all own_outcome (rp_outcomes p)"

lemma own_pending: "own_outcome r \<Longrightarrow> list_all own_task (pending r)"
  by (cases r) simp_all

interpretation own: transition_system "\<lambda>p. \<exists>f. p = new_pool f" remote_step own_pool
proof
  show "own_pool p" if "\<exists>f. p = new_pool f" for p
    using that by (auto simp: own_pool_def own_service_def new_pool_def)
  show "own_pool p'" if "remote_step p p'" and ok: "own_pool p" for p p'
    using that(1)
  proof cases
    case (step_start op s r)
    then show ?thesis using ok own_start [of "rp_service p" op] by (auto simp: own_pool_def own_pending)
  next
    case (step_reply ts t us reply s r)
    then show ?thesis using ok own_resume [of "rp_service p" t reply] by (auto simp: own_pool_def own_pending)
  next
    case (step_route available)
    then show ?thesis using ok by (simp add: own_pool_def)
  qed
qed

lemma own_map_of: "list_all P (map snd xs) \<Longrightarrow> map_of xs i = Some v \<Longrightarrow> P v"
  by (drule map_of_SomeD) (force simp: list_all_iff)


definition sample_refused :: remote_pool where
  "sample_refused = fold exec
     [EvRoute True, EvStart (OpConnect sample_id), EvReply 0 (Inr (remote_catalog sample_id)), EvReply 0 (Inr (remote_catalog sample_id)),
      EvReply 0 (Inr (JObj [])), EvReply 0 (Inl (PeerHelperError ''remote.ssh_authentication_failed''))] (new_pool ''remote.json'')"


section \<open>Addresses come from the core\<close>

fun reports :: "task \<times> js_value peer_result \<Rightarrow> (string \<times> string) list" where
  \<comment> \<open>the connection and the address a reply of the core reports live\<close>
  "reports (Dialing i, reply) = (case bind_result reply connect_url of Inl _ \<Rightarrow> [] | Inr url \<Rightarrow> [(i, url)])"
| "reports (Probing _ _ (c # _), Inr v) = (case statusOf v of None \<Rightarrow> [] | Some url \<Rightarrow> [(cc_connectionId c, url)])"
| "reports _ = []"

definition reported :: "(task \<times> js_value peer_result) list \<Rightarrow> (string \<times> string) set" where
  "reported l = set (concat (map reports l))"

definition ready_in :: "(string \<times> string) set \<Rightarrow> (string \<times> remote_status) list \<Rightarrow> bool" where
  "ready_in A m \<longleftrightarrow> (\<forall>i url. (i, RemoteReady url) \<in> set m \<longrightarrow> (i, url) \<in> A)"

definition view_in :: "(string \<times> string) set \<Rightarrow> remote_connection \<Rightarrow> bool" where
  "view_in A v \<longleftrightarrow> (\<forall>url. rc_status v = RemoteReady url \<longrightarrow> (rc_connectionId v, url) \<in> A)"

definition service_in :: "(string \<times> string) set \<Rightarrow> remote_service \<Rightarrow> bool" where
  "service_in A s \<longleftrightarrow> ready_in A (rs_status s) \<and> list_all (list_all (view_in A)) (rs_emitted s)"

fun outcome_in :: "(string \<times> string) set \<Rightarrow> outcome \<Rightarrow> bool" where
  "outcome_in A (Returned vs) = list_all (view_in A) vs"
| "outcome_in A _ \<longleftrightarrow> True"

fun status_in :: "(string \<times> string) set \<Rightarrow> string \<Rightarrow> remote_status \<Rightarrow> bool" where
  "status_in A i (RemoteReady url) \<longleftrightarrow> (i, url) \<in> A"
| "status_in A i _ \<longleftrightarrow> True"

lemma ready_in_update: "ready_in A m \<Longrightarrow> status_in A i st \<Longrightarrow> ready_in A (AList.update i st m)"
  unfolding ready_in_def by (induction m) (auto split: if_splits)

lemma ready_in_delete: "ready_in A m \<Longrightarrow> ready_in A (AList.delete i m)"
  by (auto simp: ready_in_def AList.delete_eq)

lemma project_in: "ready_in A (rs_status s) \<Longrightarrow> list_all (view_in A) (project s cs)"
  by (auto simp: project_def view_in_def ready_in_def status_of_def list_all_iff split: option.splits dest: map_of_SomeD)

lemma service_in_updates [simp]:
  "service_in A s \<Longrightarrow> status_in A i st \<Longrightarrow> service_in A (set_status i st s)"
  "service_in A (set_test i u s) = service_in A s"
  "service_in A (unbusy i s) = service_in A s" "service_in A (unedit i s) = service_in A s" "service_in A (undisconnect i s) = service_in A s"
  "service_in A (call c s) = service_in A s"
  "service_in A s \<Longrightarrow> list_all (view_in A) vs \<Longrightarrow> service_in A (emit vs s)"
  "service_in A (s\<lparr>rs_busy := b\<rparr>) = service_in A s" "service_in A (s\<lparr>rs_route := r\<rparr>) = service_in A s"
  "service_in A (s\<lparr>rs_editing := b\<rparr>) = service_in A s" "service_in A (s\<lparr>rs_disconnecting := b\<rparr>) = service_in A s"
  "service_in A s \<Longrightarrow> service_in A (s\<lparr>rs_status := [], rs_testStatus := []\<rparr>)"
  "service_in A s \<Longrightarrow> service_in A (s\<lparr>rs_status := AList.delete i (rs_status s), rs_testStatus := m\<rparr>)"
  by (simp_all add: service_in_def service_updates ready_in_update ready_in_delete) (simp_all add: ready_in_def)

lemma project_service_in [simp]: "service_in A s \<Longrightarrow> list_all (view_in A) (project s cs)"
  by (simp add: service_in_def project_in)

lemma project_updates [simp]: "project (emit vs s) = project s" "project (unbusy i s) = project s" "project (unedit i s) = project s"
  by (simp_all add: project_def status_of_def test_of_def service_updates fun_eq_iff)

abbreviation result_in :: "(string \<times> string) set \<Rightarrow> remote_service \<times> outcome \<Rightarrow> bool" where
  "result_in A r \<equiv> service_in A (fst r) \<and> outcome_in A (snd r)"

lemma refresh_in [simp]: "service_in A s \<Longrightarrow> result_in A (refresh goal s)"
  by (auto simp: refresh_def refresh_failed_def split: refresh_goal.split)

lemma failed_in [simp]:
  "service_in A s \<Longrightarrow> result_in A (connect_failed i e s)" "service_in A s \<Longrightarrow> result_in A (test_failed i e s)"
  by (auto simp: connect_failed_def test_failed_def split: prod.split)

lemma threw_in [simp]: "service_in A s \<Longrightarrow> result_in A (refresh_threw goal e s)"
  by (auto simp: refresh_threw_def refresh_failed_def split: refresh_goal.split)

lemma probe_in [simp]: "service_in A s \<Longrightarrow> result_in A (probe_next goal cs rest s)"
  by (cases goal) (auto simp: probe_next_def refreshed_def split: list.split)

lemma shutdown_in [simp]: "service_in A s \<Longrightarrow> result_in A (shutdown_loop is s)"
  by (induction "is" s rule: shutdown_loop.induct) auto

lemma find_in [simp]: "service_in A s \<Longrightarrow> result_in A (find_failed goal e s)" "service_in A s \<Longrightarrow> result_in A (found goal c s)"
  by (auto simp: find_failed_def found_def Let_def split: find_goal.split)

lemma mirror_in:
  assumes "service_in A s" "\<And>v url. reply = Inr v \<Longrightarrow> statusOf v = Some url \<Longrightarrow> (i, url) \<in> A"
  shows "service_in A (mirror i reply s)"
  using assms by (cases reply) (auto simp: mirror_def split: option.split remote_status.split)

lemma resume_in:
  assumes "service_in A s" "set (reports (t, reply)) \<subseteq> A"
  shows "result_in A (resume t reply s)"
proof (cases t)
  case (Probing goal all rest)
  show ?thesis
  proof (cases rest)
    case (Cons c rest')
    have "service_in A (mirror (cc_connectionId c) reply s)"
      using assms by (intro mirror_in) (auto simp: Probing Cons)
    then show ?thesis by (simp add: resume_def Probing Cons)
  qed (simp add: resume_def Probing assms)
next
  case (Dialing i)
  then show ?thesis using assms by (auto simp: resume_def refresh_in_try_def split: sum.split)
qed (use assms in \<open>auto simp: resume_def publish_state_def refresh_in_try_def Let_def split: sum.split option.split\<close>)

lemma start_in: "service_in A s \<Longrightarrow> result_in A (start op s)"
  by (cases op) (auto simp: starts split: option.split)

definition pool_in :: "remote_pool \<Rightarrow> bool" where
  "pool_in p \<longleftrightarrow> service_in (reported (rp_log p)) (rp_service p) \<and> list_all (outcome_in (reported (rp_log p))) (rp_outcomes p)"

lemma service_in_mono: "service_in A s \<Longrightarrow> A \<subseteq> B \<Longrightarrow> service_in B s"
  unfolding service_in_def ready_in_def view_in_def by (fastforce simp: list_all_iff)

lemma outcome_in_mono: "outcome_in A r \<Longrightarrow> A \<subseteq> B \<Longrightarrow> outcome_in B r"
  by (cases r) (auto simp: view_in_def list_all_iff)

interpretation addresses: transition_system "\<lambda>p. \<exists>f. p = new_pool f" remote_step pool_in
proof
  show "pool_in p" if "\<exists>f. p = new_pool f" for p
    using that by (auto simp: pool_in_def service_in_def ready_in_def new_pool_def)
  show "pool_in p'" if "remote_step p p'" and ok: "pool_in p" for p p'
    using that(1)
  proof cases
    case (step_start op s r)
    then show ?thesis using ok start_in [of "reported (rp_log p)" "rp_service p" op] by (auto simp: pool_in_def)
  next
    case (step_reply ts t us reply s r)
    let ?A = "reported (rp_log p)" and ?B = "reported (rp_log p @ [(t, reply)])"
    have AB: "?A \<subseteq> ?B" "set (reports (t, reply)) \<subseteq> ?B" by (auto simp: reported_def)
    have "result_in ?B (s, r)"
      using resume_in [OF service_in_mono [OF _ AB(1)] AB(2), of "rp_service p"] ok step_reply by (auto simp: pool_in_def)
    moreover have "list_all (outcome_in ?B) (rp_outcomes p)"
      using ok outcome_in_mono [OF _ AB(1)] by (auto simp: pool_in_def list_all_iff)
    ultimately show ?thesis using step_reply by (auto simp: pool_in_def)
  next
    case (step_route available)
    then show ?thesis using ok by (simp add: pool_in_def)
  qed
qed

section \<open>Operations end\<close>

fun goal_rank :: "refresh_goal \<Rightarrow> nat" where
  "goal_rank (Connecting _ _) = 3"
| "goal_rank (TestStarted _ _) = 3"
| "goal_rank (Connected _) = 1"
| "goal_rank (TestedOk _) = 1"
| "goal_rank _ = 0"

fun phase :: "task \<Rightarrow> nat" where
  "phase (Finding _) = 9"
| "phase (Inspecting goal) = 2 * goal_rank goal + 1"
| "phase (Probing goal _ _) = 2 * goal_rank goal"
| "phase (TestDialing _) = 5"
| "phase (Dialing _) = 4"
| "phase (TestHangup _) = 4"
| "phase (HangingUp _) = 4"
| "phase _ = 0"

fun left :: "task \<Rightarrow> nat" where
  "left (Probing _ _ rest) = length rest"
| "left (ShuttingDown is) = length is"
| "left _ = 0"

definition task_order :: "(task \<times> task) set" where
  "task_order = measures [phase, left]"

lemma shutdown_loop_order: "pending (snd (shutdown_loop is s)) = [t] \<Longrightarrow> phase t = 0 \<and> left t < length is"
  by (induction "is" s rule: shutdown_loop.induct) (auto split: if_splits)

lemma resume_order: "t' \<in> set (pending (snd (resume t reply s))) \<Longrightarrow> (t', t) \<in> task_order"
proof (cases t)
  case (Finding goal)
  then show "t' \<in> set (pending (snd (resume t reply s))) \<Longrightarrow> ?thesis"
    by (cases goal) (auto simp: task_order_def segments split: segment_splits if_splits)
next
  case (Inspecting goal)
  then show "t' \<in> set (pending (snd (resume t reply s))) \<Longrightarrow> ?thesis"
    by (cases goal) (auto simp: task_order_def segments split: segment_splits if_splits)
next
  case (Probing goal a r)
  then show "t' \<in> set (pending (snd (resume t reply s))) \<Longrightarrow> ?thesis"
    by (cases goal) (auto simp: task_order_def segments split: segment_splits if_splits)
next
  case (ShuttingDown js)
  then show "t' \<in> set (pending (snd (resume t reply s))) \<Longrightarrow> ?thesis"
    using shutdown_loop_order [of js s t'] shutdown_loop_pending [of js s] by (auto simp: task_order_def resume_def)
qed (auto simp: task_order_def segments split: segment_splits if_splits)

definition reply_step :: "remote_pool \<Rightarrow> remote_pool \<Rightarrow> bool" where
  \<comment> \<open>the core answers one pending operation\<close>
  "reply_step p p' \<longleftrightarrow> (\<exists>ts t us reply s r. rp_tasks p = ts @ t # us \<and> resume t reply (rp_service p) = (s, r) \<and>
     p' = p\<lparr>rp_service := s, rp_tasks := ts @ us @ pending r, rp_outcomes := rp_outcomes p @ [r], rp_log := rp_log p @ [(t, reply)]\<rparr>)"

lemma reply_step_mult:
  assumes "reply_step p p'"
  shows "(mset (rp_tasks p'), mset (rp_tasks p)) \<in> mult1 task_order"
proof -
  obtain ts t us reply s r where p: "rp_tasks p = ts @ t # us" "resume t reply (rp_service p) = (s, r)"
    "rp_tasks p' = ts @ us @ pending r" using assms by (auto simp: reply_step_def)
  show ?thesis
  proof (rule mult1I)
    show "mset (rp_tasks p) = add_mset t (mset (ts @ us))" "mset (rp_tasks p') = mset (ts @ us) + mset (pending r)"
      by (simp_all add: p)
    show "(b, t) \<in> task_order" if "b \<in># mset (pending r)" for b
      using that resume_order [of b t reply "rp_service p"] p(2) by simp
  qed
qed

lemma reply_step_wf: "wfp (\<lambda>p' p. reply_step p p')"
proof -
  have "wf (inv_image (mult1 task_order) (\<lambda>p. mset (rp_tasks p)))"
    by (intro wf_inv_image wf_mult1) (simp add: task_order_def)
  then have "wf {(p', p). reply_step p p'}"
    by (rule wf_subset) (auto simp: inv_image_def dest: reply_step_mult)
  then show ?thesis by (simp add: wfp_def)
qed

text \<open>
  Every operation ends (C15).  In whatever order the core answers, only finitely many replies can follow one
  another before a new operation starts; and when no pending operation is left to answer, every edit and
  hang-up mark has been released.
\<close>

theorem operations_settle:
  "wfp (\<lambda>p' p. reply_step p p') \<and>
   (remote_step\<^sup>*\<^sup>* (new_pool f) p \<longrightarrow> (\<nexists>p'. reply_step p p') \<longrightarrow>
     rp_tasks p = [] \<and> rs_editing (rp_service p) = [] \<and> rs_disconnecting (rp_service p) = [])"
proof (intro conjI impI reply_step_wf)
  assume r: "remote_step\<^sup>*\<^sup>* (new_pool f) p" and stuck: "\<nexists>p'. reply_step p p'"
  have "pool_exclusive p" by (rule pool.inv_reached [OF exI [of _ f, OF refl] r])
  moreover show "rp_tasks p = []"
  proof (rule ccontr)
    assume "rp_tasks p \<noteq> []"
    then obtain t us where "rp_tasks p = [] @ t # us" by (cases "rp_tasks p") auto
    then show False using stuck by (metis reply_step_def surj_pair)
  qed
  ultimately show "rs_editing (rp_service p) = []" "rs_disconnecting (rp_service p) = []"
    by (auto simp: pool_exclusive_def)
qed

definition sample_removed :: remote_pool where
  "sample_removed = fold exec [EvReply 0 (Inr (remote_catalog sample_id)), EvReply 0 (Inr (JObj [(''connections'', JArr [])]))] sample_edit"

theorem operations_settle_witness:
  "length (rp_log sample_removed) = 2 \<and> rp_tasks sample_removed = [] \<and> rs_editing (rp_service sample_removed) = []"
proof -
  have steps: "remote_step\<^sup>*\<^sup>* (new_pool ''remote.json'') sample_removed"
    unfolding sample_removed_def sample_edit_def using rtranclp_trans [OF run_steps run_steps] .
  have idle: "rp_tasks sample_removed = []" "length (rp_log sample_removed) = 2" by code_simp+
  then have "\<nexists>p'. reply_step sample_removed p'" by (simp add: reply_step_def)
  then show ?thesis using operations_settle [of "''remote.json''" sample_removed] steps idle by blast
qed

end
