(* ===== verification/Peer_Session.thy ===== *)
theory Peer_Session
  imports Peer_Records
begin

text \<open>
  A paired computer's connection as the main process sees it: the helper's states and their order
  (\<open>electron/main/p2p/helper-state.ts\<close>), connection attempts and the fence around them (\<open>connections.ts\<close>), the
  guest partitions (\<open>partitions.ts\<close>) and the read of a workbench address (\<open>workbench-entry.ts\<close>, as
  \<open>management.ts\<close> composes it).

  \<open>connect\<close> and \<open>disconnect\<close> are cut at their awaits: a \<open>conn_task\<close> is an attempt waiting for the core or for the
  caller that publishes its state.  The closures \<open>guardEntry\<close> returns are the \<open>entry_guard\<close> values they
  capture.  \<open>pn_invalidated\<close> and \<open>pn_used\<close> are history variables: the keys invalidated and the generations
  given out, in order.
\<close>

section \<open>Helper states\<close>

datatype peer_stage = Punching | StartingRuntime | PathConnected | PeerReady | PeerSuspended | PeerFailed | PeerDisconnected

record helper_path =
  hp_localType :: string
  hp_remoteType :: string
  hp_protocol :: string

record helper_state =
  hs_pairId :: string
  hs_attemptId :: string
  hs_generation :: int
  hs_stage :: peer_stage
  hs_error :: string
  hs_path :: helper_path
  hs_runtimeGeneration :: int

definition stage_names :: "(string \<times> peer_stage) list" where
  "stage_names = [(''punching'', Punching), (''starting-runtime'', StartingRuntime), (''connected'', PathConnected),
     (''ready'', PeerReady), (''suspended'', PeerSuspended), (''failed'', PeerFailed), (''disconnected'', PeerDisconnected)]"

definition invalid_peer_state :: "'a peer_result" where
  "invalid_peer_state = peer_fail ''p2p.invalid_peer_state''"

definition empty_path :: "js_value \<Rightarrow> bool" where
  "empty_path p \<longleftrightarrow> js_field p ''localType'' = JStr [] \<and> js_field p ''remoteType'' = JStr [] \<and> js_field p ''protocol'' = JStr []"

definition candidate_types :: "js_value list" where
  "candidate_types = map JStr [''host'', ''srflx'', ''prflx'']"

definition direct_path :: "js_value \<Rightarrow> bool" where
  "direct_path p \<longleftrightarrow> js_field p ''localType'' \<in> set candidate_types \<and> js_field p ''remoteType'' \<in> set candidate_types \<and>
     js_field p ''protocol'' = JStr ''udp''"

fun positive_integer :: "js_value \<Rightarrow> int \<Rightarrow> bool" where
  "positive_integer (JNum n) least \<longleftrightarrow> is_safe_integer n \<and> least \<le> n"
| "positive_integer _ _ \<longleftrightarrow> False"

definition stage_consistent :: "peer_stage \<Rightarrow> bool \<Rightarrow> int \<Rightarrow> string \<Rightarrow> bool" where
  \<comment> \<open>the conditions on one stage, in the order of the code\<close>
  "stage_consistent stage direct runtimeGeneration err \<longleftrightarrow>
     \<not> (stage = PathConnected \<and> (\<not> direct \<or> runtimeGeneration \<noteq> 0)) \<and>
     \<not> (stage = PeerReady \<and> (\<not> direct \<or> runtimeGeneration = 0 \<or> err \<noteq> [])) \<and>
     \<not> (stage = PeerFailed \<and> err = []) \<and>
     \<not> (stage = PeerSuspended \<and> (\<not> direct \<or> err \<noteq> []))"

definition parseHelperState :: "js_value \<Rightarrow> helper_state peer_result" where
  "parseHelperState v =
     bind_result (exactPeerObject v [''pairId'', ''attemptId'', ''generation'', ''stage'', ''error'', ''path'', ''runtimeGeneration'']) (\<lambda>r.
     bind_result (assertAccountId (js_field r ''pairId'') 12) (\<lambda>pairId.
     bind_result (assertAccountId (js_field r ''attemptId'')
         (case js_field r ''attemptId'' of JStr a \<Rightarrow> (if length a = 32 then 32 else 12) | _ \<Rightarrow> 12)) (\<lambda>attemptId.
     bind_result (exactPeerObject (js_field r ''path'') [''localType'', ''remoteType'', ''protocol'']) (\<lambda>p.
       if \<not> positive_integer (js_field r ''generation'') 1 \<or> \<not> positive_integer (js_field r ''runtimeGeneration'') 0
       then invalid_peer_state
       else case (map_of stage_names (js_text r ''stage''), js_field r ''stage'', js_field r ''error'') of
         (Some stage, JStr _, JStr err) \<Rightarrow>
           (if (err \<noteq> [] \<and> \<not> peerErrorCode (JStr err)) \<or> (\<not> empty_path p \<and> \<not> direct_path p) \<or>
               \<not> stage_consistent stage (direct_path p) (js_numeric r ''runtimeGeneration'') err
            then invalid_peer_state
            else Inr \<lparr>hs_pairId = pairId, hs_attemptId = attemptId, hs_generation = js_numeric r ''generation'', hs_stage = stage,
                      hs_error = err, hs_path = \<lparr>hp_localType = js_text p ''localType'', hp_remoteType = js_text p ''remoteType'',
                      hp_protocol = js_text p ''protocol''\<rparr>, hs_runtimeGeneration = js_numeric r ''runtimeGeneration''\<rparr>)
       | _ \<Rightarrow> invalid_peer_state))))"

fun rank :: "peer_stage \<Rightarrow> nat" where
  "rank Punching = 0"
| "rank StartingRuntime = 1"
| "rank PathConnected = 2"
| "rank PeerReady = 3"
| "rank PeerSuspended = 3"
| "rank PeerFailed = 4"
| "rank PeerDisconnected = 4"

definition stale_generation :: "'a peer_result" where
  "stale_generation = peer_fail ''p2p.stale_generation''"

definition suspension_allowed :: "helper_state \<Rightarrow> helper_state \<Rightarrow> bool" where
  "suspension_allowed previous nxt \<longleftrightarrow>
     (hs_stage previous \<in> {PathConnected, PeerReady, PeerSuspended} \<and> hs_stage nxt = PeerSuspended \<and>
        hs_runtimeGeneration previous = hs_runtimeGeneration nxt) \<or>
     (hs_stage previous = PeerSuspended \<and>
        ((hs_stage nxt = PathConnected \<and> hs_runtimeGeneration previous = 0) \<or>
         (hs_stage nxt = PeerReady \<and> hs_runtimeGeneration previous > 0)) \<and>
        hs_runtimeGeneration previous = hs_runtimeGeneration nxt) \<or>
     (hs_stage previous = PeerSuspended \<and> hs_stage nxt \<in> {PeerFailed, PeerDisconnected})"

definition assertStateProgress :: "helper_state \<Rightarrow> helper_state \<Rightarrow> unit peer_result" where
  "assertStateProgress previous nxt =
     (if hs_attemptId nxt \<noteq> hs_attemptId previous then Inr ()
      else if hs_generation nxt \<noteq> hs_generation previous then stale_generation
      else if hs_stage nxt = PeerSuspended \<or> hs_stage previous = PeerSuspended
        then (if suspension_allowed previous nxt then Inr () else stale_generation)
      else if rank (hs_stage nxt) < rank (hs_stage previous) \<or> (hs_stage previous = PeerFailed \<and> hs_stage nxt \<noteq> PeerFailed)
        then stale_generation
      else Inr ())"

section \<open>Partitions\<close>

definition PARTITION_PREFIX :: string where
  "PARTITION_PREFIX = ''persist:dsh-peer-''"

definition pair_key :: "string \<Rightarrow> string \<Rightarrow> string" where
  \<comment> \<open>\<open>#key\<close>\<close>
  "pair_key serviceId pairId = serviceId @ '':'' @ pairId"

definition peerPartition :: "peer_host \<Rightarrow> string \<Rightarrow> string \<Rightarrow> string peer_result" where
  "peerPartition h serviceId pairId =
     bind_result (assertAccountId (JStr serviceId) 12) (\<lambda>_. bind_result (assertAccountId (JStr pairId) 12) (\<lambda>_.
       Inr (PARTITION_PREFIX @ take 32 (ph_sha256 h (concat (map utf8_char (pair_key serviceId pairId)))))))"

definition isPeerPartition :: "js_value \<Rightarrow> bool" where
  "isPeerPartition v =
     (case v of
        JStr t \<Rightarrow> prefix PARTITION_PREFIX t \<and> length t = length PARTITION_PREFIX + 32 \<and> is_hex (drop (length PARTITION_PREFIX) t)
      | _ \<Rightarrow> False)"

definition assertPeerPartition :: "peer_host \<Rightarrow> js_value \<Rightarrow> string \<Rightarrow> string \<Rightarrow> unit peer_result" where
  "assertPeerPartition h v serviceId pairId =
     (if \<not> isPeerPartition v then peer_fail ''p2p.partition_mismatch''
      else bind_result (peerPartition h serviceId pairId) (\<lambda>own.
        if v \<noteq> JStr own then peer_fail ''p2p.partition_mismatch'' else Inr ()))"

section \<open>Connection attempts\<close>

record peer_connections =
  pn_revisions :: "nat js_map"
  pn_busy :: "string list"
  pn_generation :: int
  pn_closed :: bool
  pn_invalidated :: "string list"
  pn_used :: "int list"

definition new_connections :: peer_connections where
  "new_connections = \<lparr>pn_revisions = [], pn_busy = [], pn_generation = 0, pn_closed = False, pn_invalidated = [], pn_used = []\<rparr>"

record entry_guard =
  gd_service :: string
  gd_pair :: string
  gd_serviceRevision :: "nat option"
  gd_pairRevision :: "nat option"

definition GENERATION_EPOCH_MILLISECONDS :: int where
  "GENERATION_EPOCH_MILLISECONDS = 1767225600000"

definition nextGeneration :: "int \<Rightarrow> peer_connections \<Rightarrow> int \<times> peer_connections" where
  "nextGeneration now s =
     (let seeded = max (now - GENERATION_EPOCH_MILLISECONDS) 1;
          g = max (pn_generation s + 1) seeded in
      (g, s\<lparr>pn_generation := g, pn_used := pn_used s @ [g]\<rparr>))"

definition close :: "peer_connections \<Rightarrow> peer_connections" where
  "close s = s\<lparr>pn_closed := True\<rparr>"

definition admit_connections :: "peer_connections \<Rightarrow> unit peer_result" where
  "admit_connections s = (if pn_closed s then peer_fail ''p2p.helper_closed'' else Inr ())"

definition invalidate :: "string \<Rightarrow> string option \<Rightarrow> peer_connections \<Rightarrow> peer_connections" where
  \<comment> \<open>an empty pair id counts as none\<close>
  "invalidate serviceId pairId s =
     (let k = (case pairId of None \<Rightarrow> serviceId | Some p \<Rightarrow> if p = [] then serviceId else pair_key serviceId p);
          n = (case map_of (pn_revisions s) k of None \<Rightarrow> 0 | Some n \<Rightarrow> n) in
      s\<lparr>pn_revisions := AList.update k (n + 1) (pn_revisions s), pn_invalidated := pn_invalidated s @ [k]\<rparr>)"

definition guard_current :: "entry_guard \<Rightarrow> peer_connections \<Rightarrow> unit peer_result" where
  \<comment> \<open>the closure of \<open>#guardRevision\<close>\<close>
  "guard_current g s = bind_result (admit_connections s) (\<lambda>_.
     if map_of (pn_revisions s) (gd_service g) \<noteq> gd_serviceRevision g \<or>
        map_of (pn_revisions s) (pair_key (gd_service g) (gd_pair g)) \<noteq> gd_pairRevision g
     then stale_generation else Inr ())"

definition guardRevision :: "string \<Rightarrow> string \<Rightarrow> peer_connections \<Rightarrow> entry_guard peer_result" where
  "guardRevision serviceId pairId s =
     (let g = \<lparr>gd_service = serviceId, gd_pair = pairId, gd_serviceRevision = map_of (pn_revisions s) serviceId,
               gd_pairRevision = map_of (pn_revisions s) (pair_key serviceId pairId)\<rparr> in
      bind_result (guard_current g s) (\<lambda>_. Inr g))"

definition entry_current :: "entry_guard \<Rightarrow> peer_connections \<Rightarrow> unit peer_result" where
  \<comment> \<open>the closure of \<open>guardEntry\<close>\<close>
  "entry_current g s = bind_result (guard_current g s) (\<lambda>_.
     if pair_key (gd_service g) (gd_pair g) \<in> set (pn_busy s) then peer_fail ''p2p.connection_busy'' else Inr ())"

definition guardEntry :: "string \<Rightarrow> string \<Rightarrow> peer_connections \<Rightarrow> entry_guard peer_result" where
  "guardEntry serviceId pairId s =
     bind_result (guardRevision serviceId pairId s) (\<lambda>g. bind_result (entry_current g s) (\<lambda>_. Inr g))"

datatype conn_task =
    AwaitConnect entry_guard int          \<comment> \<open>\<open>peer.connect\<close> sent for this generation\<close>
  | AwaitPublish entry_guard helper_state  \<comment> \<open>the caller publishes the accepted state\<close>
  | AwaitDisconnect string                 \<comment> \<open>\<open>peer.disconnect\<close> sent for this key\<close>

datatype conn_outcome =
    ConnWaiting conn_task
  | ConnReturned "helper_state option"
  | ConnThrew peer_error

definition release_busy :: "string \<Rightarrow> peer_connections \<Rightarrow> peer_connections" where
  \<comment> \<open>the \<open>finally\<close> of \<open>#operation\<close>\<close>
  "release_busy k s = s\<lparr>pn_busy := removeAll k (pn_busy s)\<rparr>"

definition admit_operation :: "string \<Rightarrow> string \<Rightarrow> peer_connections \<Rightarrow> peer_error option" where
  \<comment> \<open>the checks of \<open>connect\<close>, \<open>disconnect\<close> and \<open>#operation\<close> before the operation runs\<close>
  "admit_operation serviceId pairId s =
     (case bind_result (assertAccountId (JStr serviceId) 12) (\<lambda>_. bind_result (assertAccountId (JStr pairId) 12) (\<lambda>_.
             bind_result (admit_connections s) (\<lambda>_.
               if pair_key serviceId pairId \<in> set (pn_busy s) then peer_fail ''p2p.connection_busy'' else Inr ()))) of
        Inl e \<Rightarrow> Some e
      | Inr _ \<Rightarrow> None)"

definition peer_connect :: "string \<Rightarrow> string \<Rightarrow> int \<Rightarrow> peer_connections \<Rightarrow> peer_connections \<times> conn_outcome" where
  "peer_connect serviceId pairId now s =
     (case admit_operation serviceId pairId s of
        Some e \<Rightarrow> (s, ConnThrew e)
      | None \<Rightarrow>
          (let k = pair_key serviceId pairId;
               s1 = invalidate serviceId (Some pairId) (s\<lparr>pn_busy := List.insert k (pn_busy s)\<rparr>) in
           case guardRevision serviceId pairId s1 of
             Inl e \<Rightarrow> (release_busy k s1, ConnThrew e)
           | Inr g \<Rightarrow> (let (generation, s2) = nextGeneration now s1 in (s2, ConnWaiting (AwaitConnect g generation)))))"

definition peer_disconnect :: "string \<Rightarrow> string \<Rightarrow> peer_connections \<Rightarrow> peer_connections \<times> conn_outcome" where
  "peer_disconnect serviceId pairId s =
     (case admit_operation serviceId pairId s of
        Some e \<Rightarrow> (s, ConnThrew e)
      | None \<Rightarrow>
          (let k = pair_key serviceId pairId in
           (invalidate serviceId (Some pairId) (s\<lparr>pn_busy := List.insert k (pn_busy s)\<rparr>), ConnWaiting (AwaitDisconnect k))))"

definition admit_reply :: "entry_guard \<Rightarrow> bool \<Rightarrow> peer_connections \<Rightarrow> unit peer_result" where
  "admit_reply g aborted s = bind_result (guard_current g s) (\<lambda>_. if aborted then peer_fail ''p2p.request_cancelled'' else Inr ())"

definition accept_reply :: "entry_guard \<Rightarrow> int \<Rightarrow> bool \<Rightarrow> js_value peer_result \<Rightarrow> peer_connections \<Rightarrow> helper_state peer_result" where
  \<comment> \<open>\<open>connect\<close> between the core's reply and \<open>publish\<close>\<close>
  "accept_reply g generation aborted reply s =
     bind_result reply (\<lambda>v. bind_result (exactPeerObject v [''state'', ''url'']) (\<lambda>r.
     bind_result (parseHelperState (js_field r ''state'')) (\<lambda>state.
       if hs_pairId state \<noteq> gd_pair g then peer_fail ''p2p.identity_mismatch''
       else if hs_generation state \<noteq> generation then stale_generation
       else case js_field r ''url'' of
         JStr _ \<Rightarrow> bind_result (admit_reply g aborted s) (\<lambda>_. Inr state)
       | _ \<Rightarrow> peer_fail ''p2p.invalid_socket'')))"

definition guard_key :: "entry_guard \<Rightarrow> string" where
  "guard_key g = pair_key (gd_service g) (gd_pair g)"

definition conn_resume :: "conn_task \<Rightarrow> bool \<Rightarrow> js_value peer_result \<Rightarrow> peer_connections \<Rightarrow> peer_connections \<times> conn_outcome" where
  "conn_resume t aborted reply s =
     (case t of
        AwaitConnect g generation \<Rightarrow>
          (case accept_reply g generation aborted reply s of
             Inl e \<Rightarrow> (release_busy (guard_key g) s, ConnThrew e)
           | Inr state \<Rightarrow> (s, ConnWaiting (AwaitPublish g state)))
      | AwaitPublish g state \<Rightarrow>
          (case bind_result reply (\<lambda>_. admit_reply g aborted s) of
             Inl e \<Rightarrow> (release_busy (guard_key g) s, ConnThrew e)
           | Inr _ \<Rightarrow> (release_busy (guard_key g) s, ConnReturned (Some state)))
      | AwaitDisconnect k \<Rightarrow>
          (case bind_result reply (\<lambda>v. exactPeerObject v []) of
             Inl e \<Rightarrow> (release_busy k s, ConnThrew e)
           | Inr _ \<Rightarrow> (release_busy k s, ConnReturned None)))"

section \<open>Reading a workbench address\<close>

record entry_request =
  eq_service :: string
  eq_pair :: string
  eq_generation :: int

record entry_moments =  \<comment> \<open>what the owner and the core answer, in the order they are asked\<close>
  em_admit0 :: "unit peer_result"
  em_catalog1 :: "peer_catalog option peer_result"
  em_admit1 :: "unit peer_result"
  em_current1 :: "helper_state option"
  em_reply :: "js_value peer_result"
  em_admit2 :: "unit peer_result"
  em_catalog2 :: "peer_catalog option peer_result"
  em_admit3 :: "unit peer_result"
  em_current3 :: "helper_state option"

definition without_name :: "js_value \<Rightarrow> js_value" where
  "without_name v = (case v of JObj kvs \<Rightarrow> JObj (filter (\<lambda>(k, _). k \<noteq> ''displayName'') kvs) | _ \<Rightarrow> v)"

definition authorize :: "entry_request \<Rightarrow> peer_catalog option peer_result \<Rightarrow> unit peer_result \<Rightarrow> string peer_result" where
  "authorize q saved admitted =
     bind_result saved (\<lambda>found. bind_result admitted (\<lambda>_.
       case found of
         None \<Rightarrow> peer_fail ''p2p.not_enabled''
       | Some r \<Rightarrow>
           if eq_service q \<in> set (pc_forgotten r) then peer_fail ''p2p.trust_restore_rejected''
           else case find (\<lambda>v. js_field v ''serviceId'' = JStr (eq_service q)) (pc_services r) of
             None \<Rightarrow> peer_fail ''p2p.service_not_found''
           | Some service \<Rightarrow>
               (case find (\<lambda>v. js_field v ''serviceId'' = JStr (eq_service q) \<and> js_field v ''pairId'' = JStr (eq_pair q)) (pc_computers r) of
                  None \<Rightarrow> peer_fail ''p2p.pair_unauthorized''
                | Some computer \<Rightarrow>
                    if js_field computer ''pairState'' \<noteq> JStr ''active'' then peer_fail ''p2p.pair_unauthorized''
                    else Inr (json_text (JArr [without_name service, without_name computer])))))"

definition currentReady :: "entry_request \<Rightarrow> helper_state option \<Rightarrow> helper_state peer_result" where
  "currentReady q current =
     (case current of
        None \<Rightarrow> peer_fail ''p2p.connection_not_found''
      | Some state \<Rightarrow>
          if hs_pairId state \<noteq> eq_pair q then peer_fail ''p2p.identity_mismatch''
          else if hs_generation state \<noteq> eq_generation q then stale_generation
          else if hs_stage state \<noteq> PeerReady then peer_fail ''p2p.not_connected''
          else Inr state)"

definition assertSameReady :: "helper_state \<Rightarrow> helper_state \<Rightarrow> unit peer_result" where
  "assertSameReady state expected =
     (if hs_pairId state \<noteq> hs_pairId expected then peer_fail ''p2p.identity_mismatch''
      else if hs_stage state \<noteq> PeerReady then peer_fail ''p2p.not_connected''
      else if hs_generation state \<noteq> hs_generation expected \<or> hs_attemptId state \<noteq> hs_attemptId expected \<or>
              hs_runtimeGeneration state \<noteq> hs_runtimeGeneration expected then stale_generation
      else Inr ())"

definition loopback_url :: "peer_url \<Rightarrow> bool" where
  "loopback_url u \<longleftrightarrow> pu_protocol u \<in> {''http:'', ''https:''} \<and> pu_hostname u \<in> {''127.0.0.1'', ''localhost'', ''[::1]''} \<and>
     pu_credentials u = ([], [])"

definition loopbackEntry :: "peer_host \<Rightarrow> js_value \<Rightarrow> string peer_result" where
  "loopbackEntry h v =
     (case v of
        JStr t \<Rightarrow>
          (if t = [] then peer_fail ''p2p.invalid_socket''
           else case ph_new_url h t of
             None \<Rightarrow> peer_fail ''p2p.invalid_socket''
           | Some u \<Rightarrow> if loopback_url u then Inr t else peer_fail ''p2p.invalid_socket'')
      | _ \<Rightarrow> peer_fail ''p2p.invalid_socket'')"

definition readPeerWorkbenchEntry :: "peer_host \<Rightarrow> entry_request \<Rightarrow> entry_moments \<Rightarrow> (string \<times> string) peer_result" where
  "readPeerWorkbenchEntry h q m =
     bind_result (assertAccountId (JStr (eq_service q)) 12) (\<lambda>_. bind_result (assertAccountId (JStr (eq_pair q)) 12) (\<lambda>_.
     if \<not> is_safe_integer (eq_generation q) \<or> eq_generation q \<le> 0 then peer_fail ''p2p.invalid_request''
     else
     bind_result (em_admit0 m) (\<lambda>_.
     bind_result (authorize q (em_catalog1 m) (em_admit1 m)) (\<lambda>authority.
     bind_result (currentReady q (em_current1 m)) (\<lambda>before.
     bind_result (em_reply m) (\<lambda>v. bind_result (exactPeerObject v [''serviceId'', ''state'', ''url'']) (\<lambda>reply.
     bind_result (em_admit2 m) (\<lambda>_.
     if js_field reply ''serviceId'' \<noteq> JStr (eq_service q) then peer_fail ''p2p.identity_mismatch''
     else
     bind_result (parseHelperState (js_field reply ''state'')) (\<lambda>state.
     bind_result (assertSameReady state before) (\<lambda>_.
     bind_result (loopbackEntry h (js_field reply ''url'')) (\<lambda>url.
     bind_result (authorize q (em_catalog2 m) (em_admit3 m)) (\<lambda>readback.
     if readback \<noteq> authority then stale_generation
     else
     bind_result (currentReady q (em_current3 m)) (\<lambda>after.
     bind_result (assertSameReady after before) (\<lambda>_.
     bind_result (peerPartition h (eq_service q) (eq_pair q)) (\<lambda>partition_label.
     Inr (url, partition_label))))))))))))))))"

section \<open>The owner of a read\<close>

record entry_moment =  \<comment> \<open>the main process at one moment of the read\<close>
  mo_admit :: "unit peer_result"            \<comment> \<open>the management is open and its session is the one that began the read\<close>
  mo_connections :: peer_connections
  mo_aborted :: "peer_error option"
  mo_current :: "helper_state option"

definition owner_admit :: "entry_guard \<Rightarrow> entry_moment \<Rightarrow> unit peer_result" where
  "owner_admit g m = bind_result (mo_admit m) (\<lambda>_. bind_result (entry_current g (mo_connections m)) (\<lambda>_.
     case mo_aborted m of None \<Rightarrow> Inr () | Some e \<Rightarrow> Inl e))"

definition manage_entry ::
  "peer_host \<Rightarrow> entry_request \<Rightarrow> entry_moment \<Rightarrow> entry_moment \<Rightarrow> entry_moment \<Rightarrow> entry_moment \<Rightarrow>
   peer_catalog option peer_result \<Rightarrow> js_value peer_result \<Rightarrow> peer_catalog option peer_result \<Rightarrow> (string \<times> string) peer_result" where
  "manage_entry h q m0 m1 m2 m3 catalog1 reply catalog2 =
     bind_result (mo_admit m0) (\<lambda>_.
     bind_result (guardEntry (eq_service q) (eq_pair q) (mo_connections m0)) (\<lambda>g.
       readPeerWorkbenchEntry h q
         \<lparr>em_admit0 = owner_admit g m0, em_catalog1 = catalog1, em_admit1 = owner_admit g m1, em_current1 = mo_current m1,
          em_reply = reply, em_admit2 = owner_admit g m2, em_catalog2 = catalog2, em_admit3 = owner_admit g m3,
          em_current3 = mo_current m3\<rparr>))"

section \<open>Interleaved attempts\<close>

record conn_pool =
  cp_state :: peer_connections
  cp_tasks :: "conn_task list"

definition new_conn_pool :: conn_pool where
  "new_conn_pool = \<lparr>cp_state = new_connections, cp_tasks = []\<rparr>"

fun conn_pending :: "conn_outcome \<Rightarrow> conn_task list" where
  "conn_pending (ConnWaiting t) = [t]"
| "conn_pending _ = []"

inductive conn_step :: "conn_pool \<Rightarrow> conn_pool \<Rightarrow> bool" where
  conn_connect: "peer_connect serviceId pairId now (cp_state p) = (s, r) \<Longrightarrow>
    conn_step p \<lparr>cp_state = s, cp_tasks = cp_tasks p @ conn_pending r\<rparr>"
| conn_disconnect: "peer_disconnect serviceId pairId (cp_state p) = (s, r) \<Longrightarrow>
    conn_step p \<lparr>cp_state = s, cp_tasks = cp_tasks p @ conn_pending r\<rparr>"
| conn_reply: "cp_tasks p = ts @ t # us \<Longrightarrow> conn_resume t aborted reply (cp_state p) = (s, r) \<Longrightarrow>
    conn_step p \<lparr>cp_state = s, cp_tasks = ts @ us @ conn_pending r\<rparr>"
| conn_invalidate: "conn_step p (p\<lparr>cp_state := invalidate serviceId pairId (cp_state p)\<rparr>)"
| conn_close: "conn_step p (p\<lparr>cp_state := close (cp_state p)\<rparr>)"

fun task_key :: "conn_task \<Rightarrow> string" where
  "task_key (AwaitConnect g _) = guard_key g"
| "task_key (AwaitPublish g _) = guard_key g"
| "task_key (AwaitDisconnect k) = k"

definition revisions_count :: "peer_connections \<Rightarrow> bool" where
  "revisions_count s \<longleftrightarrow> (\<forall>k. map_of (pn_revisions s) k =
     (if k \<in> set (pn_invalidated s) then Some (count_list (pn_invalidated s) k) else None))"

definition generations_ok :: "peer_connections \<Rightarrow> bool" where
  "generations_ok s \<longleftrightarrow> sorted_wrt (<) (0 # pn_used s) \<and> pn_generation s = last (0 # pn_used s)"

definition conn_ok :: "conn_pool \<Rightarrow> bool" where
  "conn_ok p \<longleftrightarrow> revisions_count (cp_state p) \<and> generations_ok (cp_state p) \<and>
     distinct (map task_key (cp_tasks p)) \<and> set (pn_busy (cp_state p)) = set (map task_key (cp_tasks p))"

lemma revisions_invalidate: "revisions_count s \<Longrightarrow> revisions_count (invalidate a b s)"
  by (auto simp: revisions_count_def invalidate_def Let_def update_conv' count_list_append split: option.split)

lemma invalidate_frame [simp]:
  "pn_busy (invalidate a b s) = pn_busy s" "pn_generation (invalidate a b s) = pn_generation s"
  "pn_used (invalidate a b s) = pn_used s" "pn_closed (invalidate a b s) = pn_closed s"
  by (simp_all add: invalidate_def Let_def)

lemma release_busy_frame [simp]:
  "pn_revisions (release_busy k s) = pn_revisions s" "pn_invalidated (release_busy k s) = pn_invalidated s"
  "pn_generation (release_busy k s) = pn_generation s" "pn_used (release_busy k s) = pn_used s" "pn_busy (release_busy k s) = removeAll k (pn_busy s)"
  by (simp_all add: release_busy_def)

lemma revisions_cong: "pn_revisions s' = pn_revisions s \<Longrightarrow> pn_invalidated s' = pn_invalidated s \<Longrightarrow> revisions_count s' = revisions_count s"
  by (simp add: revisions_count_def)

lemma generations_cong: "pn_used s' = pn_used s \<Longrightarrow> pn_generation s' = pn_generation s \<Longrightarrow> generations_ok s' = generations_ok s"
  by (simp add: generations_ok_def)

lemma generations_next: "generations_ok s \<Longrightarrow> generations_ok (snd (nextGeneration now s))"
proof -
  assume ok: "generations_ok s"
  have "\<forall>x\<in>set (0 # pn_used s). x < max (pn_generation s + 1) (max (now - GENERATION_EPOCH_MILLISECONDS) 1)"
  proof
    fix x assume "x \<in> set (0 # pn_used s)"
    then have "x \<le> last (0 # pn_used s)" using ok
      by (cases "pn_used s" rule: rev_cases) (auto simp: generations_ok_def sorted_wrt_append less_imp_le)
    then show "x < max (pn_generation s + 1) (max (now - GENERATION_EPOCH_MILLISECONDS) 1)" using ok by (auto simp: generations_ok_def)
  qed
  then show ?thesis using ok by (auto simp: generations_ok_def nextGeneration_def Let_def sorted_wrt_append)
qed

lemma guardRevision_fields: "guardRevision a b s = Inr g \<Longrightarrow> gd_service g = a \<and> gd_pair g = b"
  by (auto simp: guardRevision_def Let_def bind_result_Inr)

lemma guardRevision_open: "\<not> pn_closed s \<Longrightarrow> \<exists>g. guardRevision a b s = Inr g"
  by (simp add: guardRevision_def guard_current_def admit_connections_def Let_def)

lemma admit_operation_None:
  "admit_operation a b s = None \<Longrightarrow> \<not> pn_closed s \<and> pair_key a b \<notin> set (pn_busy s)"
  by (auto simp: admit_operation_def admit_connections_def bind_result_Inr split: sum.splits if_splits)

lemma peer_connect_cases:
  assumes "peer_connect a b now s = (s', r)"
  obtains e where "s' = s" "r = ConnThrew e"
  | g n where "pair_key a b \<notin> set (pn_busy s)" "r = ConnWaiting (AwaitConnect g n)" "guard_key g = pair_key a b"
      "(n, s') = nextGeneration now (invalidate a (Some b) (s\<lparr>pn_busy := List.insert (pair_key a b) (pn_busy s)\<rparr>))"
proof (cases "admit_operation a b s")
  case None
  let ?s1 = "invalidate a (Some b) (s\<lparr>pn_busy := List.insert (pair_key a b) (pn_busy s)\<rparr>)"
  obtain g where g: "guardRevision a b ?s1 = Inr g"
    using guardRevision_open [of ?s1 a b] admit_operation_None [OF None] by auto
  have "(s', r) = (snd (nextGeneration now ?s1), ConnWaiting (AwaitConnect g (fst (nextGeneration now ?s1))))"
    using assms None g by (simp add: peer_connect_def Let_def split: prod.splits)
  then show thesis
    using that(2) admit_operation_None [OF None] guardRevision_fields [OF g] by (auto simp: guard_key_def)
next
  case (Some e)
  then show thesis using assms that(1) [of e] by (simp add: peer_connect_def)
qed

lemma conn_ok_connect:
  assumes "conn_ok p" "peer_connect a b now (cp_state p) = (s, r)"
  shows "conn_ok \<lparr>cp_state = s, cp_tasks = cp_tasks p @ conn_pending r\<rparr>"
  using assms(2)
proof (cases rule: peer_connect_cases)
  case 1
  then show ?thesis using assms(1) by (simp add: conn_ok_def)
next
  case (2 g n)
  let ?s1 = "invalidate a (Some b) ((cp_state p)\<lparr>pn_busy := List.insert (pair_key a b) (pn_busy (cp_state p))\<rparr>)"
  have s: "s = snd (nextGeneration now ?s1)" using 2(4) by (metis snd_conv)
  have "revisions_count ?s1" "generations_ok ?s1"
    using assms(1) revisions_invalidate revisions_cong [of "(cp_state p)\<lparr>pn_busy := List.insert (pair_key a b) (pn_busy (cp_state p))\<rparr>" "cp_state p"]
    by (auto simp: conn_ok_def generations_cong [of ?s1 "cp_state p"])
  moreover have "revisions_count s = revisions_count ?s1" by (rule revisions_cong) (simp_all add: s nextGeneration_def Let_def)
  moreover have "pn_busy s = List.insert (pair_key a b) (pn_busy (cp_state p))" by (simp add: s nextGeneration_def Let_def)
  ultimately show ?thesis using assms(1) 2(1-3) generations_next [of ?s1 now] by (auto simp: conn_ok_def s)
qed

lemma conn_ok_disconnect:
  assumes "conn_ok p" "peer_disconnect a b (cp_state p) = (s, r)"
  shows "conn_ok \<lparr>cp_state = s, cp_tasks = cp_tasks p @ conn_pending r\<rparr>"
proof (cases "admit_operation a b (cp_state p)")
  case None
  let ?s0 = "(cp_state p)\<lparr>pn_busy := List.insert (pair_key a b) (pn_busy (cp_state p))\<rparr>"
  have s: "s = invalidate a (Some b) ?s0" "r = ConnWaiting (AwaitDisconnect (pair_key a b))"
    using assms(2) None by (simp_all add: peer_disconnect_def Let_def)
  have "revisions_count s" using assms(1) revisions_cong [of ?s0 "cp_state p"] by (auto simp: s conn_ok_def revisions_invalidate)
  moreover have "generations_ok s = generations_ok (cp_state p)" by (rule generations_cong) (simp_all add: s)
  ultimately show ?thesis using assms(1) admit_operation_None [OF None] by (auto simp: conn_ok_def s)
qed (use assms in \<open>auto simp: peer_disconnect_def conn_ok_def\<close>)

lemma conn_resume_cases:
  "conn_resume t aborted reply s = (s', r) \<Longrightarrow>
   s' = s \<and> (\<exists>t'. r = ConnWaiting t' \<and> task_key t' = task_key t) \<or> s' = release_busy (task_key t) s \<and> conn_pending r = []"
  by (auto simp: conn_resume_def split: conn_task.splits sum.splits)

lemma conn_ok_reply:
  assumes ok: "conn_ok p" and ts: "cp_tasks p = ts @ t # us" and "conn_resume t aborted reply (cp_state p) = (s, r)"
  shows "conn_ok \<lparr>cp_state = s, cp_tasks = ts @ us @ conn_pending r\<rparr>"
  using conn_resume_cases [OF assms(3)]
proof
  assume "s = cp_state p \<and> (\<exists>t'. r = ConnWaiting t' \<and> task_key t' = task_key t)"
  then show ?thesis using ok by (auto simp: conn_ok_def ts) (metis imageI)+
next
  assume r: "s = release_busy (task_key t) (cp_state p) \<and> conn_pending r = []"
  then have "revisions_count s = revisions_count (cp_state p)" "generations_ok s = generations_ok (cp_state p)"
    by (simp_all add: revisions_count_def generations_ok_def)
  then show ?thesis using ok r by (auto simp: conn_ok_def ts)
qed

interpretation attempts: transition_system "\<lambda>p. p = new_conn_pool" conn_step conn_ok
proof
  show "conn_ok p" if "p = new_conn_pool" for p
    using that by (simp add: conn_ok_def new_conn_pool_def new_connections_def revisions_count_def generations_ok_def)
  show "conn_ok p'" if "conn_step p p'" and ok: "conn_ok p" for p p'
    using that(1)
  proof cases
    case (conn_invalidate a b)
    have "generations_ok (invalidate a b (cp_state p)) = generations_ok (cp_state p)" by (rule generations_cong) simp_all
    then show ?thesis using ok revisions_invalidate by (simp add: conn_invalidate conn_ok_def)
  next
    case conn_close
    have "generations_ok (close (cp_state p)) = generations_ok (cp_state p)" "revisions_count (close (cp_state p)) = revisions_count (cp_state p)"
      by (simp_all add: close_def generations_ok_def revisions_count_def)
    then show ?thesis using ok by (simp add: conn_close conn_ok_def close_def)
  qed (use ok in \<open>auto intro: conn_ok_connect conn_ok_disconnect conn_ok_reply\<close>)
qed

text \<open>
  One attempt per pair, each newer than all before (C20).  Under every interleaving of connects, disconnects,
  replies, invalidations and closing, the busy marks are exactly the pairs with an operation in flight, no pair has
  two, and the generations given out are positive and strictly increase.
\<close>

theorem one_attempt_per_pair:
  assumes "conn_step\<^sup>*\<^sup>* new_conn_pool p"
  shows "distinct (map task_key (cp_tasks p)) \<and> set (pn_busy (cp_state p)) = set (map task_key (cp_tasks p)) \<and>
    sorted_wrt (<) (0 # pn_used (cp_state p))"
  using attempts.inv_reached [OF refl assms] by (auto simp: conn_ok_def generations_ok_def)

section \<open>The fence around a read\<close>

lemma conn_step_history:
  assumes "conn_step p p'"
  shows "\<exists>l. pn_invalidated (cp_state p') = pn_invalidated (cp_state p) @ l"
  using assms
proof cases
  case (conn_connect a b now s r)
  from conn_connect(2) show ?thesis
  proof (cases rule: peer_connect_cases)
    case (2 g n)
    then have "s = snd (nextGeneration now (invalidate a (Some b) ((cp_state p)\<lparr>pn_busy := List.insert (pair_key a b) (pn_busy (cp_state p))\<rparr>)))"
      by (metis snd_conv)
    then show ?thesis by (simp add: conn_connect(1) nextGeneration_def invalidate_def Let_def)
  qed (simp add: conn_connect(1))
next
  case (conn_disconnect a b s r)
  then show ?thesis by (auto simp: peer_disconnect_def invalidate_def Let_def split: option.splits)
next
  case (conn_reply ts t us aborted reply s r)
  then show ?thesis using conn_resume_cases [OF conn_reply(3)] by auto
qed (auto simp: invalidate_def close_def Let_def)

lemma conn_steps_history: "conn_step\<^sup>*\<^sup>* p p' \<Longrightarrow> \<exists>l. pn_invalidated (cp_state p') = pn_invalidated (cp_state p) @ l"
proof (induction rule: rtranclp_induct)
  case (step q r)
  then show ?case using conn_step_history [OF step(2)] by auto
qed simp

definition untouched :: "string \<Rightarrow> string \<Rightarrow> peer_connections \<Rightarrow> peer_connections \<Rightarrow> bool" where
  \<comment> \<open>neither the service nor the pair was invalidated between the two states\<close>
  "untouched serviceId pairId s s' \<longleftrightarrow>
     {serviceId, pair_key serviceId pairId} \<inter> set (drop (length (pn_invalidated s)) (pn_invalidated s')) = {}"

lemma revision_unchanged:
  assumes "revisions_count s" "revisions_count s'" "pn_invalidated s' = pn_invalidated s @ l"
  shows "map_of (pn_revisions s') k = map_of (pn_revisions s) k \<longleftrightarrow> k \<notin> set l"
  using assms by (auto simp: revisions_count_def count_list_append count_list_0_iff)

text \<open>
  The guard of an address read is exact: it still admits after any further interleaving exactly when the owner is not
  closed, no operation on the pair is in flight and neither pair nor service was invalidated since.
\<close>

lemma guard_fence:
  assumes "conn_step\<^sup>*\<^sup>* new_conn_pool p" "conn_step\<^sup>*\<^sup>* p p'" "guardEntry a b (cp_state p) = Inr g"
  shows "entry_current g (cp_state p') = Inr () \<longleftrightarrow>
    \<not> pn_closed (cp_state p') \<and> pair_key a b \<notin> set (pn_busy (cp_state p')) \<and> untouched a b (cp_state p) (cp_state p')"
proof -
  have g: "g = \<lparr>gd_service = a, gd_pair = b, gd_serviceRevision = map_of (pn_revisions (cp_state p)) a,
      gd_pairRevision = map_of (pn_revisions (cp_state p)) (pair_key a b)\<rparr>"
    using assms(3) by (auto simp: guardEntry_def guardRevision_def Let_def bind_result_Inr)
  have "conn_ok p" by (rule attempts.inv_reached [OF refl assms(1)])
  moreover have "conn_ok p'" by (rule attempts.inv_reached [OF refl rtranclp_trans [OF assms(1,2)]])
  moreover obtain l where l: "pn_invalidated (cp_state p') = pn_invalidated (cp_state p) @ l"
    using conn_steps_history [OF assms(2)] by blast
  ultimately have "map_of (pn_revisions (cp_state p')) k = map_of (pn_revisions (cp_state p)) k \<longleftrightarrow> k \<notin> set l" for k
    by (intro revision_unchanged) (auto simp: conn_ok_def)
  then show ?thesis
    by (auto simp: g entry_current_def guard_current_def admit_connections_def stale_generation_def peer_fail_def untouched_def l)
qed

section \<open>Who may have a workbench address\<close>

definition pair_authorized :: "entry_request \<Rightarrow> peer_catalog \<Rightarrow> string \<Rightarrow> bool" where
  "pair_authorized q r identity \<longleftrightarrow> eq_service q \<notin> set (pc_forgotten r) \<and>
     (\<exists>service \<in> set (pc_services r). \<exists>computer \<in> set (pc_computers r).
        js_field service ''serviceId'' = JStr (eq_service q) \<and> js_field computer ''serviceId'' = JStr (eq_service q) \<and>
        js_field computer ''pairId'' = JStr (eq_pair q) \<and> js_field computer ''pairState'' = JStr ''active'' \<and>
        identity = json_text (JArr [without_name service, without_name computer]))"

lemma find_SomeD: "find P xs = Some x \<Longrightarrow> x \<in> set xs \<and> P x"
  by (auto simp: find_Some_iff)

lemma authorize_Inr:
  assumes "authorize q saved admitted = Inr identity"
  shows "admitted = Inr () \<and> (\<exists>r. saved = Inr (Some r) \<and> pair_authorized q r identity)"
proof -
  let ?P = "\<lambda>v. js_field v ''serviceId'' = JStr (eq_service q)"
  let ?C = "\<lambda>v. js_field v ''serviceId'' = JStr (eq_service q) \<and> js_field v ''pairId'' = JStr (eq_pair q)"
  obtain r where saved: "saved = Inr (Some r)" and admitted: "admitted = Inr ()"
    using assms by (cases saved; cases admitted; cases "projr saved") (auto simp: authorize_def peer_fail_def)
  show ?thesis
  proof (cases "find ?P (pc_services r)")
    case None
    then show ?thesis using assms by (simp add: authorize_def saved admitted peer_fail_def split: if_splits)
  next
    case s: (Some service)
    show ?thesis
    proof (cases "find ?C (pc_computers r)")
      case None
      then show ?thesis using assms by (simp add: authorize_def saved admitted peer_fail_def s split: if_splits)
    next
      case c: (Some computer)
      have "eq_service q \<notin> set (pc_forgotten r)" "js_field computer ''pairState'' = JStr ''active''"
        "identity = json_text (JArr [without_name service, without_name computer])"
        using assms by (simp_all add: authorize_def saved admitted peer_fail_def s c split: if_splits)
      then show ?thesis using find_SomeD [OF s] find_SomeD [OF c] saved admitted unfolding pair_authorized_def by blast
    qed
  qed
qed

definition ready_attempt :: "entry_request \<Rightarrow> helper_state \<Rightarrow> bool" where
  "ready_attempt q state \<longleftrightarrow> hs_pairId state = eq_pair q \<and> hs_generation state = eq_generation q \<and> hs_stage state = PeerReady"

lemma currentReady_Inr: "currentReady q current = Inr state \<Longrightarrow> current = Some state \<and> ready_attempt q state"
  by (auto simp: currentReady_def ready_attempt_def peer_fail_def stale_generation_def split: option.splits if_splits)

lemma assertSameReady_Inr:
  "assertSameReady state expected = Inr u \<Longrightarrow> hs_stage state = PeerReady \<and> hs_attemptId state = hs_attemptId expected \<and>
     hs_generation state = hs_generation expected \<and> hs_runtimeGeneration state = hs_runtimeGeneration expected"
  by (auto simp: assertSameReady_def peer_fail_def stale_generation_def split: if_splits)

lemma loopbackEntry_Inr: "loopbackEntry h v = Inr url \<Longrightarrow> v = JStr url \<and> (\<exists>u. ph_new_url h url = Some u \<and> loopback_url u)"
  by (auto simp: loopbackEntry_def peer_fail_def split: js_value.splits if_splits option.splits)

lemma read_entry_Inr:
  assumes "readPeerWorkbenchEntry h q m = Inr (url, label)"
  obtains r1 r2 identity before after where
    "em_admit0 m = Inr ()" "em_admit1 m = Inr ()" "em_admit2 m = Inr ()" "em_admit3 m = Inr ()"
    "em_catalog1 m = Inr (Some r1)" "em_catalog2 m = Inr (Some r2)" "pair_authorized q r1 identity" "pair_authorized q r2 identity"
    "em_current1 m = Some before" "em_current3 m = Some after" "ready_attempt q before" "ready_attempt q after"
    "hs_attemptId after = hs_attemptId before" "hs_runtimeGeneration after = hs_runtimeGeneration before"
    "\<exists>u. ph_new_url h url = Some u \<and> loopback_url u" "peerPartition h (eq_service q) (eq_pair q) = Inr label"
  using assms unfolding readPeerWorkbenchEntry_def
  by (auto simp: bind_result_Inr stale_generation_def peer_fail_def split: if_splits
      dest!: authorize_Inr currentReady_Inr assertSameReady_Inr loopbackEntry_Inr)


lemma progress_finished:
  assumes "hs_attemptId t = hs_attemptId s" "assertStateProgress s t = Inr ()"
  shows "hs_generation t = hs_generation s \<and>
    (hs_stage s \<in> {PeerFailed, PeerDisconnected} \<longrightarrow> hs_stage t \<in> {PeerFailed, PeerDisconnected}) \<and>
    (hs_stage s = PeerFailed \<longrightarrow> hs_stage t = PeerFailed)"
  using assms by (cases "hs_stage s"; cases "hs_stage t")
    (auto simp: assertStateProgress_def stale_generation_def peer_fail_def suspension_allowed_def split: if_splits)

text \<open>
  A finished attempt never revives.  Along the states main accepts for one attempt, a failed or disconnected
  connection stays finished, a failed one stays failed, and the generation never changes.
\<close>

lemma attempt_never_revives:
  assumes run: "successively (\<lambda>s t. hs_attemptId t = hs_attemptId s \<and> assertStateProgress s t = Inr ()) ss"
    and order: "i \<le> j" "j < length ss"
  shows "hs_generation (ss ! j) = hs_generation (ss ! i) \<and>
    (hs_stage (ss ! i) \<in> {PeerFailed, PeerDisconnected} \<longrightarrow> hs_stage (ss ! j) \<in> {PeerFailed, PeerDisconnected}) \<and>
    (hs_stage (ss ! i) = PeerFailed \<longrightarrow> hs_stage (ss ! j) = PeerFailed)"
  using order
proof (induction j rule: dec_induct)
  case (step n)
  have "hs_attemptId (ss ! Suc n) = hs_attemptId (ss ! n) \<and> assertStateProgress (ss ! n) (ss ! Suc n) = Inr ()"
    using run step.prems by (auto simp: successively_conv_nth)
  then show ?case using progress_finished step.IH step.prems by auto
qed simp

definition sample_state :: "peer_stage \<Rightarrow> helper_state" where
  "sample_state stage = \<lparr>hs_pairId = ''0123456789ab'', hs_attemptId = ''aaaaaaaaaaaa'', hs_generation = 7, hs_stage = stage,
     hs_error = [], hs_path = \<lparr>hp_localType = ''host'', hp_remoteType = ''host'', hp_protocol = ''udp''\<rparr>, hs_runtimeGeneration = 1\<rparr>"

definition sample_states :: "helper_state list" where
  "sample_states = map sample_state [PeerReady, PeerSuspended, PeerReady, PeerFailed, PeerFailed]"

lemma attempt_never_revives_witness:
  "hs_generation (sample_states ! 4) = hs_generation (sample_states ! 0) \<and> hs_stage (sample_states ! 4) = PeerFailed"
proof -
  have run: "successively (\<lambda>s t. hs_attemptId t = hs_attemptId s \<and> assertStateProgress s t = Inr ()) sample_states" by code_simp
  have "0 \<le> (4::nat)" "3 \<le> (4::nat)" "4 < length sample_states" "hs_stage (sample_states ! 3) = PeerFailed"
    by (simp_all add: sample_states_def sample_state_def)
  then show ?thesis
    using attempt_never_revives [OF run, of 0 4] attempt_never_revives [OF run, of 3 4] by blast
qed

definition sample_entry_host :: peer_host where
  "sample_entry_host = \<lparr>ph_new_url = (\<lambda>t. Some \<lparr>pu_protocol = ''http:'', pu_origin = t, pu_href = t, pu_host = ''127.0.0.1:9'',
     pu_hostname = ''127.0.0.1'', pu_port = Some 9, pu_pathname = ''/'', pu_credentials = ([], []), pu_search = [], pu_hash = []\<rparr>),
     ph_from_base64 = (\<lambda>_. []), ph_to_base64 = (\<lambda>_. []), ph_sha256 = (\<lambda>_. replicate 64 (CHR ''a'')), ph_certificate = (\<lambda>_. None)\<rparr>"

definition sample_entry_catalog :: peer_catalog where
  "sample_entry_catalog = \<lparr>pc_catalogId = ''c00000000000'', pc_services = [JObj [(''serviceId'', JStr ''bbbbbbbbbbbb'')]],
     pc_computers = [JObj [(''serviceId'', JStr ''bbbbbbbbbbbb''), (''pairId'', JStr ''0123456789ab''), (''pairState'', JStr ''active'')]],
     pc_forgotten = []\<rparr>"

definition sample_entry_request :: entry_request where
  "sample_entry_request = \<lparr>eq_service = ''bbbbbbbbbbbb'', eq_pair = ''0123456789ab'', eq_generation = 7\<rparr>"

definition sample_moment :: entry_moment where
  "sample_moment = \<lparr>mo_admit = Inr (), mo_connections = new_connections, mo_aborted = None, mo_current = Some (sample_state PeerReady)\<rparr>"

definition sample_entry_reply :: js_value where
  "sample_entry_reply = JObj [(''serviceId'', JStr ''bbbbbbbbbbbb''), (''url'', JStr ''http://127.0.0.1:9/''),
     (''state'', JObj [(''pairId'', JStr ''0123456789ab''), (''attemptId'', JStr ''aaaaaaaaaaaa''), (''generation'', JNum 7),
        (''stage'', JStr ''ready''), (''error'', JStr []), (''runtimeGeneration'', JNum 1),
        (''path'', JObj [(''localType'', JStr ''host''), (''remoteType'', JStr ''host''), (''protocol'', JStr ''udp'')])])]"

lemma sample_entry_read:
  "manage_entry sample_entry_host sample_entry_request sample_moment sample_moment sample_moment sample_moment
     (Inr (Some sample_entry_catalog)) (Inr sample_entry_reply) (Inr (Some sample_entry_catalog)) =
   Inr (''http://127.0.0.1:9/'', ''persist:dsh-peer-aaaaaaaaaaaaaaaaaaaaaaaaaaaaaaaa'')"
  by code_simp


definition sample_attempts :: conn_pool where
  "sample_attempts =
     (let (s1, r1) = peer_connect ''bbbbbbbbbbbb'' ''0123456789ab'' 0 new_connections;
          (s2, r2) = peer_connect ''bbbbbbbbbbbb'' ''ba9876543210'' 0 s1 in
      \<lparr>cp_state = s2, cp_tasks = conn_pending r1 @ conn_pending r2\<rparr>)"

lemma sample_attempts_reached: "conn_step\<^sup>*\<^sup>* new_conn_pool sample_attempts"
proof -
  obtain s1 r1 where 1: "peer_connect ''bbbbbbbbbbbb'' ''0123456789ab'' 0 new_connections = (s1, r1)" by fastforce
  obtain s2 r2 where 2: "peer_connect ''bbbbbbbbbbbb'' ''ba9876543210'' 0 s1 = (s2, r2)" by fastforce
  let ?p1 = "\<lparr>cp_state = s1, cp_tasks = cp_tasks new_conn_pool @ conn_pending r1\<rparr>"
  have "conn_step new_conn_pool ?p1" using 1 by (intro conn_connect) (simp add: new_conn_pool_def)
  moreover have "conn_step ?p1 \<lparr>cp_state = s2, cp_tasks = cp_tasks ?p1 @ conn_pending r2\<rparr>" using 2 by (intro conn_connect) simp
  ultimately show ?thesis by (simp add: sample_attempts_def 1 2 new_conn_pool_def)
qed

theorem one_attempt_per_pair_witness:
  "length (cp_tasks sample_attempts) = 2 \<and> sorted_wrt (<) (0 # pn_used (cp_state sample_attempts))"
proof -
  have "length (cp_tasks sample_attempts) = 2" by code_simp
  then show ?thesis using one_attempt_per_pair [OF sample_attempts_reached] by simp
qed

end
