(* ===== verification/Runtime_Browser.thy ===== *)
theory Runtime_Browser
  imports Remote_Service Peer_Session
begin

text \<open>
  The browser tabs of the launcher window (\<open>src/app/shell/runtimeBrowserState.ts\<close>): the local workspace, SSH
  remotes and paired computers, with the addresses the main process hands over for one connection attempt.

  The module's reactive state and its inputs (the local launch, the SSH connections, the catalog's computers,
  the peers' connection stages) are one record. \<open>computed\<close> values are functions of it, each watcher is an
  operation that may run at any moment after its inputs changed, and \<open>loadPeerEntries\<close> is cut at its
  \<open>await\<close>: a run is the list of computers it has still to visit, waiting for the question it asked.
  \<open>br_answers\<close> is a history variable: which address main answered to the question about which attempt.
\<close>

section \<open>Views\<close>

datatype pair_state = PairActive | PairRevoked

record computer_view =
  cv_connectionId :: string
  cv_serviceId :: string
  cv_displayName :: string
  cv_pairId :: string
  cv_networkId :: string
  cv_localDeviceId :: string
  cv_remoteDeviceId :: string
  cv_userId :: string
  cv_localPublicKey :: string
  cv_remotePublicKey :: string
  cv_pairRevision :: int
  cv_pairState :: pair_state

record connection_view =
  vw_serviceId :: string
  vw_pairId :: string
  vw_attemptId :: string
  vw_generation :: int
  vw_stage :: peer_stage
  vw_error :: string
  vw_localType :: string
  vw_protocol :: string
  vw_runtimeGeneration :: int

datatype tab_id = LocalTab | RemoteTab string | PeerTab string

datatype tab_status = TabDisconnected | TabConnecting | TabSuspended | TabReady | TabFailed string

datatype tab_source = SourceLocal | SourceRemote | SourcePeer

record runtime_tab =
  rt_id :: tab_id
  rt_source :: tab_source
  rt_connectionId :: "string option"
  rt_url :: "string option"
  rt_partition :: "string option"
  rt_title :: string
  rt_label :: string
  rt_status :: "tab_status option"

record navigation_entry =
  nv_url :: string
  nv_title :: string

record peer_entry =
  pe_identity :: string
  pe_url :: string
  pe_partition :: string

record entry_fetch =  \<comment> \<open>a question to main in flight, and the computers its run has still to visit\<close>
  ef_identity :: string
  ef_serviceId :: string
  ef_pairId :: string
  ef_remaining :: "computer_view list"

record browser =
  br_launch :: "string option"
  br_connections :: "remote_connection list"
  br_computers :: "computer_view list option"
  br_peers :: "connection_view list option"
  br_navigation :: "(tab_id \<times> navigation_entry) list"
  br_sourceUrls :: "(tab_id \<times> string) list"
  br_displayNames :: "(tab_id \<times> string) list"
  br_opened :: "tab_id list"
  br_admissions :: "(tab_id \<times> string) list"
  br_entries :: "(tab_id \<times> peer_entry) list"
  br_fetches :: "(tab_id \<times> entry_fetch) list"
  br_resumable :: "computer_view list list"
  br_active :: tab_id
  br_answers :: "(tab_id \<times> peer_entry) list"

definition new_browser :: browser where
  "new_browser = \<lparr>br_launch = None, br_connections = [], br_computers = None, br_peers = None, br_navigation = [],
     br_sourceUrls = [], br_displayNames = [], br_opened = [], br_admissions = [], br_entries = [], br_fetches = [],
     br_resumable = [], br_active = LocalTab, br_answers = []\<rparr>"

section \<open>Connections of paired computers\<close>

definition find_peer :: "browser \<Rightarrow> string \<Rightarrow> string \<Rightarrow> connection_view option" where
  \<comment> \<open>\<open>p2pConnections.find\<close>\<close>
  "find_peer b serviceId pairId =
     (case br_peers b of None \<Rightarrow> None | Some peers \<Rightarrow> find (\<lambda>p. vw_serviceId p = serviceId \<and> vw_pairId p = pairId) peers)"

definition is_ready :: "browser \<Rightarrow> string \<Rightarrow> string \<Rightarrow> bool" where
  "is_ready b serviceId pairId = (case find_peer b serviceId pairId of None \<Rightarrow> False | Some v \<Rightarrow> vw_stage v = PeerReady)"

definition computers :: "browser \<Rightarrow> computer_view list" where
  \<comment> \<open>\<open>p2pManagement.catalog.value?.computers ?? []\<close>\<close>
  "computers b = (case br_computers b of None \<Rightarrow> [] | Some cs \<Rightarrow> cs)"

definition withoutAddress :: "remote_status \<Rightarrow> tab_status" where
  "withoutAddress st =
     (case st of RemoteReady _ \<Rightarrow> TabReady | RemoteFailed code _ \<Rightarrow> TabFailed code
      | RemoteDisconnected \<Rightarrow> TabDisconnected | RemoteConnecting \<Rightarrow> TabConnecting)"

definition peerTabStatus :: "browser \<Rightarrow> string \<Rightarrow> string \<Rightarrow> pair_state \<Rightarrow> tab_status option" where
  "peerTabStatus b serviceId pairId pairState =
     (if pairState = PairRevoked then Some TabDisconnected
      else if br_peers b = None then None
      else case find_peer b serviceId pairId of
        None \<Rightarrow> Some TabDisconnected
      | Some peer \<Rightarrow>
          Some (case vw_stage peer of
             Punching \<Rightarrow> TabConnecting | StartingRuntime \<Rightarrow> TabConnecting | PeerReady \<Rightarrow> TabReady
           | PeerSuspended \<Rightarrow> TabSuspended | PeerFailed \<Rightarrow> TabFailed (vw_error peer) | _ \<Rightarrow> TabDisconnected))"

definition peerEntryIdentity :: "computer_view \<Rightarrow> connection_view \<Rightarrow> string" where
  "peerEntryIdentity c v = json_text (JArr
     [JStr (cv_connectionId c), JStr (cv_serviceId c), JStr (cv_pairId c), JNum (cv_pairRevision c), JStr (cv_networkId c),
      JStr (cv_userId c), JStr (cv_localDeviceId c), JStr (cv_remoteDeviceId c), JStr (cv_localPublicKey c),
      JStr (cv_remotePublicKey c), JNum (vw_generation v), JStr (vw_attemptId v), JNum (vw_runtimeGeneration v)])"

section \<open>Tabs\<close>

definition nav_url :: "browser \<Rightarrow> tab_id \<Rightarrow> string \<Rightarrow> string" where
  \<comment> \<open>\<open>current?.url ?? fallback\<close>: an empty text is kept\<close>
  "nav_url b i fallback = (case map_of (br_navigation b) i of None \<Rightarrow> fallback | Some n \<Rightarrow> nv_url n)"

definition nav_title :: "browser \<Rightarrow> tab_id \<Rightarrow> string" where
  "nav_title b i = (case map_of (br_navigation b) i of None \<Rightarrow> [] | Some n \<Rightarrow> nv_title n)"

definition local_tab :: "browser \<Rightarrow> runtime_tab" where
  "local_tab b = \<lparr>rt_id = LocalTab, rt_source = SourceLocal, rt_connectionId = None,
     rt_url = (case br_launch b of None \<Rightarrow> None | Some url \<Rightarrow> Some (nav_url b LocalTab url)),
     rt_partition = None, rt_title = nav_title b LocalTab, rt_label = [], rt_status = None\<rparr>"

definition remote_tab :: "browser \<Rightarrow> remote_connection \<Rightarrow> runtime_tab" where
  "remote_tab b c = (let i = RemoteTab (rc_connectionId c) in
     \<lparr>rt_id = i, rt_source = SourceRemote, rt_connectionId = Some (rc_connectionId c),
      rt_url = (case rc_status c of RemoteReady url \<Rightarrow> Some (nav_url b i url) | _ \<Rightarrow> None),
      rt_partition = None, rt_title = nav_title b i, rt_label = rc_displayName c,
      rt_status = Some (withoutAddress (rc_status c))\<rparr>)"

definition owned_entry :: "browser \<Rightarrow> computer_view \<Rightarrow> peer_entry option" where
  \<comment> \<open>\<open>ownsEntry\<close>, with the entry\<close>
  "owned_entry b c =
     (case (find_peer b (cv_serviceId c) (cv_pairId c), map_of (br_entries b) (PeerTab (cv_connectionId c))) of
        (Some view, Some entry) \<Rightarrow>
          (if pe_identity entry = peerEntryIdentity c view \<and>
              (vw_stage view = PeerReady \<or> map_of (br_admissions b) (PeerTab (cv_connectionId c)) = Some (pe_identity entry))
           then Some entry else None)
      | _ \<Rightarrow> None)"

definition peer_tab :: "browser \<Rightarrow> computer_view \<Rightarrow> runtime_tab" where
  "peer_tab b c =
     (let i = PeerTab (cv_connectionId c);
          st = peerTabStatus b (cv_serviceId c) (cv_pairId c) (cv_pairState c);
          entry = (if st \<in> {Some TabReady, Some TabSuspended} then owned_entry b c else None) in
      \<lparr>rt_id = i, rt_source = SourcePeer, rt_connectionId = Some (cv_connectionId c),
       rt_url = map_option (\<lambda>e. nav_url b i (pe_url e)) entry,
       rt_partition = map_option pe_partition entry,
       rt_title = nav_title b i, rt_label = cv_displayName c, rt_status = st\<rparr>)"

definition peerTabs :: "browser \<Rightarrow> runtime_tab list" where
  "peerTabs b = map (peer_tab b) (computers b)"

definition isOpenedRemoteTab :: "browser \<Rightarrow> runtime_tab \<Rightarrow> bool" where
  "isOpenedRemoteTab b t \<longleftrightarrow> rt_id t \<noteq> LocalTab \<and> rt_id t \<in> set (br_opened b)"

definition tabs :: "browser \<Rightarrow> runtime_tab list" where
  "tabs b = local_tab b # filter (isOpenedRemoteTab b) (map (remote_tab b) (br_connections b)) @
     filter (isOpenedRemoteTab b) (peerTabs b)"

definition activeTab :: "browser \<Rightarrow> runtime_tab" where
  "activeTab b = (case find (\<lambda>t. rt_id t = br_active b) (tabs b) of None \<Rightarrow> hd (tabs b) | Some t \<Rightarrow> t)"

definition has_tab :: "browser \<Rightarrow> tab_id \<Rightarrow> bool" where
  "has_tab b i \<longleftrightarrow> list_ex (\<lambda>t. rt_id t = i) (tabs b)"

section \<open>Asking for addresses\<close>

definition drop_entry :: "tab_id \<Rightarrow> browser \<Rightarrow> browser" where
  "drop_entry i b = b\<lparr>br_entries := AList.delete i (br_entries b), br_admissions := AList.delete i (br_admissions b),
     br_navigation := AList.delete i (br_navigation b)\<rparr>"

definition admit :: "tab_id \<Rightarrow> string \<Rightarrow> browser \<Rightarrow> browser" where
  "admit i identity b =
     (if i \<in> set (br_opened b) then b\<lparr>br_admissions := AList.update i identity (br_admissions b)\<rparr> else b)"

definition entry_identity :: "browser \<Rightarrow> tab_id \<Rightarrow> string option" where
  "entry_identity b i = map_option pe_identity (map_of (br_entries b) i)"

definition keeps_suspended :: "browser \<Rightarrow> computer_view \<Rightarrow> bool" where
  \<comment> \<open>an admitted guest of exactly this suspended attempt\<close>
  "keeps_suspended b c =
     (case find_peer b (cv_serviceId c) (cv_pairId c) of
        None \<Rightarrow> False
      | Some view \<Rightarrow> vw_stage view = PeerSuspended \<and>
          entry_identity b (PeerTab (cv_connectionId c)) = Some (peerEntryIdentity c view) \<and>
          map_of (br_admissions b) (PeerTab (cv_connectionId c)) = entry_identity b (PeerTab (cv_connectionId c)))"

fun load_loop :: "computer_view list \<Rightarrow> browser \<Rightarrow> browser" where
  \<comment> \<open>the loop of \<open>loadPeerEntries\<close> up to its end or to the next question it asks\<close>
  "load_loop [] b = b"
| "load_loop (c # cs) b =
     (let i = PeerTab (cv_connectionId c) in
      if cv_pairState c = PairActive \<and> keeps_suspended b c then load_loop cs b
      else case find_peer b (cv_serviceId c) (cv_pairId c) of
        None \<Rightarrow> load_loop cs (drop_entry i b)
      | Some view \<Rightarrow>
          if cv_pairState c \<noteq> PairActive \<or> vw_stage view \<noteq> PeerReady then load_loop cs (drop_entry i b)
          else if entry_identity b i = Some (peerEntryIdentity c view) then load_loop cs (admit i (peerEntryIdentity c view) b)
          else if map_of (br_fetches b) i \<noteq> None then load_loop cs (drop_entry i b)
          else (drop_entry i b)\<lparr>br_fetches := AList.update i
                 \<lparr>ef_identity = peerEntryIdentity c view, ef_serviceId = cv_serviceId c, ef_pairId = cv_pairId c,
                  ef_remaining = cs\<rparr> (br_fetches b)\<rparr>)"

definition loadPeerEntries :: "browser \<Rightarrow> browser" where
  "loadPeerEntries b = load_loop (computers b) b"

definition still_current :: "browser \<Rightarrow> tab_id \<Rightarrow> entry_fetch \<Rightarrow> bool" where
  "still_current b i f =
     (case (find (\<lambda>c. PeerTab (cv_connectionId c) = i) (computers b), find_peer b (ef_serviceId f) (ef_pairId f)) of
        (Some c, Some view) \<Rightarrow> cv_pairState c = PairActive \<and> vw_stage view = PeerReady \<and> peerEntryIdentity c view = ef_identity f
      | _ \<Rightarrow> False)"

datatype entry_reply =
    Answered "(string \<times> string) option"   \<comment> \<open>the address and its partition, or none yet\<close>
  | Refused

definition fetchSettled :: "tab_id \<Rightarrow> entry_reply \<Rightarrow> browser \<Rightarrow> browser" where
  "fetchSettled i outcome b =
     (case map_of (br_fetches b) i of
        None \<Rightarrow> b
      | Some f \<Rightarrow>
          (let b1 = b\<lparr>br_fetches := AList.delete i (br_fetches b), br_resumable := br_resumable b @ [ef_remaining f]\<rparr> in
           case outcome of
             Refused \<Rightarrow> b1
           | Answered answer \<Rightarrow>
               if \<not> still_current b1 i f then loadPeerEntries b1
               else case answer of
                 None \<Rightarrow> b1\<lparr>br_entries := AList.delete i (br_entries b1)\<rparr>
               | Some (url, part) \<Rightarrow>
                   (let e = \<lparr>pe_identity = ef_identity f, pe_url = url, pe_partition = part\<rparr> in
                    admit i (ef_identity f)
                      (b1\<lparr>br_entries := AList.update i e (br_entries b1), br_answers := br_answers b1 @ [(i, e)]\<rparr>))))"

definition resume_load :: "browser \<Rightarrow> browser" where
  "resume_load b = (case br_resumable b of [] \<Rightarrow> b | cs # rest \<Rightarrow> load_loop cs (b\<lparr>br_resumable := rest\<rparr>))"

section \<open>User actions\<close>

definition tab_exists :: "browser \<Rightarrow> tab_id \<Rightarrow> bool" where
  "tab_exists b i =
     (case i of
        LocalTab \<Rightarrow> False
      | RemoteTab k \<Rightarrow> list_ex (\<lambda>c. rc_connectionId c = k) (br_connections b)
      | PeerTab k \<Rightarrow> list_ex (\<lambda>c. cv_connectionId c = k) (computers b))"

definition openRemoteTab :: "tab_id \<Rightarrow> browser \<Rightarrow> bool \<times> browser" where
  "openRemoteTab i b =
     (if \<not> tab_exists b i then (False, b)
      else
       (let b1 = b\<lparr>br_opened := List.insert i (br_opened b)\<rparr>;
            b2 = (case (map_of (br_entries b1) i, find (\<lambda>c. PeerTab (cv_connectionId c) = i) (computers b1)) of
                    (Some entry, Some c) \<Rightarrow>
                      (case find_peer b1 (cv_serviceId c) (cv_pairId c) of
                         Some view \<Rightarrow>
                           (if cv_pairState c = PairActive \<and> vw_stage view = PeerReady \<and> peerEntryIdentity c view = pe_identity entry
                            then b1\<lparr>br_admissions := AList.update i (pe_identity entry) (br_admissions b1)\<rparr> else b1)
                       | None \<Rightarrow> b1)
                  | _ \<Rightarrow> b1)
        in (True, b2\<lparr>br_active := i\<rparr>)))"

fun index_of_tab :: "tab_id \<Rightarrow> runtime_tab list \<Rightarrow> nat option" where
  "index_of_tab i [] = None"
| "index_of_tab i (t # ts) = (if rt_id t = i then Some 0 else map_option Suc (index_of_tab i ts))"

definition closeRemoteTab :: "tab_id \<Rightarrow> browser \<Rightarrow> bool \<times> browser" where
  "closeRemoteTab i b =
     (if i = LocalTab then (False, b)
      else case index_of_tab i (tabs b) of
        None \<Rightarrow> (False, b)
      | Some k \<Rightarrow>
          if i \<notin> set (br_opened b) then (False, b)
          else
           (let b1 = b\<lparr>br_opened := removeAll i (br_opened b), br_navigation := AList.delete i (br_navigation b),
                       br_admissions := AList.delete i (br_admissions b)\<rparr> in
            (True, if br_active b1 = i
                   then b1\<lparr>br_active := rt_id (if Suc k < length (tabs b) then tabs b ! Suc k else tabs b ! (k - 1))\<rparr>
                   else b1)))"

definition updateTab :: "tab_id \<Rightarrow> string option \<Rightarrow> string option \<Rightarrow> browser \<Rightarrow> browser" where
  "updateTab i url title b =
     (if \<not> has_tab b i then b
      else
       (let current = (case map_of (br_navigation b) i of None \<Rightarrow> \<lparr>nv_url = [], nv_title = []\<rparr> | Some n \<Rightarrow> n) in
        b\<lparr>br_navigation := AList.update i
             \<lparr>nv_url = (case url of None \<Rightarrow> nv_url current | Some u \<Rightarrow> u),
              nv_title = (case title of None \<Rightarrow> nv_title current | Some t \<Rightarrow> t)\<rparr> (br_navigation b)\<rparr>))"

definition isLoopbackAddress :: "(string \<Rightarrow> (string \<times> string) option) \<Rightarrow> string \<Rightarrow> bool" where
  \<comment> \<open>the parser gives the protocol and the host name of a URL\<close>
  "isLoopbackAddress new_url candidate =
     (case new_url candidate of
        None \<Rightarrow> False
      | Some (protocol, hostname) \<Rightarrow>
          protocol \<in> {''http:'', ''https:''} \<and> hostname \<in> {''127.0.0.1'', ''localhost'', ''[::1]''})"

section \<open>Watchers\<close>

definition watch_launch :: "string option \<Rightarrow> browser \<Rightarrow> browser" where
  "watch_launch previous b =
     (case br_launch b of
        None \<Rightarrow> b\<lparr>br_navigation := AList.delete LocalTab (br_navigation b)\<rparr>
      | Some url \<Rightarrow>
          if Some url \<noteq> previous
          then b\<lparr>br_navigation := AList.update LocalTab \<lparr>nv_url = url, nv_title = []\<rparr> (br_navigation b)\<rparr> else b)"

definition watch_connection :: "remote_connection \<Rightarrow> browser \<Rightarrow> browser" where
  \<comment> \<open>the body of the loop over the connections\<close>
  "watch_connection c b =
     (let i = RemoteTab (rc_connectionId c);
          renamed = (case map_of (br_displayNames b) i of None \<Rightarrow> False | Some n \<Rightarrow> n \<noteq> rc_displayName c);
          b1 = b\<lparr>br_displayNames := AList.update i (rc_displayName c) (br_displayNames b)\<rparr> in
      case rc_status c of
        RemoteReady url \<Rightarrow>
          (if map_of (br_sourceUrls b1) i \<noteq> Some url
           then b1\<lparr>br_sourceUrls := AList.update i url (br_sourceUrls b1),
                   br_navigation := AList.update i \<lparr>nv_url = url, nv_title = rc_displayName c\<rparr> (br_navigation b1)\<rparr>
           else case map_of (br_navigation b1) i of
             Some n \<Rightarrow> (if renamed then b1\<lparr>br_navigation := AList.update i (n\<lparr>nv_title := rc_displayName c\<rparr>) (br_navigation b1)\<rparr> else b1)
           | None \<Rightarrow> b1)
      | _ \<Rightarrow> b1\<lparr>br_navigation := AList.delete i (br_navigation b1), br_sourceUrls := AList.delete i (br_sourceUrls b1)\<rparr>)"

fun is_remote :: "tab_id \<Rightarrow> bool" where
  "is_remote (RemoteTab _) = True"
| "is_remote _ = False"

fun is_peer :: "tab_id \<Rightarrow> bool" where
  "is_peer (PeerTab _) = True"
| "is_peer _ = False"

definition fallback_active :: "browser \<Rightarrow> browser" where
  "fallback_active b = (if has_tab b (br_active b) then b else b\<lparr>br_active := LocalTab\<rparr>)"

definition watch_connections :: "browser \<Rightarrow> browser" where
  "watch_connections b =
     (let b1 = fold watch_connection (br_connections b) b;
          available = map (\<lambda>c. RemoteTab (rc_connectionId c)) (br_connections b);
          gone = (\<lambda>i. is_remote i \<and> i \<notin> set available);
          dropped = filter gone (map fst (br_navigation b1)) in
      fallback_active
        (b1\<lparr>br_navigation := filter (\<lambda>(i, _). \<not> gone i) (br_navigation b1),
            br_sourceUrls := filter (\<lambda>(i, _). i \<notin> set dropped) (br_sourceUrls b1),
            br_displayNames := filter (\<lambda>(i, _). i \<notin> set dropped) (br_displayNames b1),
            br_opened := filter (\<lambda>i. \<not> gone i) (br_opened b1)\<rparr>))"

definition usable :: "browser \<Rightarrow> computer_view \<Rightarrow> bool" where
  "usable b c \<longleftrightarrow> cv_pairState c = PairActive \<and> (is_ready b (cv_serviceId c) (cv_pairId c) \<or> keeps_suspended b c)"

definition watch_peers :: "browser \<Rightarrow> browser" where
  "watch_peers b =
     (let available = map (\<lambda>c. PeerTab (cv_connectionId c)) (computers b);
          b1 = fold (\<lambda>c b. if usable b c then b
                      else b\<lparr>br_navigation := AList.delete (PeerTab (cv_connectionId c)) (br_navigation b)\<rparr>) (computers b) b;
          retained = map (\<lambda>c. PeerTab (cv_connectionId c)) (filter (usable b) (computers b));
          gone = filter (\<lambda>i. is_peer i \<and> i \<notin> set available) (br_opened b1) in
      fallback_active
        (b1\<lparr>br_opened := filter (\<lambda>i. i \<notin> set gone) (br_opened b1),
            br_admissions := filter (\<lambda>(i, _). i \<notin> set gone) (br_admissions b1),
            br_entries := filter (\<lambda>(i, _). i \<notin> set gone) (br_entries b1),
            br_navigation := filter (\<lambda>(i, _). \<not> is_peer i \<or> i \<in> set retained) (br_navigation b1)\<rparr>))"

section \<open>Events\<close>

text \<open>Inputs change, watchers run, questions settle, runs resume and the user acts, in any order.\<close>

inductive browser_step :: "browser \<Rightarrow> browser \<Rightarrow> bool" where
  new_launch: "browser_step b (b\<lparr>br_launch := url\<rparr>)"
| new_connections: "browser_step b (b\<lparr>br_connections := cs\<rparr>)"
| new_computers: "browser_step b (b\<lparr>br_computers := ms\<rparr>)"
| new_peers: "browser_step b (b\<lparr>br_peers := ps\<rparr>)"
| run_watch_launch: "browser_step b (watch_launch previous b)"
| run_watch_connections: "browser_step b (watch_connections b)"
| run_watch_peers: "browser_step b (watch_peers b)"
| run_load: "browser_step b (loadPeerEntries b)"
| run_resume: "browser_step b (resume_load b)"
| run_settle: "browser_step b (fetchSettled i outcome b)"
| user_open: "browser_step b (snd (openRemoteTab i b))"
| user_close: "browser_step b (snd (closeRemoteTab i b))"
| guest_update: "browser_step b (updateTab i url title b)"

inductive_cases browser_stepE [elim!]: "browser_step b b'"

section \<open>Invariant: every address held was answered for its attempt\<close>

definition browser_ok :: "browser \<Rightarrow> bool" where
  "browser_ok b \<longleftrightarrow> set (br_entries b) \<subseteq> set (br_answers b) \<and> fst ` set (br_admissions b) \<subseteq> set (br_opened b) \<and>
     (\<forall>i \<in> fst ` set (br_admissions b) \<union> fst ` set (br_fetches b). is_peer i)"

lemma browser_ok_new [simp]: "browser_ok new_browser"
  by (simp add: browser_ok_def new_browser_def)

lemma drop_entry_ok [simp]: "browser_ok b \<Longrightarrow> browser_ok (drop_entry i b)"
  using alist_delete_subset [of i "br_entries b"] by (auto simp: browser_ok_def drop_entry_def alist_delete_keys)

lemma admit_ok [simp]: "browser_ok b \<Longrightarrow> is_peer i \<Longrightarrow> browser_ok (admit i k b)"
  by (auto simp: browser_ok_def admit_def alist_update_keys)

lemma browser_ok_cong:
  "br_entries b' = br_entries b \<Longrightarrow> br_answers b' = br_answers b \<Longrightarrow> br_admissions b' = br_admissions b \<Longrightarrow>
   br_opened b' = br_opened b \<Longrightarrow> br_fetches b' = br_fetches b \<Longrightarrow> browser_ok b' = browser_ok b"
  by (simp add: browser_ok_def)

lemma load_loop_ok [simp]: "browser_ok b \<Longrightarrow> browser_ok (load_loop cs b)"
proof (induction cs b rule: load_loop.induct)
  case (2 c cs b)
  have *: "browser_ok ((drop_entry (PeerTab i) b)\<lparr>br_fetches := AList.update (PeerTab i) f (br_fetches b)\<rparr>)" for i f
    using drop_entry_ok [OF 2(6), of "PeerTab i"] by (simp add: browser_ok_def drop_entry_def alist_update_keys ball_Un)
  show ?case using 2 * by (simp add: Let_def del: drop_entry_def split: option.split)
qed simp

lemma fetchSettled_ok [simp]:
  assumes "browser_ok b"
  shows "browser_ok (fetchSettled i outcome b)"
proof (cases "map_of (br_fetches b) i")
  case (Some f)
  define b1 where "b1 = b\<lparr>br_fetches := AList.delete i (br_fetches b), br_resumable := br_resumable b @ [ef_remaining f]\<rparr>"
  have b1: "browser_ok b1" using assms by (auto simp: b1_def browser_ok_def alist_delete_keys)
  have i: "is_peer i" using assms Some by (force simp: browser_ok_def dest: map_of_SomeD)
  have "browser_ok (b1\<lparr>br_entries := AList.delete i (br_entries b1)\<rparr>)"
    using b1 alist_delete_subset [of i "br_entries b1"] by (auto simp: browser_ok_def)
  moreover have "browser_ok (b1\<lparr>br_entries := AList.update i e (br_entries b1), br_answers := br_answers b1 @ [(i, e)]\<rparr>)" for e
    using b1 alist_update_subset [of i e "br_entries b1"] by (auto simp: browser_ok_def)
  ultimately show ?thesis using Some b1 i
    by (simp add: fetchSettled_def b1_def [symmetric] Let_def loadPeerEntries_def split: entry_reply.split option.split)
qed (simp add: fetchSettled_def assms)

lemma resume_load_ok [simp]: "browser_ok b \<Longrightarrow> browser_ok (resume_load b)"
  by (auto simp: resume_load_def browser_ok_cong [where b = b and b' = "b\<lparr>br_resumable := _\<rparr>"] split: list.split)

lemma openRemoteTab_ok [simp]:
  assumes "browser_ok b"
  shows "browser_ok (snd (openRemoteTab i b))"
proof -
  have "is_peer i" if "find (\<lambda>c. PeerTab (cv_connectionId c) = i) (computers (b\<lparr>br_opened := List.insert i (br_opened b)\<rparr>)) = Some c" for c
    using that by (metis (mono_tags, lifting) find_Some_iff is_peer.simps(1))
  then show ?thesis using assms
    by (auto simp: openRemoteTab_def browser_ok_def Let_def alist_update_keys split: option.split)
qed

lemma closeRemoteTab_ok [simp]: "browser_ok b \<Longrightarrow> browser_ok (snd (closeRemoteTab i b))"
  by (auto simp: closeRemoteTab_def browser_ok_def Let_def alist_delete_keys split: option.split)

lemma watch_connection_frame:
  "br_entries (watch_connection c b) = br_entries b" "br_answers (watch_connection c b) = br_answers b"
  "br_admissions (watch_connection c b) = br_admissions b" "br_opened (watch_connection c b) = br_opened b"
  "br_fetches (watch_connection c b) = br_fetches b"
  by (simp_all add: watch_connection_def Let_def split: remote_status.split option.split)

lemma fold_watch_connection_ok: "browser_ok b \<Longrightarrow> browser_ok (fold watch_connection cs b)"
proof (induction cs arbitrary: b)
  case (Cons c cs)
  then show ?case by (simp add: browser_ok_cong [OF watch_connection_frame])
qed simp

lemma fallback_active_ok [simp]: "browser_ok (fallback_active b) = browser_ok b"
  by (simp add: fallback_active_def browser_ok_def)

lemma remote_not_peer: "is_peer i \<Longrightarrow> \<not> is_remote i"
  by (cases i) auto

lemma admissions_peer:
  assumes "browser_ok b" "(i, k) \<in> set (br_admissions b)"
  shows "is_peer i"
proof -
  have "i \<in> fst ` set (br_admissions b)" using assms(2) by force
  then show ?thesis using assms(1) by (simp add: browser_ok_def)
qed

lemma watch_connections_ok [simp]:
  assumes "browser_ok b"
  shows "browser_ok (watch_connections b)"
proof -
  define b1 where "b1 = fold watch_connection (br_connections b) b"
  have ok: "browser_ok b1" unfolding b1_def by (rule fold_watch_connection_ok [OF assms])
  have "\<not> is_remote i" if "(i, k) \<in> set (br_admissions b1)" for i k
    using remote_not_peer [OF admissions_peer [OF ok that]] .
  with ok show ?thesis
    by (auto simp: watch_connections_def Let_def b1_def [symmetric] browser_ok_def fallback_active_def)
qed

lemma fold_forget_frame:
  fixes P :: "browser \<Rightarrow> computer_view \<Rightarrow> bool"
  defines "step \<equiv> \<lambda>c b. if P b c then b else b\<lparr>br_navigation := AList.delete (PeerTab (cv_connectionId c)) (br_navigation b)\<rparr>"
  shows "\<exists>nav. fold step cs b = b\<lparr>br_navigation := nav\<rparr>"
proof (induction cs arbitrary: b)
  case Nil
  show ?case by (rule exI [of _ "br_navigation b"]) simp
next
  case (Cons c cs)
  obtain nav where "fold step cs (step c b) = (step c b)\<lparr>br_navigation := nav\<rparr>" using Cons by blast
  then show ?case by (auto simp: step_def)
qed

lemma watch_peers_ok [simp]:
  assumes "browser_ok b"
  shows "browser_ok (watch_peers b)"
proof -
  obtain nav where "fold (\<lambda>c b. if usable b c then b
      else b\<lparr>br_navigation := AList.delete (PeerTab (cv_connectionId c)) (br_navigation b)\<rparr>) (computers b) b =
        b\<lparr>br_navigation := nav\<rparr>"
    using fold_forget_frame [of usable "computers b" b] by blast
  then show ?thesis using assms by (auto simp: watch_peers_def Let_def browser_ok_def fallback_active_def)
qed

lemma watch_launch_ok [simp]: "browser_ok b \<Longrightarrow> browser_ok (watch_launch previous b)"
  by (simp add: watch_launch_def browser_ok_def split: option.split)

lemma updateTab_ok [simp]: "browser_ok b \<Longrightarrow> browser_ok (updateTab i url title b)"
  by (simp add: updateTab_def browser_ok_def Let_def)

lemma inputs_ok [simp]:
  "browser_ok (b\<lparr>br_launch := l\<rparr>) = browser_ok b" "browser_ok (b\<lparr>br_connections := cs\<rparr>) = browser_ok b"
  "browser_ok (b\<lparr>br_computers := ms\<rparr>) = browser_ok b" "browser_ok (b\<lparr>br_peers := ps\<rparr>) = browser_ok b"
  by (simp_all add: browser_ok_def)

lemma loadPeerEntries_ok [simp]: "browser_ok b \<Longrightarrow> browser_ok (loadPeerEntries b)"
  by (simp add: loadPeerEntries_def)

interpretation browser: transition_system "\<lambda>b. b = new_browser" browser_step browser_ok
  by unfold_locales auto

lemma peer_tab_url:
  assumes "t \<in> set (tabs b)" "rt_source t = SourcePeer" "rt_url t = Some url"
  obtains c view e where "c \<in> set (computers b)" "rt_id t = PeerTab (cv_connectionId c)" "rt_id t \<in> set (br_opened b)"
    "cv_pairState c = PairActive" "find_peer b (cv_serviceId c) (cv_pairId c) = Some view"
    "vw_stage view = PeerReady \<or> vw_stage view = PeerSuspended \<and> map_of (br_admissions b) (rt_id t) = Some (pe_identity e)"
    "map_of (br_entries b) (rt_id t) = Some e" "pe_identity e = peerEntryIdentity c view"
    "rt_partition t = Some (pe_partition e)" "url = nav_url b (rt_id t) (pe_url e)"
proof -
  obtain c where c: "c \<in> set (computers b)" "t = peer_tab b c" "isOpenedRemoteTab b t"
    using assms(1,2) by (auto simp: tabs_def local_tab_def remote_tab_def peerTabs_def Let_def)
  let ?st = "peerTabStatus b (cv_serviceId c) (cv_pairId c) (cv_pairState c)"
  from assms(3) c(2) obtain e where st: "?st \<in> {Some TabReady, Some TabSuspended}" and e: "owned_entry b c = Some e"
    and t: "rt_id t = PeerTab (cv_connectionId c)" "rt_partition t = Some (pe_partition e)" "url = nav_url b (rt_id t) (pe_url e)"
    by (auto simp: peer_tab_def Let_def split: if_splits)
  from e obtain view where v: "find_peer b (cv_serviceId c) (cv_pairId c) = Some view"
    "map_of (br_entries b) (rt_id t) = Some e" "pe_identity e = peerEntryIdentity c view"
    "vw_stage view = PeerReady \<or> map_of (br_admissions b) (rt_id t) = Some (pe_identity e)"
    by (auto simp: owned_entry_def t(1) split: option.splits if_splits)
  have "cv_pairState c = PairActive" using st by (cases "cv_pairState c") (auto simp: peerTabStatus_def)
  moreover have "vw_stage view \<in> {PeerReady, PeerSuspended}"
    using st v(1) by (auto simp: peerTabStatus_def split: if_splits peer_stage.splits)
  ultimately show thesis using that c t v by (auto simp: isOpenedRemoteTab_def)
qed

section \<open>Uninterrupted runs\<close>

text \<open>
  A run of \<open>loadPeerEntries\<close> whose questions settle one after another while the inputs stay as they are:
  \<open>ans\<close> is what main answers about each tab.
\<close>

fun drive :: "(tab_id \<Rightarrow> entry_reply) \<Rightarrow> nat \<Rightarrow> browser \<Rightarrow> browser" where
  "drive ans 0 b = b"
| "drive ans (Suc n) b =
     (case br_fetches b of [] \<Rightarrow> b | (i, _) # _ \<Rightarrow> drive ans n (resume_load (fetchSettled i (ans i) b)))"

definition visit :: "(tab_id \<Rightarrow> entry_reply) \<Rightarrow> computer_view \<Rightarrow> browser \<Rightarrow> browser" where
  \<comment> \<open>one computer of the loop with its question and answer in one step\<close>
  "visit ans c b =
     (let i = PeerTab (cv_connectionId c) in
      if cv_pairState c = PairActive \<and> keeps_suspended b c then b
      else case find_peer b (cv_serviceId c) (cv_pairId c) of
        None \<Rightarrow> drop_entry i b
      | Some view \<Rightarrow>
          if cv_pairState c \<noteq> PairActive \<or> vw_stage view \<noteq> PeerReady then drop_entry i b
          else if entry_identity b i = Some (peerEntryIdentity c view) then admit i (peerEntryIdentity c view) b
          else case ans i of
            Answered (Some (url, part)) \<Rightarrow>
              (let e = \<lparr>pe_identity = peerEntryIdentity c view, pe_url = url, pe_partition = part\<rparr>; d = drop_entry i b in
               admit i (pe_identity e) (d\<lparr>br_entries := AList.update i e (br_entries d), br_answers := br_answers d @ [(i, e)]\<rparr>))
          | _ \<Rightarrow> drop_entry i b)"

lemma drop_entry_frame [simp]:
  "br_fetches (drop_entry i b) = br_fetches b" "br_resumable (drop_entry i b) = br_resumable b"
  "br_computers (drop_entry i b) = br_computers b" "br_peers (drop_entry i b) = br_peers b" "br_opened (drop_entry i b) = br_opened b"
  by (simp_all add: drop_entry_def)

lemma admit_frame [simp]:
  "br_fetches (admit i k b) = br_fetches b" "br_resumable (admit i k b) = br_resumable b"
  "br_computers (admit i k b) = br_computers b" "br_peers (admit i k b) = br_peers b" "br_opened (admit i k b) = br_opened b"
  "br_entries (admit i k b) = br_entries b" "br_navigation (admit i k b) = br_navigation b"
  by (simp_all add: admit_def)

lemma visit_frame [simp]:
  "br_fetches (visit ans c b) = br_fetches b" "br_resumable (visit ans c b) = br_resumable b"
  "br_computers (visit ans c b) = br_computers b" "br_peers (visit ans c b) = br_peers b" "br_opened (visit ans c b) = br_opened b"
  by (simp_all add: visit_def Let_def split: option.split entry_reply.split)

lemma find_peer_cong: "br_peers b' = br_peers b \<Longrightarrow> find_peer b' = find_peer b"
  by (auto simp: find_peer_def fun_eq_iff)

lemma computers_cong: "br_computers b' = br_computers b \<Longrightarrow> computers b' = computers b"
  by (simp add: computers_def)

lemma find_own_tab:
  assumes "distinct (map cv_connectionId cs)" "c \<in> set cs"
  shows "find (\<lambda>d. PeerTab (cv_connectionId d) = PeerTab (cv_connectionId c)) cs = Some c"
  using assms by (induction cs) auto

lemma browser_no_questions [simp]:
  "br_fetches b = [] \<Longrightarrow> br_resumable b = [] \<Longrightarrow> b\<lparr>br_fetches := [], br_resumable := []\<rparr> = b"
  by (cases b) simp

lemma settle_current:
  assumes c: "c \<in> set (computers b)" "distinct (map cv_connectionId (computers b))"
    and v: "cv_pairState c = PairActive" "find_peer b (cv_serviceId c) (cv_pairId c) = Some view" "vw_stage view = PeerReady"
    and idle: "br_fetches b = []" "br_resumable b = []"
    and ne: "entry_identity b (PeerTab (cv_connectionId c)) \<noteq> Some (peerEntryIdentity c view)"
    and f: "f = \<lparr>ef_identity = peerEntryIdentity c view, ef_serviceId = cv_serviceId c, ef_pairId = cv_pairId c, ef_remaining = cs\<rparr>"
  defines "i \<equiv> PeerTab (cv_connectionId c)"
  shows "resume_load (fetchSettled i (ans i) ((drop_entry i b)\<lparr>br_fetches := [(i, f)]\<rparr>)) = load_loop cs (visit ans c b)"
proof -
  let ?b = "(drop_entry i b)\<lparr>br_fetches := [], br_resumable := [cs]\<rparr>"
  have cp: "computers ?b = computers b" "find_peer ?b = find_peer b" by (auto intro: computers_cong find_peer_cong)
  have cur: "still_current ?b i f"
    using v find_own_tab [OF c(2,1)] unfolding still_current_def cp f by (simp add: i_def)
  have nk: "\<not> keeps_suspended b c" using v by (simp add: keeps_suspended_def)
  have settled: "fetchSettled i (ans i) ((drop_entry i b)\<lparr>br_fetches := [(i, f)]\<rparr>) = (visit ans c b)\<lparr>br_resumable := [cs]\<rparr>"
  proof (cases "ans i")
    case (Answered answer)
    have [simp]: "(drop_entry i b)\<lparr>br_fetches := [], br_resumable := [cs], br_entries := es, br_answers := as\<rparr> =
        (drop_entry i b)\<lparr>br_entries := es, br_answers := as, br_resumable := [cs]\<rparr>" for es as
      using idle(1) by (cases b) (simp add: drop_entry_def)
    have [simp]: "(drop_entry i b)\<lparr>br_fetches := [], br_resumable := [cs], br_entries := AList.delete i (br_entries (drop_entry i b))\<rparr> =
        (drop_entry i b)\<lparr>br_resumable := [cs]\<rparr>"
      using idle(1) by (cases b) (simp add: drop_entry_def delete_idem)
    have [simp]: "admit i k (b'\<lparr>br_resumable := [cs]\<rparr>) = (admit i k b')\<lparr>br_resumable := [cs]\<rparr>" for k b' by (simp add: admit_def)
    have "entry_identity b i \<noteq> Some (peerEntryIdentity c view)" using ne by (simp add: i_def)
    then show ?thesis using v idle cur nk Answered
      by (auto simp: fetchSettled_def Let_def f visit_def i_def [symmetric] split: option.splits)
  next
    case Refused
    moreover have "(drop_entry i b)\<lparr>br_fetches := [], br_resumable := [cs]\<rparr> = (drop_entry i b)\<lparr>br_resumable := [cs]\<rparr>"
      using idle(1) by (cases b) (simp add: drop_entry_def)
    ultimately show ?thesis using v idle nk ne by (simp add: fetchSettled_def Let_def f visit_def i_def)
  qed
  have "(visit ans c b)\<lparr>br_resumable := []\<rparr> = visit ans c b" using idle by (cases "visit ans c b") (metis browser.select_convs(12) visit_frame(2) browser.update_convs(12))
  with settled show ?thesis by (simp add: resume_load_def)
qed

lemma drive_loop:
  assumes "length cs \<le> n" "set cs \<subseteq> set (computers b)" "distinct (map cv_connectionId (computers b))"
    "br_fetches b = []" "br_resumable b = []"
  shows "drive ans n (load_loop cs b) = fold (visit ans) cs b"
  using assms
proof (induction cs arbitrary: b n)
  case Nil
  then show ?case by (cases n) auto
next
  case (Cons c cs)
  then obtain m where n: "n = Suc m" "length cs \<le> m" by (cases n) auto
  have IH: "drive ans k (load_loop cs (visit ans c b)) = fold (visit ans) cs (visit ans c b)" if "length cs \<le> k" for k
    using Cons.prems that by (intro Cons.IH) (auto simp: computers_cong [of "visit ans c b" b])
  show ?case
  proof (cases "load_loop (c # cs) b = load_loop cs (visit ans c b)")
    case True
    then show ?thesis using IH [of n] n by (simp del: load_loop.simps drive.simps)
  next
    case False
    let ?i = "PeerTab (cv_connectionId c)"
    have c: "c \<in> set (computers b)" using Cons.prems by simp
    from False Cons.prems(4) obtain view where v: "cv_pairState c = PairActive" "find_peer b (cv_serviceId c) (cv_pairId c) = Some view"
        "vw_stage view = PeerReady" and ne: "entry_identity b ?i \<noteq> Some (peerEntryIdentity c view)"
      by (auto simp: visit_def Let_def split: option.splits if_splits)
    moreover have "\<not> keeps_suspended b c" using v by (simp add: keeps_suspended_def)
    ultimately have "load_loop (c # cs) b = (drop_entry ?i b)\<lparr>br_fetches := [(?i, \<lparr>ef_identity = peerEntryIdentity c view,
        ef_serviceId = cv_serviceId c, ef_pairId = cv_pairId c, ef_remaining = cs\<rparr>)]\<rparr>"
      using Cons.prems(4) by (simp add: Let_def)
    then show ?thesis
      using settle_current [OF c Cons.prems(3) v Cons.prems(4,5) ne refl, of ans cs] IH [OF n(2)] n(1)
      by (simp del: load_loop.simps)
  qed
qed


lemma visit_other:
  assumes "i \<noteq> PeerTab (cv_connectionId d)"
  shows "map_of (br_entries (visit ans d b)) i = map_of (br_entries b) i"
    "map_of (br_navigation (visit ans d b)) i = map_of (br_navigation b) i"
  using assms by (simp_all add: visit_def Let_def drop_entry_def update_conv' delete_conv' split: option.split entry_reply.split)

lemma fold_visit_frame [simp]:
  "br_fetches (fold (visit ans) cs b) = br_fetches b" "br_computers (fold (visit ans) cs b) = br_computers b"
  "br_peers (fold (visit ans) cs b) = br_peers b" "br_opened (fold (visit ans) cs b) = br_opened b"
  by (induction cs arbitrary: b) auto

lemma fold_visit_other:
  assumes "i \<notin> (\<lambda>d. PeerTab (cv_connectionId d)) ` set cs"
  shows "map_of (br_entries (fold (visit ans) cs b)) i = map_of (br_entries b) i"
    "map_of (br_navigation (fold (visit ans) cs b)) i = map_of (br_navigation b) i"
  using assms by (induction cs arbitrary: b) (auto simp: visit_other)

lemma fold_visit_answered:
  assumes c: "c \<in> set cs" "distinct (map cv_connectionId cs)"
    and v: "cv_pairState c = PairActive" "find_peer b (cv_serviceId c) (cv_pairId c) = Some view" "vw_stage view = PeerReady"
    and ne: "entry_identity b (PeerTab (cv_connectionId c)) \<noteq> Some (peerEntryIdentity c view)"
    and ans: "ans (PeerTab (cv_connectionId c)) = Answered (Some (url, part))"
  defines "i \<equiv> PeerTab (cv_connectionId c)" and "b' \<equiv> fold (visit ans) cs b"
  shows "map_of (br_entries b') i = Some \<lparr>pe_identity = peerEntryIdentity c view, pe_url = url, pe_partition = part\<rparr>"
    "map_of (br_navigation b') i = None"
proof -
  obtain xs ys where cs: "cs = xs @ c # ys" using c(1) by (auto dest: split_list)
  let ?b = "fold (visit ans) xs b"
  have out: "i \<notin> (\<lambda>d. PeerTab (cv_connectionId d)) ` set xs" "i \<notin> (\<lambda>d. PeerTab (cv_connectionId d)) ` set ys"
    using c(2) by (auto simp: cs i_def)
  have fp: "find_peer ?b = find_peer b" by (rule find_peer_cong) simp
  have "entry_identity ?b i \<noteq> Some (peerEntryIdentity c view)"
    using ne fold_visit_other(1) [OF out(1)] by (simp add: entry_identity_def i_def)
  moreover have "\<not> keeps_suspended ?b c" using v by (simp add: keeps_suspended_def fp)
  ultimately have "map_of (br_entries (visit ans c ?b)) i = Some \<lparr>pe_identity = peerEntryIdentity c view, pe_url = url, pe_partition = part\<rparr>"
    and "map_of (br_navigation (visit ans c ?b)) i = None"
    using v ans by (simp_all add: visit_def Let_def fp i_def drop_entry_def update_conv' delete_conv')
  then show "map_of (br_entries b') i = Some \<lparr>pe_identity = peerEntryIdentity c view, pe_url = url, pe_partition = part\<rparr>"
    "map_of (br_navigation b') i = None"
    using fold_visit_other [OF out(2), where b = "visit ans c ?b" and ans = ans] by (simp_all add: b'_def cs)
qed

lemma owned_ready_tab:
  assumes "c \<in> set (computers b)" "PeerTab (cv_connectionId c) \<in> set (br_opened b)"
    "cv_pairState c = PairActive" "find_peer b (cv_serviceId c) (cv_pairId c) = Some view" "vw_stage view = PeerReady"
    "map_of (br_entries b) (PeerTab (cv_connectionId c)) = Some e" "pe_identity e = peerEntryIdentity c view"
    "map_of (br_navigation b) (PeerTab (cv_connectionId c)) = None"
  shows "\<exists>t \<in> set (tabs b). rt_id t = PeerTab (cv_connectionId c) \<and> rt_url t = Some (pe_url e) \<and>
    rt_partition t = Some (pe_partition e) \<and> rt_status t = Some TabReady"
proof (rule bexI [of _ "peer_tab b c"])
  have "br_peers b \<noteq> None" using assms(4) by (auto simp: find_peer_def split: option.splits)
  then show "rt_id (peer_tab b c) = PeerTab (cv_connectionId c) \<and> rt_url (peer_tab b c) = Some (pe_url e) \<and>
    rt_partition (peer_tab b c) = Some (pe_partition e) \<and> rt_status (peer_tab b c) = Some TabReady"
    using assms by (simp add: peer_tab_def peerTabStatus_def owned_entry_def nav_url_def Let_def)
  then show "peer_tab b c \<in> set (tabs b)"
    using assms by (simp add: tabs_def peerTabs_def isOpenedRemoteTab_def)
qed

section \<open>What the browser guarantees\<close>

text \<open>
  An address is asked for and arrives (C12).  From a state in which no question is in flight, a run of
  \<open>loadPeerEntries\<close> whose questions settle ends after at most one question per computer with no question in
  flight, whatever main answers or refuses; and every opened tab of an active, ready computer that had no
  address for its attempt and got an answer then shows that address in the partition main named.
\<close>

theorem peer_tab_opens:
  fixes ans :: "tab_id \<Rightarrow> entry_reply"
  assumes distinct: "distinct (map cv_connectionId (computers b))" and idle: "br_fetches b = []" "br_resumable b = []"
    and n: "length (computers b) \<le> n"
  defines "b' \<equiv> drive ans n (loadPeerEntries b)"
  shows "br_fetches b' = [] \<and>
    (\<forall>c view url part. c \<in> set (computers b) \<longrightarrow> PeerTab (cv_connectionId c) \<in> set (br_opened b) \<longrightarrow>
      cv_pairState c = PairActive \<longrightarrow> find_peer b (cv_serviceId c) (cv_pairId c) = Some view \<longrightarrow>
      vw_stage view = PeerReady \<longrightarrow> entry_identity b (PeerTab (cv_connectionId c)) \<noteq> Some (peerEntryIdentity c view) \<longrightarrow>
      ans (PeerTab (cv_connectionId c)) = Answered (Some (url, part)) \<longrightarrow>
      (\<exists>t \<in> set (tabs b'). rt_id t = PeerTab (cv_connectionId c) \<and> rt_url t = Some url \<and>
         rt_partition t = Some part \<and> rt_status t = Some TabReady))"
proof (intro conjI allI impI)
  have b': "b' = fold (visit ans) (computers b) b"
    unfolding b'_def loadPeerEntries_def using assms by (intro drive_loop) auto
  then show "br_fetches b' = []" using idle by simp
  fix c view url part
  assume c: "c \<in> set (computers b)" and opened: "PeerTab (cv_connectionId c) \<in> set (br_opened b)"
    and v: "cv_pairState c = PairActive" "find_peer b (cv_serviceId c) (cv_pairId c) = Some view" "vw_stage view = PeerReady"
    and ne: "entry_identity b (PeerTab (cv_connectionId c)) \<noteq> Some (peerEntryIdentity c view)"
    and answered: "ans (PeerTab (cv_connectionId c)) = Answered (Some (url, part))"
  have cp: "computers b' = computers b" "find_peer b' = find_peer b"
    by (auto simp: b' intro: computers_cong find_peer_cong)
  have op: "br_opened b' = br_opened b" by (simp add: b')
  show "\<exists>t \<in> set (tabs b'). rt_id t = PeerTab (cv_connectionId c) \<and> rt_url t = Some url \<and>
      rt_partition t = Some part \<and> rt_status t = Some TabReady"
    using owned_ready_tab [of c b' view "\<lparr>pe_identity = peerEntryIdentity c view, pe_url = url, pe_partition = part\<rparr>"]
      fold_visit_answered [where ans = ans, OF c distinct v ne answered, folded b'] c opened v by (simp add: cp op)
qed

definition sample_computer :: "string \<Rightarrow> computer_view" where
  "sample_computer k = \<lparr>cv_connectionId = k, cv_serviceId = ''svc'', cv_displayName = ''Desk'', cv_pairId = ''pair-'' @ k,
     cv_networkId = ''net'', cv_localDeviceId = ''here'', cv_remoteDeviceId = ''there'', cv_userId = ''user'',
     cv_localPublicKey = ''lk'', cv_remotePublicKey = ''rk'', cv_pairRevision = 1, cv_pairState = PairActive\<rparr>"

definition sample_view :: "string \<Rightarrow> connection_view" where
  "sample_view k = \<lparr>vw_serviceId = ''svc'', vw_pairId = ''pair-'' @ k, vw_attemptId = ''attempt'', vw_generation = 4,
     vw_stage = PeerReady, vw_error = [], vw_localType = ''host'', vw_protocol = ''udp'', vw_runtimeGeneration = 2\<rparr>"

definition sample_browser :: browser where
  \<comment> \<open>two ready computers, the second one opened\<close>
  "sample_browser = new_browser\<lparr>br_computers := Some [sample_computer ''a'', sample_computer ''b''],
     br_peers := Some [sample_view ''a'', sample_view ''b''], br_opened := [PeerTab ''b'']\<rparr>"

definition sample_answers :: "tab_id \<Rightarrow> entry_reply" where
  \<comment> \<open>main refuses the question about the first computer\<close>
  "sample_answers i = (if i = PeerTab ''b'' then Answered (Some (''http://127.0.0.1:8080/'', ''persist:b'')) else Refused)"

theorem peer_tab_opens_witness:
  "br_fetches (drive sample_answers 2 (loadPeerEntries sample_browser)) = [] \<and>
   (\<exists>t. t \<in> set (tabs (drive sample_answers 2 (loadPeerEntries sample_browser))) \<and>
     rt_id t = PeerTab ''b'' \<and> rt_url t = Some ''http://127.0.0.1:8080/'')"
proof -
  have "find_peer sample_browser ''svc'' ''pair-b'' = Some (sample_view ''b'')"
    by (simp add: find_peer_def sample_browser_def sample_view_def)
  then have v: "find_peer sample_browser (cv_serviceId (sample_computer ''b'')) (cv_pairId (sample_computer ''b'')) = Some (sample_view ''b'')"
    by (simp add: sample_computer_def)
  have pre: "distinct (map cv_connectionId (computers sample_browser))" "br_fetches sample_browser = []"
    "br_resumable sample_browser = []" "length (computers sample_browser) \<le> 2"
    by (simp_all add: computers_def sample_browser_def new_browser_def sample_computer_def)
  have c: "sample_computer ''b'' \<in> set (computers sample_browser)" "cv_pairState (sample_computer ''b'') = PairActive"
    "PeerTab (cv_connectionId (sample_computer ''b'')) \<in> set (br_opened sample_browser)"
    "entry_identity sample_browser (PeerTab (cv_connectionId (sample_computer ''b''))) \<noteq>
      Some (peerEntryIdentity (sample_computer ''b'') (sample_view ''b''))"
    "sample_answers (PeerTab (cv_connectionId (sample_computer ''b''))) = Answered (Some (''http://127.0.0.1:8080/'', ''persist:b''))"
    by (simp_all add: computers_def sample_browser_def new_browser_def sample_computer_def sample_answers_def entry_identity_def)
  have s: "vw_stage (sample_view ''b'') = PeerReady" by (simp add: sample_view_def)
  note opens = peer_tab_opens [OF pre, of sample_answers]
  obtain t where "t \<in> set (tabs (drive sample_answers 2 (loadPeerEntries sample_browser)))"
    "rt_id t = PeerTab (cv_connectionId (sample_computer ''b''))" "rt_url t = Some ''http://127.0.0.1:8080/''"
    using opens [THEN conjunct2, rule_format, OF c(1,3,2) v s c(4,5)] by blast
  then show ?thesis using opens [THEN conjunct1] by (auto simp: sample_computer_def)
qed


definition sample_opened :: browser where
  "sample_opened = fetchSettled (PeerTab ''b'') (sample_answers (PeerTab ''b''))
     (loadPeerEntries (snd (openRemoteTab (PeerTab ''b'')
       (new_browser\<lparr>br_computers := Some [sample_computer ''b''], br_peers := Some [sample_view ''b'']\<rparr>))))"

lemma sample_opened_reached: "browser_step\<^sup>*\<^sup>* new_browser sample_opened"
proof -
  let ?b1 = "new_browser\<lparr>br_computers := Some [sample_computer ''b'']\<rparr>"
  let ?b2 = "?b1\<lparr>br_peers := Some [sample_view ''b'']\<rparr>"
  let ?b3 = "snd (openRemoteTab (PeerTab ''b'') ?b2)"
  have "browser_step new_browser ?b1" "browser_step ?b1 ?b2" "browser_step ?b2 ?b3"
    "browser_step ?b3 (loadPeerEntries ?b3)" "browser_step (loadPeerEntries ?b3) sample_opened"
    unfolding sample_opened_def by (rule browser_step.intros)+
  then show ?thesis by (meson rtranclp.rtrancl_into_rtrancl rtranclp.rtrancl_refl)
qed

lemma sample_opened_tabs:
  "map (\<lambda>t. (rt_id t, rt_source t, rt_url t)) (tabs sample_opened) =
     [(LocalTab, SourceLocal, None), (PeerTab ''b'', SourcePeer, Some ''http://127.0.0.1:8080/'')]"
  by code_simp


text \<open>
  One identity, one attempt.  Two identities agree exactly when the catalog binding (connection, service,
  pair, revision, network, user, devices and keys) and the attempt (generation, attempt id, runtime generation) do:
  the text cannot be made to agree by moving characters from one field to another.
\<close>

lemma peer_identity_exact:
  assumes "list_all (\<lambda>n. nat \<bar>n\<bar> < number_limit) [cv_pairRevision c, vw_generation v, vw_runtimeGeneration v]"
    and "list_all (\<lambda>n. nat \<bar>n\<bar> < number_limit) [cv_pairRevision c', vw_generation v', vw_runtimeGeneration v']"
  shows "peerEntryIdentity c v = peerEntryIdentity c' v' \<longleftrightarrow>
    cv_connectionId c = cv_connectionId c' \<and> cv_serviceId c = cv_serviceId c' \<and> cv_pairId c = cv_pairId c' \<and>
    cv_pairRevision c = cv_pairRevision c' \<and> cv_networkId c = cv_networkId c' \<and> cv_userId c = cv_userId c' \<and>
    cv_localDeviceId c = cv_localDeviceId c' \<and> cv_remoteDeviceId c = cv_remoteDeviceId c' \<and>
    cv_localPublicKey c = cv_localPublicKey c' \<and> cv_remotePublicKey c = cv_remotePublicKey c' \<and>
    vw_generation v = vw_generation v' \<and> vw_attemptId v = vw_attemptId v' \<and> vw_runtimeGeneration v = vw_runtimeGeneration v'"
    (is "?eq \<longleftrightarrow> ?same")
proof
  let ?arr = "\<lambda>c v. JArr [JStr (cv_connectionId c), JStr (cv_serviceId c), JStr (cv_pairId c), JNum (cv_pairRevision c),
      JStr (cv_networkId c), JStr (cv_userId c), JStr (cv_localDeviceId c), JStr (cv_remoteDeviceId c),
      JStr (cv_localPublicKey c), JStr (cv_remotePublicKey c), JNum (vw_generation v), JStr (vw_attemptId v),
      JNum (vw_runtimeGeneration v)]"
  assume ?eq
  then have "json_text (?arr c v) = json_text (?arr c' v')" unfolding peerEntryIdentity_def .
  moreover have "wire_ok 0 (?arr c v)" "wire_ok 0 (?arr c' v')" using assms by simp_all
  ultimately have "?arr c v = ?arr c' v'" by (intro json_text_inject)
  then show ?same by simp
qed (simp add: peerEntryIdentity_def)

lemma peer_identity_exact_witness:
  "peerEntryIdentity (sample_computer ''b'') (sample_view ''b'') \<noteq>
   peerEntryIdentity (sample_computer ''b'') ((sample_view ''b'')\<lparr>vw_attemptId := ''retry''\<rparr>)"
  using peer_identity_exact [of "sample_computer ''b''" "sample_view ''b''"
      "sample_computer ''b''" "(sample_view ''b'')\<lparr>vw_attemptId := ''retry''\<rparr>"]
  by (simp add: sample_computer_def sample_view_def number_limit_def)

text \<open>
  A title report blanks the address (C35).  A guest whose tab has no recorded navigation -- a peer tab right after
  its address arrived -- and that reports its title records an empty URL with it, and the tab's address is then
  the empty text instead of the address main handed over.
\<close>

theorem title_update_blanks_address:
  assumes "t \<in> set (tabs b)" "rt_url t = Some url" "map_of (br_navigation b) (rt_id t) = None"
  shows "\<exists>t' \<in> set (tabs (updateTab (rt_id t) None (Some title) b)). rt_id t' = rt_id t \<and> rt_url t' = Some []"
proof -
  define b' where "b' = updateTab (rt_id t) None (Some title) b"
  have has: "has_tab b (rt_id t)" using assms(1) by (auto simp: has_tab_def list_ex_iff)
  have nav: "nav_url b' (rt_id t) u = []" for u
    using has assms(3) by (simp add: b'_def updateTab_def nav_url_def update_conv')
  obtain m where m: "b' = b\<lparr>br_navigation := m\<rparr>" using has by (simp add: b'_def updateTab_def Let_def)
  have fr: "br_launch b' = br_launch b" "br_connections b' = br_connections b" "computers b' = computers b"
    "br_opened b' = br_opened b" "find_peer b' = find_peer b" "owned_entry b' = owned_entry b" "peerTabStatus b' = peerTabStatus b"
    by (auto simp: m computers_def find_peer_def owned_entry_def peerTabStatus_def fun_eq_iff split: option.split)
  consider "t = local_tab b" | c where "c \<in> set (br_connections b)" "t = remote_tab b c" "isOpenedRemoteTab b t"
    | c where "c \<in> set (computers b)" "t = peer_tab b c" "isOpenedRemoteTab b t"
    using assms(1) by (auto simp: tabs_def peerTabs_def)
  then have "\<exists>t' \<in> set (tabs b'). rt_id t' = rt_id t \<and> rt_url t' = Some []"
  proof cases
    case 1
    then show ?thesis using assms(2) nav
      by (intro bexI [of _ "local_tab b'"]) (auto simp: tabs_def local_tab_def fr split: option.splits)
  next
    case (2 c)
    then show ?thesis using assms(2) nav
      by (intro bexI [of _ "remote_tab b' c"]) (auto simp: tabs_def remote_tab_def isOpenedRemoteTab_def fr Let_def split: remote_status.splits)
  next
    case (3 c)
    then show ?thesis using assms(2) nav
      by (intro bexI [of _ "peer_tab b' c"])
        (auto simp: tabs_def peer_tab_def peerTabs_def isOpenedRemoteTab_def fr Let_def split: if_splits)
  qed
  then show ?thesis unfolding b'_def .
qed

theorem title_update_blanks_address_witness:
  "\<exists>t. t \<in> set (tabs (updateTab (PeerTab ''b'') None (Some ''Inbox'') sample_opened)) \<and>
     rt_id t = PeerTab ''b'' \<and> rt_url t = Some []"
proof -
  have "(PeerTab ''b'', SourcePeer, Some ''http://127.0.0.1:8080/'') \<in>
      set (map (\<lambda>t. (rt_id t, rt_source t, rt_url t)) (tabs sample_opened))"
    unfolding sample_opened_tabs by simp
  then obtain t where t: "t \<in> set (tabs sample_opened)" "rt_id t = PeerTab ''b''"
    "rt_url t = Some ''http://127.0.0.1:8080/''" by auto
  have "map_of (br_navigation sample_opened) (PeerTab ''b'') = None" by code_simp
  with title_update_blanks_address [OF t(1,3), of "''Inbox''"] t(2) show ?thesis by auto
qed

end
