(* ===== verification/Runtime_Owner.thy ===== *)
theory Runtime_Owner
  imports Peer_Records
begin

text \<open>
  The owner of the local workbench for peers (\<open>electron/main/p2p/runtime-owner.ts\<close>): it binds the URL the child
  process announces, numbers each binding, and keeps the callers that wait for one.

  \<open>ro_source\<close> is what \<open>getRuntimeState()\<close> answers now; it changes freely, and the listener may or may not be told.
  A waiting caller is its number; its timer and its abort signal are events.  \<open>ro_invalidated\<close> and \<open>ro_settled\<close> are history
  variables: the generations passed to \<open>invalidate\<close> and the callers answered, in order.
\<close>

section \<open>State\<close>

datatype launch_view = LaunchStopped | LaunchStarting | LaunchRunning string | LaunchFailed

datatype owner_error = OwnerPeer string | OwnerManaged string | OwnerOther  \<comment> \<open>\<open>PeerHelperError\<close>, \<open>ManagedHarnessRuntimeError\<close>, any other\<close>

record binding =
  bn_generation :: int
  bn_url :: string

record runtime_owner =
  ro_source :: launch_view
  ro_binding :: "binding option"
  ro_generation :: int
  ro_starting :: bool
  ro_closed :: bool
  ro_waiters :: "nat list"
  ro_issued :: nat
  ro_invalidated :: "int list"
  ro_settled :: "(nat \<times> (owner_error + binding)) list"

definition OWNER_ERROR_CODES :: "string list" where
  "OWNER_ERROR_CODES = [''runtime.owner_unavailable'', ''runtime.owner_identity_mismatch'', ''runtime.owner_record_invalid'',
     ''runtime.owner_protocol_unsupported'', ''runtime.owner_configuration_invalid'', ''runtime.owner_shutdown_failed'']"

definition runtimeOwnerError :: "owner_error \<Rightarrow> string option" where
  \<comment> \<open>the code of the typed owner error, if it is one\<close>
  "runtimeOwnerError e =
     (case e of
        OwnerPeer code \<Rightarrow> if code \<in> set OWNER_ERROR_CODES then Some code else None
      | OwnerManaged code \<Rightarrow> if code \<in> set OWNER_ERROR_CODES then Some code else None
      | OwnerOther \<Rightarrow> None)"

section \<open>Operations\<close>

definition settle_all :: "owner_error + binding \<Rightarrow> runtime_owner \<Rightarrow> runtime_owner" where
  "settle_all r s = s\<lparr>ro_waiters := [], ro_settled := ro_settled s @ map (\<lambda>w. (w, r)) (ro_waiters s)\<rparr>"

definition reject_all :: "owner_error \<Rightarrow> runtime_owner \<Rightarrow> runtime_owner" where
  "reject_all e = settle_all (Inl e)"

definition retire :: "runtime_owner \<Rightarrow> runtime_owner" where
  "retire s =
     (case ro_binding s of
        None \<Rightarrow> s
      | Some b \<Rightarrow> s\<lparr>ro_binding := None, ro_invalidated := ro_invalidated s @ [bn_generation b]\<rparr>)"

definition runtime_unavailable :: owner_error where
  "runtime_unavailable = OwnerPeer ''p2p.runtime_unavailable''"

definition bind_url :: "string \<Rightarrow> runtime_owner \<Rightarrow> runtime_owner" where
  "bind_url url s =
     (if map_option bn_url (ro_binding s) = Some url then s
      else (let s1 = retire s in
            s1\<lparr>ro_generation := ro_generation s1 + 1, ro_binding := Some \<lparr>bn_generation = ro_generation s1 + 1, bn_url = url\<rparr>\<rparr>))"

definition accept_state :: "launch_view \<Rightarrow> runtime_owner \<Rightarrow> runtime_owner" where
  "accept_state st s =
     (if ro_closed s then s
      else case st of
        LaunchRunning url \<Rightarrow>
          (let s1 = bind_url url s in
           case ro_binding s1 of None \<Rightarrow> s1 | Some b \<Rightarrow> settle_all (Inr b) s1)
      | LaunchStarting \<Rightarrow> retire s
      | _ \<Rightarrow> (let s1 = retire s in if ro_starting s1 then s1 else reject_all runtime_unavailable s1))"

definition new_owner :: "launch_view \<Rightarrow> runtime_owner" where
  "new_owner st = accept_state st \<lparr>ro_source = st, ro_binding = None, ro_generation = 0, ro_starting = False, ro_closed = False,
     ro_waiters = [], ro_issued = 0, ro_invalidated = [], ro_settled = []\<rparr>"

datatype owner_reply = Resolved binding | Rejected owner_error | WaitsAs nat

definition enqueue :: "launch_view list \<Rightarrow> runtime_owner \<Rightarrow> owner_reply \<times> runtime_owner" where
  \<comment> \<open>\<open>#wait\<close> and the start it may trigger; \<open>during\<close> are the events \<open>start()\<close> delivers before it returns its promise\<close>
  "enqueue during s =
     (let w = ro_issued s;
          s1 = s\<lparr>ro_waiters := ro_waiters s @ [w], ro_issued := Suc w\<rparr>;
          s2 = (if ro_source s1 \<noteq> LaunchStarting \<and> \<not> ro_starting s1
                then (fold accept_state during s1)\<lparr>ro_starting := True\<rparr> else s1)
      in (WaitsAs w, s2))"

definition owner_connect :: "bool \<Rightarrow> launch_view list \<Rightarrow> runtime_owner \<Rightarrow> owner_reply \<times> runtime_owner" where
  "owner_connect aborted during s =
     (if ro_closed s then (Rejected (OwnerPeer ''p2p.runtime_owner_closed''), s)
      else if aborted then (Rejected (OwnerPeer ''p2p.request_cancelled''), s)
      else case ro_binding s of
        None \<Rightarrow> enqueue during s
      | Some b \<Rightarrow>
          if ro_source s = LaunchRunning (bn_url b) then (Resolved b, s)
          else (let s1 = accept_state (ro_source s) s in
                case ro_binding s1 of Some b' \<Rightarrow> (Resolved b', s1) | None \<Rightarrow> enqueue during s1))"

definition start_settled :: "owner_error option \<Rightarrow> runtime_owner \<Rightarrow> runtime_owner" where
  \<comment> \<open>the continuation of \<open>source.start()\<close>\<close>
  "start_settled failure s =
     (if \<not> ro_starting s then s
      else
       (let s1 = (case failure of
                    None \<Rightarrow> (if ro_source s \<in> {LaunchStopped, LaunchFailed} then reject_all runtime_unavailable s else s)
                  | Some e \<Rightarrow> reject_all (case runtimeOwnerError e of None \<Rightarrow> e | Some code \<Rightarrow> OwnerPeer code) s)
        in s1\<lparr>ro_starting := False\<rparr>))"

definition owner_resume :: "bool \<Rightarrow> runtime_owner \<Rightarrow> owner_reply \<times> runtime_owner" where
  "owner_resume aborted s =
     (if ro_closed s then (Rejected (OwnerPeer ''p2p.runtime_owner_closed''), s)
      else if aborted then (Rejected (OwnerPeer ''p2p.request_cancelled''), s)
      else (let s1 = accept_state (ro_source s) s in
            case ro_binding s1 of None \<Rightarrow> (Rejected runtime_unavailable, s1) | Some b \<Rightarrow> (Resolved b, s1)))"

definition owner_close :: "runtime_owner \<Rightarrow> runtime_owner" where
  "owner_close s =
     (if ro_closed s then s
      else retire (reject_all (OwnerPeer ''p2p.runtime_owner_closed'') (s\<lparr>ro_closed := True\<rparr>)))"

definition owner_assertCurrent :: "binding \<Rightarrow> runtime_owner \<Rightarrow> bool \<times> runtime_owner" where
  \<comment> \<open>\<open>False\<close> is the refusal \<open>p2p.runtime_invalidated\<close>\<close>
  "owner_assertCurrent b s =
     (if ro_closed s then (False, s)
      else (let s1 = accept_state (ro_source s) s in (ro_binding s1 = Some b, s1)))"

definition waiter_cancelled :: "nat \<Rightarrow> string \<Rightarrow> runtime_owner \<Rightarrow> runtime_owner" where
  \<comment> \<open>its timer (\<open>p2p.runtime_timeout\<close>) or its abort signal (\<open>p2p.request_cancelled\<close>)\<close>
  "waiter_cancelled w code s =
     (if w \<in> set (ro_waiters s)
      then s\<lparr>ro_waiters := removeAll w (ro_waiters s), ro_settled := ro_settled s @ [(w, Inl (OwnerPeer code))]\<rparr> else s)"

inductive owner_step :: "runtime_owner \<Rightarrow> runtime_owner \<Rightarrow> bool" where
  source_changes: "owner_step s (s\<lparr>ro_source := st\<rparr>)"
| source_event: "owner_step s (accept_state st s)"
| do_connect: "owner_step s (snd (owner_connect aborted during s))"
| do_start_settled: "owner_step s (start_settled failure s)"
| do_resume: "owner_step s (snd (owner_resume aborted s))"
| do_assert: "owner_step s (snd (owner_assertCurrent b s))"
| do_cancel: "owner_step s (waiter_cancelled w code s)"
| do_close: "owner_step s (owner_close s)"

inductive_cases owner_stepE [elim!]: "owner_step s s'"

section \<open>Invariant\<close>

definition owner_ok :: "runtime_owner \<Rightarrow> bool" where
  "owner_ok s \<longleftrightarrow>
     0 \<le> ro_generation s \<and>
     (case ro_binding s of
        None \<Rightarrow> ro_invalidated s = [1..ro_generation s]
      | Some b \<Rightarrow> bn_generation b = ro_generation s \<and> 1 \<le> ro_generation s \<and> ro_invalidated s = [1..ro_generation s - 1] \<and>
          ro_waiters s = []) \<and>
     distinct (ro_waiters s @ map fst (ro_settled s)) \<and>
     set (ro_waiters s) \<union> set (map fst (ro_settled s)) = {0..<ro_issued s}"

lemma ok_settle_all: "owner_ok s \<Longrightarrow> owner_ok (settle_all r s)"
  by (auto simp: owner_ok_def settle_all_def comp_def split: option.split)

lemma ok_retire: "owner_ok s \<Longrightarrow> owner_ok (retire s)"
  by (auto simp: owner_ok_def retire_def upto_rec2 split: option.splits)

lemma retire_unbound [simp]: "ro_binding (retire s) = None"
  by (simp add: retire_def split: option.split)

lemma retire_frame [simp]: "ro_waiters (retire s) = ro_waiters s" "ro_closed (retire s) = ro_closed s" "ro_starting (retire s) = ro_starting s"
  "ro_source (retire s) = ro_source s" "ro_generation (retire s) = ro_generation s"
  by (simp_all add: retire_def split: option.split)

lemma bind_url_bound: "\<exists>b. ro_binding (bind_url url s) = Some b \<and> bn_url b = url"
  by (cases "ro_binding s") (auto simp: bind_url_def Let_def)

lemma ok_bind: "owner_ok s \<Longrightarrow> ro_binding (bind_url url s) = Some b \<Longrightarrow> owner_ok (settle_all (Inr b) (bind_url url s))"
proof (cases "map_option bn_url (ro_binding s) = Some url")
  case True
  then show "owner_ok s \<Longrightarrow> ?thesis" by (simp add: bind_url_def ok_settle_all)
next
  case False
  assume "owner_ok s"
  then have "owner_ok (retire s)" by (rule ok_retire)
  then show ?thesis using False
    by (auto simp: bind_url_def Let_def owner_ok_def settle_all_def comp_def)
qed

lemma ok_accept:
  assumes "owner_ok s"
  shows "owner_ok (accept_state st s)"
proof (cases st)
  case (LaunchRunning url)
  obtain b where "ro_binding (bind_url url s) = Some b" using bind_url_bound by blast
  then show ?thesis using ok_bind [OF assms] assms by (simp add: accept_state_def LaunchRunning)
qed (simp_all add: accept_state_def assms ok_retire ok_settle_all reject_all_def Let_def)

lemma settle_all_frame [simp]: "ro_binding (settle_all r s) = ro_binding s" "ro_source (settle_all r s) = ro_source s"
  by (simp_all add: settle_all_def)

lemma accept_running:
  assumes "\<not> ro_closed s" "ro_binding (accept_state st s) = Some b"
  shows "st = LaunchRunning (bn_url b)"
proof (cases st)
  case (LaunchRunning url)
  then show ?thesis using assms bind_url_bound [of url s] by (auto simp: accept_state_def Let_def)
qed (use assms in \<open>auto simp: accept_state_def Let_def reject_all_def split: if_splits\<close>)

lemma ok_accepts: "owner_ok s \<Longrightarrow> owner_ok (fold accept_state sts s)"
  by (induction sts arbitrary: s) (auto intro: ok_accept)

lemma ok_updates [simp]: "owner_ok (s\<lparr>ro_source := st\<rparr>) = owner_ok s" "owner_ok (s\<lparr>ro_starting := b\<rparr>) = owner_ok s"
  "owner_ok (s\<lparr>ro_closed := b\<rparr>) = owner_ok s"
  by (simp_all add: owner_ok_def split: option.split)

lemma ok_enqueue: "owner_ok s \<Longrightarrow> ro_binding s = None \<Longrightarrow> owner_ok (snd (enqueue during s))"
proof -
  assume ok: "owner_ok s" and none: "ro_binding s = None"
  have "ro_issued s \<notin> {0..<ro_issued s}" by simp
  then have "owner_ok (s\<lparr>ro_waiters := ro_waiters s @ [ro_issued s], ro_issued := Suc (ro_issued s)\<rparr>)"
    using ok none by (auto simp: owner_ok_def atLeast0_lessThan_Suc)
  then show ?thesis by (simp add: enqueue_def Let_def ok_accepts)
qed

lemma ok_connect: "owner_ok s \<Longrightarrow> owner_ok (snd (owner_connect aborted during s))"
  by (auto simp: owner_connect_def Let_def ok_enqueue ok_accept split: option.split)

lemma ok_start_settled: "owner_ok s \<Longrightarrow> owner_ok (start_settled failure s)"
  by (auto simp: start_settled_def Let_def reject_all_def ok_settle_all split: option.split)

lemma ok_cancel: "owner_ok s \<Longrightarrow> owner_ok (waiter_cancelled w code s)"
  by (auto simp: owner_ok_def waiter_cancelled_def distinct_removeAll split: option.splits)

lemma ok_close: "owner_ok s \<Longrightarrow> owner_ok (owner_close s)"
  by (simp add: owner_close_def reject_all_def ok_retire ok_settle_all)

interpretation owner: transition_system "\<lambda>s. \<exists>st. s = new_owner st" owner_step owner_ok
proof
  show "owner_ok s" if "\<exists>st. s = new_owner st" for s
    using that by (auto simp: new_owner_def intro!: ok_accept) (simp add: owner_ok_def)
  show "owner_ok s'" if "owner_step s s'" "owner_ok s" for s s'
    using that by (auto simp: owner_resume_def owner_assertCurrent_def Let_def
        intro: ok_accept ok_connect ok_start_settled ok_cancel ok_close split: option.split)
qed

section \<open>What the owner guarantees\<close>

text \<open>
  Bindings are numbered and retired in order, and every caller is answered once.  In every reachable state
  the generations passed to \<open>invalidate\<close> are 1, 2, ... without gap or repetition up to the current binding, which is
  not among them; nobody waits while a binding exists; and every caller that was told to wait is either still
  waiting or has been answered, exactly once.
\<close>

lemma owner_generations:
  assumes "owner_step\<^sup>*\<^sup>* (new_owner st) s"
  shows "(case ro_binding s of
      None \<Rightarrow> ro_invalidated s = [1..ro_generation s]
    | Some b \<Rightarrow> bn_generation b = ro_generation s \<and> ro_invalidated s = [1..ro_generation s - 1] \<and> ro_waiters s = []) \<and>
    distinct (ro_waiters s @ map fst (ro_settled s)) \<and>
    set (ro_waiters s) \<union> set (map fst (ro_settled s)) = {0..<ro_issued s}"
  using owner.inv_reached [OF exI [of _ st, OF refl] assms] by (auto simp: owner_ok_def split: option.splits)

definition sample_owner :: runtime_owner where
  "sample_owner = accept_state LaunchStopped (accept_state (LaunchRunning ''http://127.0.0.1:2/'')
     (snd (owner_connect False [LaunchStarting] (new_owner LaunchStopped))))"

lemma owner_generations_witness:
  "ro_invalidated sample_owner = [1..ro_generation sample_owner] \<and> ro_generation sample_owner = 1 \<and>
   ro_settled sample_owner = [(0, Inr \<lparr>bn_generation = 1, bn_url = ''http://127.0.0.1:2/''\<rparr>)]"
proof -
  let ?s1 = "snd (owner_connect False [LaunchStarting] (new_owner LaunchStopped))"
  let ?s2 = "accept_state (LaunchRunning ''http://127.0.0.1:2/'') ?s1"
  have "owner_step (new_owner LaunchStopped) ?s1" "owner_step ?s1 ?s2" "owner_step ?s2 sample_owner"
    unfolding sample_owner_def by (rule owner_step.intros)+
  then have "owner_step\<^sup>*\<^sup>* (new_owner LaunchStopped) sample_owner"
    by (meson rtranclp.rtrancl_into_rtrancl rtranclp.rtrancl_refl)
  moreover have "ro_binding sample_owner = None" "ro_generation sample_owner = 1"
    "ro_settled sample_owner = [(0, Inr \<lparr>bn_generation = 1, bn_url = ''http://127.0.0.1:2/''\<rparr>)]" by code_simp+
  ultimately show ?thesis using owner_generations by fastforce
qed

lemma owner_connect_resolved:
  assumes "owner_connect aborted during s = (Resolved b, s')"
  shows "ro_source s = LaunchRunning (bn_url b) \<and> ro_binding s' = Some b"
  using assms accept_running [of s "ro_source s"]
  by (auto simp: owner_connect_def enqueue_def Let_def split: if_splits option.splits)

lemma owner_resume_resolved:
  assumes "owner_resume aborted s = (Resolved b, s')"
  shows "ro_source s = LaunchRunning (bn_url b) \<and> ro_binding s' = Some b"
  using assms accept_running [of s "ro_source s"] by (auto simp: owner_resume_def Let_def split: if_splits option.splits)

lemma owner_assert_current:
  assumes "owner_assertCurrent b s = (True, s')"
  shows "ro_source s = LaunchRunning (bn_url b) \<and> ro_binding s' = Some b"
  using assms accept_running [of s "ro_source s"] by (auto simp: owner_assertCurrent_def Let_def split: if_splits)

text \<open>
  A binding that is handed out runs now.  Whenever \<open>connect\<close> or \<open>resume\<close> answers at once and whenever
  \<open>assertCurrent\<close> lets a binding pass, the child process is running at that binding's URL at that moment, even if
  the owner was never told of a crash or a restart.
\<close>

lemma binding_runs_now:
  assumes "owner_connect aborted during s = (Resolved b, s') \<or> owner_resume aborted s = (Resolved b, s') \<or>
    owner_assertCurrent b s = (True, s')"
  shows "ro_source s = LaunchRunning (bn_url b) \<and> ro_binding s' = Some b"
  using assms owner_connect_resolved owner_resume_resolved owner_assert_current by blast

lemma binding_runs_now_witness:
  "ro_source (new_owner (LaunchRunning ''http://127.0.0.1:2/'')) = LaunchRunning ''http://127.0.0.1:2/''"
proof -
  let ?s = "new_owner (LaunchRunning ''http://127.0.0.1:2/'')" and ?b = "\<lparr>bn_generation = 1, bn_url = ''http://127.0.0.1:2/''\<rparr>"
  have "owner_connect False [] ?s = (Resolved ?b, ?s)" by code_simp
  then show ?thesis using binding_runs_now [of False "[]" ?s ?b ?s] by simp
qed

end
