(* ===== verification/Runtime_Host.thy ===== *)
theory Runtime_Host
  imports Runtime_Owner Peer_Session
begin

text \<open>
  The host of the peer state machine in main (\<open>electron/main/p2p/runtime-host.ts\<close>): it serves the core's callbacks,
  records the reported connection states, and hands out the local workbench to authorized peers.

  A call is cut at its awaits: the number of its promise, and the task it waits with.  A moment (\<open>host_moment\<close>) is what a resumed task reads of the
  world: what \<open>catalog.inspect()\<close> gave, whether its signal is aborted, what the caller's \<open>assertCurrent\<close> says, what
  \<open>rootsProvider\<close> gave, whether the call to the core failed, and the runtime events delivered while \<open>start()\<close> runs.  An entry of \<open>#states\<close> carries
  the number of the promise that made it, which stands for the identity of the object.  \<open>rh_done\<close>, \<open>rh_recorded\<close>, \<open>rh_notices\<close> and \<open>rh_calls\<close>
  are history variables: the settled promises, the states recorded, the listeners called, and the invalidations sent.
\<close>

section \<open>State\<close>

record host_entry =
  en_ref :: nat
  en_service :: string
  en_state :: helper_state

record admission =
  am_service :: string
  am_state :: helper_state
  am_reply :: "host_entry option option"   \<comment> \<open>\<open>None\<close>: a callback; \<open>Some previous\<close>: the reply to a connect\<close>

record runtime_request =
  rq_service :: string
  rq_pair :: string
  rq_method :: string

datatype host_task =
    StartInspect
  | AdmitQueued admission nat
  | AdmitInspect admission "string option"
  | AdmitPair admission "string option"
  | RuntimeInspect runtime_request "string option"
  | RuntimePair runtime_request "string option"
  | RuntimeBinding runtime_request owner_reply
  | BindingInspect runtime_request binding "string option"
  | BindingPair runtime_request binding "string option"
  | AwaitRoots
  | AwaitInvalidate int

datatype host_answer = AnsEmpty | AnsRoots "js_value list" | AnsBinding binding | AnsChannel | AnsShares nat

datatype host_outcome = HostPending host_task | HostAnswered host_answer | HostThrew peer_error

datatype host_notice = DirectoryChange string | CatalogChange string string | HostUnavailable

record host_moment =
  hm_saved :: "peer_catalog option peer_result"
  hm_aborted :: bool
  hm_current :: "unit peer_result"
  hm_roots :: "js_value list peer_result"
  hm_failed :: bool
  hm_during :: "launch_view list"

record runtime_host =
  rh_channel :: bool          \<comment> \<open>\<open>options.channel\<close> is present\<close>
  rh_sharesRoots :: bool      \<comment> \<open>\<open>options.rootsProvider\<close> is present\<close>
  rh_owner :: runtime_owner
  rh_aborted :: bool
  rh_services :: "string list"
  rh_states :: "(string \<times> host_entry) list"
  rh_revisions :: "(string \<times> string) list"
  rh_admissions :: "(string \<times> nat) list"
  rh_attempts :: "(string \<times> string list) list"
  rh_attached :: bool
  rh_starting :: "nat option"
  rh_closing :: bool
  rh_failure :: "string option"
  rh_prepared :: "(string \<times> string \<times> host_entry option) list"
  rh_tasks :: "(nat \<times> host_task) list"
  rh_issued :: nat
  rh_done :: "(nat \<times> (peer_error + host_answer)) list"
  rh_recorded :: "(string \<times> nat \<times> helper_state) list"
  rh_notices :: "host_notice list"
  rh_calls :: "(string \<times> int) list"

definition new_host :: "bool \<Rightarrow> bool \<Rightarrow> launch_view \<Rightarrow> runtime_host" where
  "new_host channel roots st =
     \<lparr>rh_channel = channel, rh_sharesRoots = roots, rh_owner = new_owner st, rh_aborted = False, rh_services = [], rh_states = [],
      rh_revisions = [], rh_admissions = [], rh_attempts = [], rh_attached = False, rh_starting = None, rh_closing = False,
      rh_failure = None, rh_prepared = [], rh_tasks = [], rh_issued = 0, rh_done = [], rh_recorded = [], rh_notices = [], rh_calls = []\<rparr>"

section \<open>Admission and authorization\<close>

definition host_admit :: "bool \<Rightarrow> runtime_host \<Rightarrow> unit peer_result" where
  "host_admit aborted s =
     (case rh_failure s of
        Some code \<Rightarrow> peer_fail code
      | None \<Rightarrow>
          if rh_aborted s then peer_fail ''p2p.helper_closed''
          else if aborted then peer_fail ''p2p.request_cancelled''
          else Inr ())"

definition revision_current :: "string \<Rightarrow> string option \<Rightarrow> runtime_host \<Rightarrow> unit peer_result" where
  \<comment> \<open>the closure \<open>assertCurrent\<close> of \<open>#authorize\<close>\<close>
  "revision_current serviceId revision s = (if map_of (rh_revisions s) serviceId = revision then Inr () else stale_generation)"

definition pair_active :: "string \<Rightarrow> string \<Rightarrow> peer_catalog \<Rightarrow> bool" where
  "pair_active serviceId pairId r \<longleftrightarrow>
     list_ex (\<lambda>v. js_field v ''serviceId'' = JStr serviceId) (pc_services r) \<and>
     list_ex (\<lambda>v. js_field v ''serviceId'' = JStr serviceId \<and> js_field v ''pairId'' = JStr pairId \<and>
        js_field v ''pairState'' = JStr ''active'') (pc_computers r)"

definition authorize_saved ::
    "string \<Rightarrow> string \<Rightarrow> string option \<Rightarrow> peer_catalog option peer_result \<Rightarrow> runtime_host \<Rightarrow> unit peer_result" where
  "authorize_saved serviceId pairId revision saved s =
     bind_result saved (\<lambda>found. bind_result (revision_current serviceId revision s) (\<lambda>_.
       case found of
         None \<Rightarrow> peer_fail ''p2p.not_enabled''
       | Some r \<Rightarrow>
           if serviceId \<in> set (pc_forgotten r) then peer_fail ''p2p.trust_restore_rejected''
           else if \<not> pair_active serviceId pairId r then peer_fail ''p2p.pair_unauthorized''
           else Inr ()))"

section \<open>Attempts\<close>

definition sawAttempt :: "string \<Rightarrow> string \<Rightarrow> runtime_host \<Rightarrow> bool" where
  "sawAttempt key attemptId s \<longleftrightarrow> attemptId \<in> set (case map_of (rh_attempts s) key of None \<Rightarrow> [] | Some seen \<Rightarrow> seen)"

definition remember_in :: "string \<Rightarrow> string list \<Rightarrow> string list" where
  \<comment> \<open>\<open>[...seen, attemptId].slice(-4)\<close>\<close>
  "remember_in attemptId seen =
     (if attemptId \<in> set seen then seen else (let ys = seen @ [attemptId] in drop (length ys - 4) ys))"

definition rememberAttempt :: "string \<Rightarrow> string \<Rightarrow> runtime_host \<Rightarrow> runtime_host" where
  "rememberAttempt key attemptId s =
     s\<lparr>rh_attempts := AList.update key (remember_in attemptId (case map_of (rh_attempts s) key of None \<Rightarrow> [] | Some seen \<Rightarrow> seen)) (rh_attempts s)\<rparr>"

section \<open>The runtime owner\<close>

definition send_invalidate :: "int \<Rightarrow> runtime_host \<Rightarrow> runtime_host" where
  \<comment> \<open>\<open>#invalidate\<close> up to its await\<close>
  "send_invalidate generation s =
     (if rh_aborted s \<or> \<not> rh_channel s then s
      else s\<lparr>rh_tasks := AList.update (rh_issued s) (AwaitInvalidate generation) (rh_tasks s), rh_issued := Suc (rh_issued s),
             rh_calls := rh_calls s @ map (\<lambda>serviceId. (serviceId, generation)) (rh_services s)\<rparr>)"

definition with_owner :: "runtime_owner \<Rightarrow> runtime_host \<Rightarrow> runtime_host" where
  \<comment> \<open>an operation of the owner and the invalidations it reports\<close>
  "with_owner o' s = fold send_invalidate (drop (length (ro_invalidated (rh_owner s))) (ro_invalidated o')) (s\<lparr>rh_owner := o'\<rparr>)"

definition owner_failure :: "owner_error \<Rightarrow> peer_error" where
  "owner_failure e = (case e of OwnerPeer code \<Rightarrow> PeerHelperError code | _ \<Rightarrow> HostError)"

definition binding_reply :: "owner_reply \<Rightarrow> runtime_owner \<Rightarrow> (owner_error + binding) option" where
  \<comment> \<open>what the promise of \<open>connect\<close> or \<open>resume\<close> is settled with, if it is\<close>
  "binding_reply r s = (case r of Resolved b \<Rightarrow> Some (Inr b) | Rejected e \<Rightarrow> Some (Inl e) | WaitsAs w \<Rightarrow> map_of (ro_settled s) w)"

section \<open>The end of the host\<close>

definition fail_entry :: "string \<Rightarrow> host_entry \<Rightarrow> host_entry" where
  "fail_entry code e = e\<lparr>en_state := (en_state e)\<lparr>hs_stage := PeerFailed, hs_error := code\<rparr>\<rparr>"

definition unavailable :: "string \<Rightarrow> runtime_host \<Rightarrow> runtime_host" where
  "unavailable code s =
     (if rh_aborted s then s
      else
       (let failure = (case rh_failure s of None \<Rightarrow> code | Some c \<Rightarrow> c) in
        s\<lparr>rh_failure := Some failure, rh_aborted := True, rh_owner := owner_close (rh_owner s),
          rh_states := map (\<lambda>(k, e). (k, fail_entry failure e)) (rh_states s), rh_notices := rh_notices s @ [HostUnavailable]\<rparr>))"

definition stop :: "runtime_host \<Rightarrow> runtime_host" where
  "stop s = s\<lparr>rh_aborted := True, rh_owner := owner_close (rh_owner s), rh_attached := False, rh_services := [], rh_states := [],
     rh_revisions := [], rh_admissions := []\<rparr>"

definition close_host :: "runtime_host \<Rightarrow> runtime_host" where
  "close_host s = (if rh_closing s then s else (stop s)\<lparr>rh_closing := True\<rparr>)"

definition failClosed :: "string \<Rightarrow> runtime_host \<Rightarrow> runtime_host" where
  "failClosed code s = close_host (unavailable code s)"

definition channel_died :: "string \<Rightarrow> runtime_host \<Rightarrow> runtime_host" where
  \<comment> \<open>the observer \<open>#attach\<close> registers\<close>
  "channel_died code s = (if rh_attached s then unavailable code (s\<lparr>rh_attached := False\<rparr>) else s)"

definition snapshot :: "runtime_host \<Rightarrow> string \<times> (string \<times> helper_state) list" where
  "snapshot s = (case rh_failure s of None \<Rightarrow> [] | Some code \<Rightarrow> code, map (\<lambda>(_, e). (en_service e, en_state e)) (rh_states s))"

section \<open>Recording a state\<close>

definition reply_current :: "admission \<Rightarrow> host_moment \<Rightarrow> unit peer_result" where
  "reply_current a m = (if am_reply a = None then Inr () else hm_current m)"

definition admission_key :: "admission \<Rightarrow> string" where
  "admission_key a = pair_key (am_service a) (hs_pairId (am_state a))"

definition admit_begin :: "admission \<Rightarrow> host_moment \<Rightarrow> runtime_host \<Rightarrow> host_outcome" where
  "admit_begin a m s =
     (case bind_result (host_admit (hm_aborted m) s) (\<lambda>_. reply_current a m) of
        Inl e \<Rightarrow> HostThrew e
      | Inr _ \<Rightarrow> HostPending (AdmitInspect a (map_of (rh_revisions s) (am_service a))))"

definition admit_inspected :: "admission \<Rightarrow> string option \<Rightarrow> host_moment \<Rightarrow> runtime_host \<Rightarrow> host_outcome" where
  "admit_inspected a revision m s =
     (case authorize_saved (am_service a) (hs_pairId (am_state a)) revision (hm_saved m) s of
        Inl e \<Rightarrow> HostThrew e
      | Inr _ \<Rightarrow> HostPending (AdmitPair a revision))"

definition attempt_of :: "host_entry option \<Rightarrow> (string \<times> int) option" where
  "attempt_of p = map_option (\<lambda>e. (hs_attemptId (en_state e), hs_generation (en_state e))) p"

definition reply_verdict :: "admission \<Rightarrow> host_entry option \<Rightarrow> bool peer_result" where
  \<comment> \<open>\<open>Inr False\<close>: the reply only confirms what a callback already recorded; \<open>Inr True\<close>: go on\<close>
  "reply_verdict a previous =
     (case am_reply a of
        None \<Rightarrow> Inr True
      | Some before \<Rightarrow>
          if map_option en_ref previous = map_option en_ref before then Inr True
          else if attempt_of previous = Some (hs_attemptId (am_state a), hs_generation (am_state a)) then Inr False
          else if attempt_of previous \<noteq> attempt_of before then stale_generation
          else Inr True)"

definition admit_progress :: "admission \<Rightarrow> host_entry option \<Rightarrow> runtime_host \<Rightarrow> unit peer_result" where
  "admit_progress a previous s =
     (case previous of
        None \<Rightarrow> Inr ()
      | Some p \<Rightarrow>
          if hs_attemptId (am_state a) \<noteq> hs_attemptId (en_state p) \<and> sawAttempt (admission_key a) (hs_attemptId (am_state a)) s
          then stale_generation else assertStateProgress (en_state p) (am_state a))"

definition record_entry :: "nat \<Rightarrow> admission \<Rightarrow> runtime_host \<Rightarrow> runtime_host" where
  "record_entry n a s =
     (let key = admission_key a; s1 = rememberAttempt key (hs_attemptId (am_state a)) s in
      s1\<lparr>rh_states := AList.update key \<lparr>en_ref = n, en_service = am_service a, en_state = am_state a\<rparr> (rh_states s1),
         rh_recorded := rh_recorded s1 @ [(key, n, am_state a)]\<rparr>)"

definition admit_pair :: "nat \<Rightarrow> admission \<Rightarrow> string option \<Rightarrow> host_moment \<Rightarrow> runtime_host \<Rightarrow> host_outcome \<times> runtime_host" where
  "admit_pair n a revision m s =
     (let previous = map_of (rh_states s) (admission_key a) in
      case bind_result (host_admit (hm_aborted m) s) (\<lambda>_. bind_result (reply_current a m) (\<lambda>_.
             bind_result (revision_current (am_service a) revision s) (\<lambda>_. reply_verdict a previous))) of
        Inl e \<Rightarrow> (HostThrew e, s)
      | Inr False \<Rightarrow> (HostAnswered AnsEmpty, s)
      | Inr True \<Rightarrow>
          (case admit_progress a previous s of
             Inl e \<Rightarrow> (HostThrew e, s)
           | Inr _ \<Rightarrow> (HostAnswered AnsEmpty, record_entry n a s)))"

definition recordState :: "nat \<Rightarrow> admission \<Rightarrow> host_moment \<Rightarrow> runtime_host \<Rightarrow> host_outcome \<times> runtime_host" where
  \<comment> \<open>runs at once, or behind the admission of the same pair that is still going on\<close>
  "recordState n a m s =
     (let s1 = s\<lparr>rh_admissions := AList.update (admission_key a) n (rh_admissions s)\<rparr> in
      case map_of (rh_admissions s) (admission_key a) of
        None \<Rightarrow> (admit_begin a m s, s1)
      | Some prior \<Rightarrow> (HostPending (AdmitQueued a prior), s1))"

section \<open>Callbacks\<close>

definition valid_root :: "js_value \<Rightarrow> bool" where
  "valid_root v \<longleftrightarrow>
     (case (js_field v ''rootId'', js_field v ''name'', js_field v ''path'') of
        (JStr i, JStr n, JStr p) \<Rightarrow>
          i \<noteq> [] \<and> length i \<le> 128 \<and> n \<noteq> [] \<and> length n \<le> 256 \<and> p \<noteq> [] \<and> length p \<le> 4096
      | _ \<Rightarrow> False)"

definition share_roots :: "js_value list \<Rightarrow> host_answer peer_result" where
  "share_roots roots =
     (if \<not> list_all valid_root roots \<or> \<not> distinct (map (\<lambda>v. js_field v ''rootId'') roots)
      then peer_fail ''p2p.invalid_roots'' else Inr (AnsRoots roots))"

definition outcome_of :: "host_answer peer_result \<Rightarrow> host_outcome" where
  "outcome_of r = (case r of Inl e \<Rightarrow> HostThrew e | Inr v \<Rightarrow> HostAnswered v)"

definition directory_changed :: "js_value \<Rightarrow> runtime_host \<Rightarrow> host_outcome \<times> runtime_host" where
  "directory_changed payload s =
     (case bind_result (exactPeerObject payload [''serviceId'', ''revision'']) (\<lambda>changed.
           bind_result (assertAccountId (js_field changed ''serviceId'') 12) (\<lambda>serviceId.
             if positive_integer (js_field changed ''revision'') 0 then Inr serviceId else peer_fail ''p2p.invalid_payload'')) of
        Inl e \<Rightarrow> (HostThrew e, s)
      | Inr serviceId \<Rightarrow> (HostAnswered AnsEmpty, s\<lparr>rh_notices := rh_notices s @ [DirectoryChange serviceId]\<rparr>))"

definition catalog_changed :: "js_value \<Rightarrow> runtime_host \<Rightarrow> host_outcome \<times> runtime_host" where
  "catalog_changed payload s =
     (case bind_result (exactPeerObject payload [''serviceId'', ''revision'']) (\<lambda>changed.
           bind_result (assertAccountId (js_field changed ''serviceId'') 12) (\<lambda>serviceId.
             case js_field changed ''revision'' of
               JStr revision \<Rightarrow> (if length revision = 64 \<and> is_hex revision then Inr (serviceId, revision) else peer_fail ''p2p.invalid_payload'')
             | _ \<Rightarrow> peer_fail ''p2p.invalid_payload'')) of
        Inl e \<Rightarrow> (HostThrew e, s)
      | Inr (serviceId, revision) \<Rightarrow>
          (HostAnswered AnsEmpty, s\<lparr>rh_revisions := AList.update serviceId revision (rh_revisions s),
             rh_notices := rh_notices s @ [CatalogChange serviceId revision]\<rparr>))"

definition runtime_roots :: "js_value \<Rightarrow> runtime_host \<Rightarrow> host_outcome" where
  "runtime_roots payload s =
     (case bind_result (exactPeerObject payload [''serviceId'']) (\<lambda>asked. assertAccountId (js_field asked ''serviceId'') 12) of
        Inl e \<Rightarrow> HostThrew e
      | Inr _ \<Rightarrow> if rh_sharesRoots s then HostPending AwaitRoots else outcome_of (share_roots []))"

definition peer_state :: "nat \<Rightarrow> js_value \<Rightarrow> host_moment \<Rightarrow> runtime_host \<Rightarrow> host_outcome \<times> runtime_host" where
  "peer_state n payload m s =
     (case bind_result (exactPeerObject payload [''serviceId'', ''state'']) (\<lambda>fields.
           bind_result (assertAccountId (js_field fields ''serviceId'') 12) (\<lambda>serviceId.
           bind_result (parseHelperState (js_field fields ''state'')) (\<lambda>state.
           bind_result (assertAccountId (JStr (hs_pairId state)) 12) (\<lambda>_.
             Inr \<lparr>am_service = serviceId, am_state = state, am_reply = None\<rparr>)))) of
        Inl e \<Rightarrow> (HostThrew e, s)
      | Inr a \<Rightarrow> recordState n a m s)"

definition runtime_asked :: "string \<Rightarrow> js_value \<Rightarrow> runtime_host \<Rightarrow> host_outcome" where
  "runtime_asked operation payload s =
     (case bind_result (exactPeerObject payload [''serviceId'', ''pairId'']) (\<lambda>fields.
           bind_result (assertAccountId (js_field fields ''serviceId'') 12) (\<lambda>serviceId.
           bind_result (assertAccountId (js_field fields ''pairId'') 12) (\<lambda>pairId.
             Inr \<lparr>rq_service = serviceId, rq_pair = pairId, rq_method = operation\<rparr>))) of
        Inl e \<Rightarrow> HostThrew e
      | Inr q \<Rightarrow> HostPending (RuntimeInspect q (map_of (rh_revisions s) (rq_service q))))"

definition host_handle :: "nat \<Rightarrow> string \<Rightarrow> js_value \<Rightarrow> host_moment \<Rightarrow> runtime_host \<Rightarrow> host_outcome \<times> runtime_host" where
  "host_handle n operation payload m s =
     (case host_admit (hm_aborted m) s of
        Inl e \<Rightarrow> (HostThrew e, s)
      | Inr _ \<Rightarrow>
          if operation = ''directory.changed'' then directory_changed payload s
          else if operation = ''catalog.changed'' then catalog_changed payload s
          else if operation = ''runtime.roots'' then (runtime_roots payload s, s)
          else if operation = ''peer.state'' then peer_state n payload m s
          else (runtime_asked operation payload s, s))"

definition runtime_admitted :: "runtime_request \<Rightarrow> string option \<Rightarrow> host_moment \<Rightarrow> runtime_host \<Rightarrow> host_outcome \<times> runtime_host" where
  "runtime_admitted q revision m s =
     (case bind_result (host_admit (hm_aborted m) s) (\<lambda>_. revision_current (rq_service q) revision s) of
        Inl e \<Rightarrow> (HostThrew e, s)
      | Inr _ \<Rightarrow>
          if rq_method q \<notin> {''runtime.connect'', ''runtime.resume''} then (HostThrew (PeerHelperError ''p2p.invalid_operation''), s)
          else
           (let s1 = s\<lparr>rh_services := List.insert (rq_service q) (rh_services s)\<rparr>;
                (r, o') = (if rq_method q = ''runtime.connect'' then owner_connect (hm_aborted m) (hm_during m) (rh_owner s1)
                           else owner_resume (hm_aborted m) (rh_owner s1))
            in (HostPending (RuntimeBinding q r), with_owner o' s1)))"

definition binding_admitted :: "runtime_request \<Rightarrow> binding \<Rightarrow> string option \<Rightarrow> host_moment \<Rightarrow> runtime_host \<Rightarrow> host_outcome \<times> runtime_host" where
  "binding_admitted q b revision m s =
     (case bind_result (host_admit (hm_aborted m) s) (\<lambda>_. revision_current (rq_service q) revision s) of
        Inl e \<Rightarrow> (HostThrew e, s)
      | Inr _ \<Rightarrow>
          (let (current, o') = owner_assertCurrent b (rh_owner s) in
           (if current then HostAnswered (AnsBinding b) else HostThrew (PeerHelperError ''p2p.runtime_invalidated''), with_owner o' s)))"

definition start_inspected :: "host_moment \<Rightarrow> runtime_host \<Rightarrow> host_outcome \<times> runtime_host" where
  "start_inspected m s =
     (case bind_result (hm_saved m) (\<lambda>saved.
           if saved = None then peer_fail ''p2p.not_enabled''
           else bind_result (host_admit (hm_aborted m) s) (\<lambda>_.
             if rh_channel s then Inr () else peer_fail ''p2p.helper_unavailable'')) of
        Inl e \<Rightarrow> (HostThrew e, s)
      | Inr _ \<Rightarrow> (HostAnswered AnsChannel, s\<lparr>rh_attached := True\<rparr>))"

section \<open>Running the host\<close>

definition settle :: "nat \<Rightarrow> host_outcome \<times> runtime_host \<Rightarrow> runtime_host" where
  \<comment> \<open>a settled promise leaves \<open>#stateAdmissions\<close> and \<open>#starting\<close> if it is still the one there\<close>
  "settle n r =
     (case r of (out, s) \<Rightarrow>
        case out of
          HostPending t \<Rightarrow> s\<lparr>rh_tasks := AList.update n t (rh_tasks s)\<rparr>
        | HostAnswered v \<Rightarrow> s\<lparr>rh_tasks := AList.delete n (rh_tasks s), rh_done := rh_done s @ [(n, Inr v)],
            rh_admissions := filter (\<lambda>(_, p). p \<noteq> n) (rh_admissions s),
            rh_starting := (if rh_starting s = Some n then None else rh_starting s)\<rparr>
        | HostThrew e \<Rightarrow> s\<lparr>rh_tasks := AList.delete n (rh_tasks s), rh_done := rh_done s @ [(n, Inl e)],
            rh_admissions := filter (\<lambda>(_, p). p \<noteq> n) (rh_admissions s),
            rh_starting := (if rh_starting s = Some n then None else rh_starting s)\<rparr>)"

definition host_start :: "nat \<Rightarrow> host_moment \<Rightarrow> runtime_host \<Rightarrow> host_outcome \<times> runtime_host" where
  "host_start n m s =
     (case host_admit (hm_aborted m) s of
        Inl e \<Rightarrow> (HostThrew e, s)
      | Inr _ \<Rightarrow>
          (case rh_starting s of
             Some p \<Rightarrow> (HostAnswered (AnsShares p), s)
           | None \<Rightarrow> (HostPending StartInspect, s\<lparr>rh_starting := Some n\<rparr>)))"

definition prepareConnectReply :: "string \<Rightarrow> string \<Rightarrow> runtime_host \<Rightarrow> runtime_host" where
  "prepareConnectReply serviceId pairId s =
     (case bind_result (assertAccountId (JStr serviceId) 12) (\<lambda>_. assertAccountId (JStr pairId) 12) of
        Inl _ \<Rightarrow> s
      | Inr _ \<Rightarrow> s\<lparr>rh_prepared := rh_prepared s @ [(serviceId, pairId, map_of (rh_states s) (pair_key serviceId pairId))]\<rparr>)"

definition connect_replied :: "nat \<Rightarrow> string \<times> string \<times> host_entry option \<Rightarrow> js_value \<Rightarrow> host_moment \<Rightarrow> runtime_host \<Rightarrow> host_outcome \<times> runtime_host" where
  \<comment> \<open>the closure \<open>prepareConnectReply\<close> returns\<close>
  "connect_replied n p v m s =
     (case p of (serviceId, pairId, previous) \<Rightarrow>
        case bind_result (parseHelperState v) (\<lambda>state.
               if hs_pairId state \<noteq> pairId then peer_fail ''p2p.identity_mismatch'' else Inr state) of
          Inl e \<Rightarrow> (HostThrew e, s)
        | Inr state \<Rightarrow> recordState n \<lparr>am_service = serviceId, am_state = state, am_reply = Some previous\<rparr> m s)"

definition resume_task :: "nat \<Rightarrow> host_task \<Rightarrow> host_moment \<Rightarrow> runtime_host \<Rightarrow> runtime_host" where
  "resume_task n t m s =
     (case t of
        StartInspect \<Rightarrow> settle n (start_inspected m s)
      | AdmitQueued a prior \<Rightarrow> (if prior \<in> fst ` set (rh_tasks s) then s else settle n (admit_begin a m s, s))
      | AdmitInspect a revision \<Rightarrow> settle n (admit_inspected a revision m s, s)
      | AdmitPair a revision \<Rightarrow> settle n (admit_pair n a revision m s)
      | RuntimeInspect q revision \<Rightarrow>
          settle n (case authorize_saved (rq_service q) (rq_pair q) revision (hm_saved m) s of
                      Inl e \<Rightarrow> HostThrew e | Inr _ \<Rightarrow> HostPending (RuntimePair q revision), s)
      | RuntimePair q revision \<Rightarrow> settle n (runtime_admitted q revision m s)
      | RuntimeBinding q r \<Rightarrow>
          (case binding_reply r (rh_owner s) of
             None \<Rightarrow> s
           | Some (Inl e) \<Rightarrow> settle n (HostThrew (owner_failure e), s)
           | Some (Inr b) \<Rightarrow> settle n (HostPending (BindingInspect q b (map_of (rh_revisions s) (rq_service q))), s))
      | BindingInspect q b revision \<Rightarrow>
          settle n (case authorize_saved (rq_service q) (rq_pair q) revision (hm_saved m) s of
                      Inl e \<Rightarrow> HostThrew e | Inr _ \<Rightarrow> HostPending (BindingPair q b revision), s)
      | BindingPair q b revision \<Rightarrow> settle n (binding_admitted q b revision m s)
      | AwaitRoots \<Rightarrow> settle n (outcome_of (bind_result (hm_roots m) share_roots), s)
      | AwaitInvalidate g \<Rightarrow>
          settle n (if hm_failed m then (HostThrew (PeerHelperError ''p2p.runtime_invalidation_failed''), unavailable ''p2p.runtime_invalidation_failed'' s)
                    else (HostAnswered AnsEmpty, s)))"

datatype owner_event = SourceChanges launch_view | SourceEvent launch_view | StartSettled "owner_error option" | WaiterEnds nat string

definition owner_next :: "owner_event \<Rightarrow> runtime_owner \<Rightarrow> runtime_owner" where
  "owner_next e s =
     (case e of
        SourceChanges st \<Rightarrow> s\<lparr>ro_source := st\<rparr>
      | SourceEvent st \<Rightarrow> accept_state st s
      | StartSettled failure \<Rightarrow> start_settled failure s
      | WaiterEnds w code \<Rightarrow> waiter_cancelled w code s)"

datatype host_event =
    DoStart host_moment
  | DoCall string js_value host_moment
  | DoPrepare string string
  | DoReply nat js_value host_moment
  | DoResume nat host_moment
  | DoOwner owner_event
  | DoChannelDied string
  | DoFailClosed string
  | DoClose

definition host_exec :: "host_event \<Rightarrow> runtime_host \<Rightarrow> runtime_host" where
  "host_exec e s =
     (let n = rh_issued s; s1 = s\<lparr>rh_issued := Suc n\<rparr> in
      case e of
        DoStart m \<Rightarrow> settle n (host_start n m s1)
      | DoCall operation payload m \<Rightarrow> settle n (host_handle n operation payload m s1)
      | DoPrepare serviceId pairId \<Rightarrow> prepareConnectReply serviceId pairId s
      | DoReply k v m \<Rightarrow> (if k < length (rh_prepared s) then settle n (connect_replied n (rh_prepared s ! k) v m s1) else s)
      | DoResume k m \<Rightarrow> (case map_of (rh_tasks s) k of None \<Rightarrow> s | Some t \<Rightarrow> resume_task k t m s)
      | DoOwner oe \<Rightarrow> with_owner (owner_next oe (rh_owner s)) s
      | DoChannelDied code \<Rightarrow> channel_died code s
      | DoFailClosed code \<Rightarrow> failClosed code s
      | DoClose \<Rightarrow> close_host s)"

section \<open>The queue of admissions\<close>

fun task_admission :: "host_task \<Rightarrow> admission option" where
  "task_admission (AdmitQueued a _) = Some a"
| "task_admission (AdmitInspect a _) = Some a"
| "task_admission (AdmitPair a _) = Some a"
| "task_admission _ = None"

definition adm_of :: "(nat \<times> host_task) list \<Rightarrow> nat \<Rightarrow> host_task option" where
  \<comment> \<open>the admission a promise is\<close>
  "adm_of ts n = (case map_of ts n of None \<Rightarrow> None | Some t \<Rightarrow> if task_admission t = None then None else Some t)"

abbreviation adm :: "runtime_host \<Rightarrow> nat \<Rightarrow> host_task option" where
  "adm s \<equiv> adm_of (rh_tasks s)"

lemma adm_of_update [simp]: "adm_of (AList.update n t ts) = (adm_of ts)(n := if task_admission t = None then None else Some t)"
  by (simp add: adm_of_def update_conv' fun_eq_iff)

lemma adm_of_delete [simp]: "adm_of (AList.delete n ts) = (adm_of ts)(n := None)"
  by (simp add: adm_of_def delete_conv' fun_eq_iff)

definition on_key :: "(nat \<Rightarrow> host_task option) \<Rightarrow> string \<Rightarrow> nat \<Rightarrow> bool" where
  "on_key q k n \<longleftrightarrow> (\<exists>t a. q n = Some t \<and> task_admission t = Some a \<and> admission_key a = k)"

definition queue_ok :: "(nat \<Rightarrow> host_task option) \<Rightarrow> (string \<Rightarrow> nat option) \<Rightarrow> nat \<Rightarrow> bool \<Rightarrow> bool" where
  "queue_ok q final issued closed \<longleftrightarrow>
     (\<forall>n. q n \<noteq> None \<longrightarrow> n < issued) \<and>
     (\<forall>k n n'. on_key q k n \<longrightarrow> on_key q k n' \<longrightarrow> n < n' \<longrightarrow>
        (\<exists>a p. q n' = Some (AdmitQueued a p) \<and> n \<le> p \<and> p < n' \<and> on_key q k p)) \<and>
     (\<forall>k l. final k = Some l \<longrightarrow> on_key q k l) \<and>
     (closed \<or> (\<forall>k n. on_key q k n \<longrightarrow> (\<exists>l. final k = Some l \<and> n \<le> l)))"

definition at_head :: "(nat \<Rightarrow> host_task option) \<Rightarrow> nat \<Rightarrow> bool" where
  "at_head q n \<longleftrightarrow> (\<forall>a p. q n = Some (AdmitQueued a p) \<longrightarrow> q p = None)"

lemma head_first:
  assumes "queue_ok q final issued closed" "at_head q n" "on_key q k n" "on_key q k n'"
  shows "n \<le> n'"
proof (rule ccontr)
  assume "\<not> n \<le> n'"
  then obtain a p where "q n = Some (AdmitQueued a p)" "on_key q k p"
    using assms(1,3,4) unfolding queue_ok_def by (metis not_le)
  then show False using assms(2) by (auto simp: at_head_def on_key_def)
qed

lemma on_key_upd: "on_key (q(n \<mapsto> t)) k m \<longleftrightarrow>
    (if m = n then (\<exists>a. task_admission t = Some a \<and> admission_key a = k) else on_key q k m)"
  by (auto simp: on_key_def)

lemma on_key_del: "on_key (q(n := None)) k m \<longleftrightarrow> m \<noteq> n \<and> on_key q k m"
  by (auto simp: on_key_def)

lemma on_key_unique: "on_key q k n \<Longrightarrow> on_key q k' n \<Longrightarrow> k = k'"
  by (auto simp: on_key_def)

lemma queue_mono: "queue_ok q final issued closed \<Longrightarrow> issued \<le> issued' \<Longrightarrow> queue_ok q final issued' closed"
  unfolding queue_ok_def by (meson less_le_trans)

lemma queue_add:
  assumes ok: "queue_ok q final n False" and k: "task_admission t = Some a" "admission_key a = k"
    and t: "\<And>l. final k = Some l \<Longrightarrow> t = AdmitQueued a l"
  shows "queue_ok (q(n \<mapsto> t)) (final(k \<mapsto> n)) (Suc n) False"
proof -
  have none: "q n = None" using ok by (auto simp: queue_ok_def)
  have less: "m < n" if "on_key q k' m" for k' m using ok that by (auto simp: queue_ok_def on_key_def)
  have last: "\<exists>l. final k' = Some l \<and> m \<le> l" if "on_key q k' m" for k' m using ok that by (auto simp: queue_ok_def)
  have fin: "on_key q k' l" if "final k' = Some l" for k' l using ok that by (auto simp: queue_ok_def)
  have old: "\<exists>a p. q m' = Some (AdmitQueued a p) \<and> m \<le> p \<and> p < m' \<and> on_key q k' p" if "on_key q k' m" "on_key q k' m'" "m < m'" for k' m m'
    using ok that unfolding queue_ok_def by blast
  have on: "on_key (q(n \<mapsto> t)) k' m \<longleftrightarrow> (if m = n then k' = k else on_key q k' m)" for k' m using k by (auto simp: on_key_upd)
  have behind: "\<exists>a p. (q(n \<mapsto> t)) m' = Some (AdmitQueued a p) \<and> m \<le> p \<and> p < m' \<and> on_key (q(n \<mapsto> t)) k' p"
    if h: "on_key (q(n \<mapsto> t)) k' m" "on_key (q(n \<mapsto> t)) k' m'" "m < m'" for k' m m'
  proof (cases "m' = n")
    case True
    then have m: "on_key q k m" "k' = k" using h on by (auto split: if_splits)
    then obtain l where l: "final k = Some l" "m \<le> l" using last by blast
    then have "on_key q k l" "l < n" using fin less by blast+
    then show ?thesis using t [OF l(1)] l True on m by auto
  next
    case False
    then have "on_key q k' m'" using h on by (auto split: if_splits)
    then have "on_key q k' m" using h on less [of k' m'] by (auto split: if_splits)
    from old [OF this \<open>on_key q k' m'\<close> h(3)] show ?thesis using False on less by (metis fun_upd_other less_irrefl)
  qed
  show ?thesis unfolding queue_ok_def
  proof (intro conjI allI impI)
    fix m assume "(q(n \<mapsto> t)) m \<noteq> None"
    then show "m < Suc n" using ok by (auto simp: queue_ok_def less_Suc_eq split: if_splits)
  next
    fix k' l assume "(final(k \<mapsto> n)) k' = Some l"
    then show "on_key (q(n \<mapsto> t)) k' l" using fin less on by (auto split: if_splits)
  next
    show "False \<or> (\<forall>k' m. on_key (q(n \<mapsto> t)) k' m \<longrightarrow> (\<exists>l. (final(k \<mapsto> n)) k' = Some l \<and> m \<le> l))"
      using last less on by (auto simp: less_imp_le)
  qed (use behind in blast)
qed

lemma queue_phase:
  assumes ok: "queue_ok q final issued closed" and n: "q n = Some t" "at_head q n" and t: "task_admission t = task_admission t'" "task_admission t \<noteq> None"
  shows "queue_ok (q(n \<mapsto> t')) final issued closed"
proof -
  have on: "on_key (q(n \<mapsto> t')) k m = on_key q k m" for k m using n t by (auto simp: on_key_def)
  have "n' \<noteq> n" if "on_key q k m" "on_key q k n'" "m < n'" for k m n' using head_first [OF ok n(2)] that by fastforce
  then show ?thesis using ok n(1) unfolding queue_ok_def on by (metis fun_upd_apply option.distinct(1))
qed

lemma queue_remove:
  assumes ok: "queue_ok q final issued closed" and n: "at_head q n"
  shows "queue_ok (q(n := None)) (\<lambda>k. if final k = Some n then None else final k) issued closed"
proof -
  have first: "n \<le> m" if "on_key q k n" "on_key q k m" for k m using head_first [OF ok n that] .
  have old: "\<exists>a p. q m' = Some (AdmitQueued a p) \<and> m \<le> p \<and> p < m' \<and> on_key q k p" if "on_key q k m" "on_key q k m'" "m < m'" for k m m'
    using ok that unfolding queue_ok_def by blast
  have keep: "p \<noteq> n" if "on_key q k m" "m \<noteq> n" "m \<le> p" "on_key q k p" for k m p
    using first that by fastforce
  show ?thesis unfolding queue_ok_def on_key_del
  proof (intro conjI allI impI)
    fix k m m' assume "m \<noteq> n \<and> on_key q k m" "m' \<noteq> n \<and> on_key q k m'" "m < m'"
    moreover from this obtain a p where "q m' = Some (AdmitQueued a p)" "m \<le> p" "p < m'" "on_key q k p" using old by blast
    ultimately show "\<exists>a p. (q(n := None)) m' = Some (AdmitQueued a p) \<and> m \<le> p \<and> p < m' \<and> p \<noteq> n \<and> on_key q k p"
      using keep by auto
  next
    fix m assume "(q(n := None)) m \<noteq> None" then show "m < issued" using ok by (auto simp: queue_ok_def split: if_splits)
  next
    show "closed \<or> (\<forall>k m. m \<noteq> n \<and> on_key q k m \<longrightarrow> (\<exists>l. (if final k = Some n then None else final k) = Some l \<and> m \<le> l))"
    proof (cases closed)
      case False
      then have "\<exists>l. final k = Some l \<and> m \<le> l \<and> on_key q k l" if "on_key q k m" for k m using ok that unfolding queue_ok_def by blast
      then show ?thesis using keep by (metis (no_types, lifting) option.inject)
    qed simp
  qed (use ok in \<open>auto simp: queue_ok_def split: if_splits\<close>)
qed

lemma queue_closed: "queue_ok q final issued closed \<Longrightarrow> queue_ok q (\<lambda>k. None) issued True"
  unfolding queue_ok_def by auto

section \<open>What was recorded for a pair\<close>

definition lineage :: "string \<Rightarrow> runtime_host \<Rightarrow> (nat \<times> helper_state) list" where
  "lineage k s = map snd (filter (\<lambda>(k', _). k' = k) (rh_recorded s))"

definition attempts_of :: "(nat \<times> helper_state) list \<Rightarrow> string list" where
  \<comment> \<open>the attempts in the order they replaced each other\<close>
  "attempts_of l = remdups_adj (map (\<lambda>(_, st). hs_attemptId st) l)"

definition lastn :: "nat \<Rightarrow> 'a list \<Rightarrow> 'a list" where
  "lastn n xs = drop (length xs - n) xs"

definition apart :: "nat \<Rightarrow> 'a list \<Rightarrow> bool" where
  \<comment> \<open>equal elements lie more than \<open>n\<close> places apart\<close>
  "apart n xs \<longleftrightarrow> (\<forall>i j. i < j \<longrightarrow> j < length xs \<longrightarrow> j \<le> i + n \<longrightarrow> xs ! i \<noteq> xs ! j)"

lemma apart_snoc:
  assumes "apart n xs" "x \<notin> set (lastn n xs)"
  shows "apart n (xs @ [x])"
  unfolding apart_def
proof (intro allI impI)
  fix i j assume ij: "i < j" "j < length (xs @ [x])" "j \<le> i + n"
  show "(xs @ [x]) ! i \<noteq> (xs @ [x]) ! j"
  proof (cases "j = length xs")
    case True
    then have "length xs - n \<le> i" "i < length xs" using ij by auto
    then have "xs ! i \<in> set (lastn n xs)"
      by (auto simp: lastn_def in_set_conv_nth intro!: exI [of _ "i - (length xs - n)"])
    then show ?thesis using assms(2) True ij by (auto simp: nth_append)
  next
    case False
    then show ?thesis using assms(1) ij by (auto simp: apart_def nth_append)
  qed
qed

lemma attempts_snoc: "attempts_of (l @ [(n, st)]) =
    (if l \<noteq> [] \<and> hs_attemptId (snd (last l)) = hs_attemptId st then attempts_of l else attempts_of l @ [hs_attemptId st])"
proof (cases l rule: rev_cases)
  case (snoc l' x)
  then show ?thesis by (cases x) (simp add: attempts_of_def remdups_adj_append_two)
qed (simp add: attempts_of_def)

lemma last_attempt: "l \<noteq> [] \<Longrightarrow> attempts_of l \<noteq> [] \<and> last (attempts_of l) = hs_attemptId (snd (last l))"
  by (simp add: attempts_of_def last_map case_prod_unfold)

lemma lastn_mem: "xs \<noteq> [] \<Longrightarrow> 0 < n \<Longrightarrow> last xs \<in> set (lastn n xs)"
  by (metis diff_less drop_eq_Nil2 lastn_def last_drop last_in_set length_greater_0_conv not_le)

lemma remember_lastn: "remember_in x (lastn 4 xs) = (if x \<in> set (lastn 4 xs) then lastn 4 xs else lastn 4 (xs @ [x]))"
proof -
  have "drop (length (lastn 4 xs @ [x]) - 4) (lastn 4 xs @ [x]) = lastn 4 (xs @ [x])"
  proof (cases "length xs < 4")
    case False
    then have "Suc (length xs - 4) = length xs - 3" by arith
    then show ?thesis using False by (simp add: lastn_def)
  qed (simp add: lastn_def)
  then show ?thesis by (simp add: remember_in_def Let_def)
qed

definition lineage_ok :: "runtime_host \<Rightarrow> string \<Rightarrow> bool" where
  "lineage_ok s k \<longleftrightarrow>
     sorted_wrt (<) (map fst (lineage k s)) \<and>
     (\<forall>x \<in> set (lineage k s). fst x < rh_issued s) \<and>
     (\<forall>x \<in> set (lineage k s). \<forall>n. on_key (adm s) k n \<longrightarrow> fst x < n) \<and>
     successively (\<lambda>x y. assertStateProgress (snd x) (snd y) = Inr ()) (lineage k s) \<and>
     (\<not> rh_aborted s \<longrightarrow> map_option (\<lambda>e. (en_ref e, en_state e)) (map_of (rh_states s) k) =
        (if lineage k s = [] then None else Some (last (lineage k s)))) \<and>
     (case map_of (rh_attempts s) k of None \<Rightarrow> [] | Some seen \<Rightarrow> seen) = lastn 4 (attempts_of (lineage k s)) \<and>
     apart 4 (attempts_of (lineage k s))"

definition host_ok :: "runtime_host \<Rightarrow> bool" where
  "host_ok s \<longleftrightarrow>
     queue_ok (adm s) (map_of (rh_admissions s)) (rh_issued s) (rh_closing s) \<and>
     (rh_closing s \<longrightarrow> rh_admissions s = [] \<and> rh_aborted s) \<and> distinct (map fst (rh_admissions s)) \<and>
     (\<forall>k. lineage_ok s k)"

lemma host_ok_cong:
  assumes "host_ok s" "adm s' = adm s" "rh_admissions s' = rh_admissions s" "rh_issued s \<le> rh_issued s'"
    "rh_closing s' = rh_closing s" "rh_aborted s \<longrightarrow> rh_aborted s'" "rh_recorded s' = rh_recorded s" "rh_attempts s' = rh_attempts s"
    "rh_aborted s' \<or> rh_states s' = rh_states s"
  shows "host_ok s'"
proof -
  have "lineage k s' = lineage k s" for k using assms(7) by (simp add: lineage_def)
  moreover have "fst x < rh_issued s'" if "fst x < rh_issued s" for x :: "nat \<times> helper_state" using that assms(4) by simp
  ultimately have "lineage_ok s' k" if "lineage_ok s k" for k
    using that assms(6,9) unfolding lineage_ok_def assms(2,8) by auto
  moreover have "queue_ok (adm s') (map_of (rh_admissions s')) (rh_issued s') (rh_closing s')"
    using assms(1) queue_mono [OF _ assms(4)] unfolding assms(2,3,5) by (simp add: host_ok_def)
  ultimately show ?thesis using assms(1,3,5,6) by (simp add: host_ok_def)
qed

lemma adm_fresh: "host_ok s \<Longrightarrow> rh_issued s \<le> n \<Longrightarrow> adm s n = None"
  by (metis host_ok_def leD queue_ok_def)

lemma send_ok: "host_ok s \<Longrightarrow> host_ok (send_invalidate g s)"
proof -
  assume ok: "host_ok s"
  have "(adm s)(rh_issued s := None) = adm s" using adm_fresh [OF ok] by (simp add: fun_upd_idem)
  then show ?thesis using ok unfolding send_invalidate_def by (auto intro!: host_ok_cong [OF ok])
qed

lemma with_owner_ok: "host_ok s \<Longrightarrow> host_ok (with_owner o' s)"
proof -
  assume ok: "host_ok s"
  have "host_ok (fold send_invalidate gs s')" if "host_ok s'" for gs s'
    using that by (induction gs arbitrary: s') (auto intro: send_ok)
  moreover have "host_ok (s\<lparr>rh_owner := o'\<rparr>)" by (rule host_ok_cong [OF ok]) simp_all
  ultimately show ?thesis by (simp add: with_owner_def)
qed

lemma filter_admissions: "host_ok s \<Longrightarrow> adm s n = None \<Longrightarrow> filter (\<lambda>(_, p). p \<noteq> n) (rh_admissions s) = rh_admissions s"
proof (rule filter_True)
  assume ok: "host_ok s" and n: "adm s n = None"
  show "\<forall>x\<in>set (rh_admissions s). case x of (_, p) \<Rightarrow> p \<noteq> n"
  proof clarify
    fix k assume "(k, n) \<in> set (rh_admissions s)"
    then have "map_of (rh_admissions s) k = Some n" using ok by (simp add: host_ok_def)
    then have "on_key (adm s) k n" using ok by (simp add: host_ok_def queue_ok_def)
    then show False using n by (simp add: on_key_def)
  qed
qed

fun plain_outcome :: "host_outcome \<Rightarrow> bool" where
  "plain_outcome (HostPending t) = (task_admission t = None)"
| "plain_outcome _ = True"

lemma settle_plain:
  assumes ok: "host_ok s" and "adm s n = None" "plain_outcome out"
  shows "host_ok (settle n (out, s))"
proof -
  have "(adm s)(n := None) = adm s" using assms(2) by (simp add: fun_upd_idem)
  then show ?thesis using assms(3)
    by (cases out) (auto simp: settle_def filter_admissions [OF ok assms(2)] intro!: host_ok_cong [OF ok])
qed

lemma host_ok_stop: "host_ok s \<Longrightarrow> host_ok (close_host s)"
proof (cases "rh_closing s")
  case False
  assume ok: "host_ok s"
  have "lineage k (stop s\<lparr>rh_closing := True\<rparr>) = lineage k s" for k by (simp add: lineage_def stop_def)
  then have "lineage_ok (stop s\<lparr>rh_closing := True\<rparr>) k" if "lineage_ok s k" for k
    using that unfolding lineage_ok_def by (simp add: stop_def)
  moreover have "queue_ok (adm s) (\<lambda>k. None) (rh_issued s) True" using ok queue_closed by (auto simp: host_ok_def)
  ultimately show ?thesis using ok False by (simp add: host_ok_def close_host_def) (simp add: stop_def)
qed (simp add: close_host_def)

lemma host_ok_unavailable: "host_ok s \<Longrightarrow> host_ok (unavailable code s)"
  by (rule host_ok_cong [of s]) (simp_all add: unavailable_def Let_def)

section \<open>The host keeps its order\<close>

lemma on_key_admission: "adm s n = Some t \<Longrightarrow> task_admission t = Some a \<Longrightarrow> on_key (adm s) (admission_key a) n"
  by (auto simp: on_key_def)

lemma adm_of_task: "map_of ts n = Some t \<Longrightarrow> adm_of ts n = (if task_admission t = None then None else Some t)"
  by (simp add: adm_of_def)

lemma map_of_filter_value:
  "distinct (map fst xs) \<Longrightarrow> map_of (filter (\<lambda>(_, p). p \<noteq> n) xs) = (\<lambda>k. if map_of xs k = Some n then None else map_of xs k)"
  using map_of_filter_values [of xs "\<lambda>_ p. p \<noteq> n"] by (simp add: js_map_ok_def js_keys_def fun_eq_iff split: option.split)

lemma update_new: "k \<notin> fst ` set xs \<Longrightarrow> AList.update k v xs = xs @ [(k, v)]"
  by (induction xs) auto

lemma distinct_filter_keys: "distinct (map fst xs) \<Longrightarrow> distinct (map fst (filter P xs))"
  by (rule distinct_map_filter)

lemma lineage_ok_fewer:
  assumes "lineage_ok s k" "\<And>n. on_key (adm s') k n \<Longrightarrow> on_key (adm s) k n" "lineage k s' = lineage k s" "rh_issued s' = rh_issued s"
    "rh_aborted s' = rh_aborted s" "rh_states s' = rh_states s" "rh_attempts s' = rh_attempts s"
  shows "lineage_ok s' k"
  using assms(1,2) unfolding lineage_ok_def assms(3-7) by blast

lemma settle_head:
  assumes ok: "host_ok s" and n: "adm s n = Some t" "at_head (adm s) n"
    and out: "\<And>t'. out = HostPending t' \<Longrightarrow> task_admission t' = task_admission t"
  shows "host_ok (settle n (out, s))"
proof -
  have q: "queue_ok (adm s) (map_of (rh_admissions s)) (rh_issued s) (rh_closing s)" and d: "distinct (map fst (rh_admissions s))"
    and c: "rh_closing s \<longrightarrow> rh_admissions s = [] \<and> rh_aborted s" and l: "lineage_ok s k" for k using ok by (auto simp: host_ok_def)
  have t: "task_admission t \<noteq> None" using n(1) by (auto simp: adm_of_def split: option.splits if_splits)
  show ?thesis
  proof (cases "\<exists>t'. out = HostPending t'")
    case True
    then obtain t' where t': "out = HostPending t'" "task_admission t = task_admission t'" using out by auto
    let ?s = "s\<lparr>rh_tasks := AList.update n t' (rh_tasks s)\<rparr>"
    have "on_key (adm ?s) k m = on_key (adm s) k m" for k m using n(1) t t'(2) by (auto simp: on_key_def)
    then have "lineage_ok ?s k" for k by (intro lineage_ok_fewer [OF l]) (simp_all add: lineage_def)
    moreover have "queue_ok (adm ?s) (map_of (rh_admissions s)) (rh_issued s) (rh_closing s)"
      using queue_phase [OF q n t'(2) t] t t'(2) by auto
    ultimately show ?thesis using d c by (simp add: settle_def t' host_ok_def)
  next
    case False
    define s' where "s' = settle n (out, s)"
    have f: "adm s' = (adm s)(n := None)" "rh_admissions s' = filter (\<lambda>(_, p). p \<noteq> n) (rh_admissions s)" "rh_issued s' = rh_issued s"
      "rh_closing s' = rh_closing s" "rh_aborted s' = rh_aborted s" "rh_states s' = rh_states s" "rh_attempts s' = rh_attempts s"
      "lineage k s' = lineage k s" for k
      using False by (cases out; simp add: s'_def settle_def lineage_def)+
    have "lineage_ok s' k" for k by (rule lineage_ok_fewer [OF l]) (simp_all add: f on_key_del)
    moreover have "queue_ok (adm s') (map_of (rh_admissions s')) (rh_issued s') (rh_closing s')"
      using queue_remove [OF q n(2)] unfolding f map_of_filter_value [OF d] .
    ultimately show ?thesis using d c unfolding host_ok_def f s'_def [symmetric] by (auto simp: distinct_filter_keys)
  qed
qed

lemma record_state_ok:
  assumes ok: "host_ok s" and n: "n = rh_issued s"
  shows "host_ok (settle n (recordState n a m (s\<lparr>rh_issued := Suc n\<rparr>)))"
proof -
  let ?k = "admission_key a" and ?s = "s\<lparr>rh_issued := Suc n\<rparr>"
  have ok1: "host_ok ?s" by (rule host_ok_cong [OF ok]) (simp_all add: n)
  have q: "queue_ok (adm s) (map_of (rh_admissions s)) n (rh_closing s)" and d: "distinct (map fst (rh_admissions s))"
    and c: "rh_closing s \<longrightarrow> rh_admissions s = [] \<and> rh_aborted s" and l: "lineage_ok s k" for k using ok n by (auto simp: host_ok_def)
  have fresh: "adm s n = None" using adm_fresh [OF ok] n by simp
  show ?thesis
  proof (cases "map_of (rh_admissions s) ?k = None \<and> (\<exists>e. admit_begin a m ?s = HostThrew e)")
    case True
    then obtain e where e: "map_of (rh_admissions s) ?k = None" "admit_begin a m ?s = HostThrew e" by blast
    have "?k \<notin> fst ` set (rh_admissions s)" using e(1) by (simp add: map_of_eq_None_iff)
    then have "filter (\<lambda>(_, p). p \<noteq> n) (AList.update ?k n (rh_admissions s)) = filter (\<lambda>(_, p). p \<noteq> n) (rh_admissions s)"
      by (simp add: update_new)
    then have "settle n (recordState n a m ?s) = settle n (HostThrew e, ?s)"
      using e by (simp add: recordState_def settle_def)
    then show ?thesis using settle_plain [OF ok1] fresh by simp
  next
    case False
    then obtain t where t: "recordState n a m ?s = (HostPending t, ?s\<lparr>rh_admissions := AList.update ?k n (rh_admissions s)\<rparr>)"
      "task_admission t = Some a" "\<And>l. map_of (rh_admissions s) ?k = Some l \<Longrightarrow> t = AdmitQueued a l"
      "map_of (rh_admissions s) ?k = None \<Longrightarrow> \<not> rh_aborted s"
      by (cases "map_of (rh_admissions s) ?k")
        (auto simp: recordState_def admit_begin_def host_admit_def peer_fail_def split: sum.splits option.splits if_splits)
    have "\<not> rh_closing s" using c t(3,4) by force
    then have q': "queue_ok ((adm s)(n \<mapsto> t)) ((map_of (rh_admissions s))(?k \<mapsto> n)) (Suc n) False"
      using queue_add [OF _ t(2) refl t(3)] q by simp
    define s' where "s' = settle n (recordState n a m ?s)"
    have f: "adm s' = (adm s)(n \<mapsto> t)" "rh_admissions s' = AList.update ?k n (rh_admissions s)" "rh_issued s' = Suc n"
      "rh_closing s' = rh_closing s" "rh_aborted s' = rh_aborted s" "rh_states s' = rh_states s" "rh_attempts s' = rh_attempts s"
      "lineage k s' = lineage k s" for k
      using t(1,2) by (simp_all add: s'_def settle_def lineage_def)
    have "lineage_ok s' k" for k
      using l [of k] unfolding lineage_ok_def f on_key_upd by (auto simp: n less_SucI)
    then show ?thesis using q' \<open>\<not> rh_closing s\<close> d unfolding host_ok_def f s'_def [symmetric]
      by (auto simp: update_conv' distinct_update)
  qed
qed

lemma record_entry_ok:
  assumes ok: "host_ok s" and n: "adm s n = Some (AdmitPair a revision)" and live: "\<not> rh_aborted s"
    and progress: "admit_progress a (map_of (rh_states s) (admission_key a)) s = Inr ()"
  shows "host_ok (settle n (HostAnswered v, record_entry n a s))"
proof -
  let ?k = "admission_key a"
  define s1 where "s1 = settle n (HostAnswered v, s)"
  define s' where "s' = settle n (HostAnswered v, record_entry n a s)"
  have head: "at_head (adm s) n" using n by (simp add: at_head_def)
  have ok1: "host_ok s1" unfolding s1_def by (rule settle_head [OF ok n head]) simp
  have q: "queue_ok (adm s) (map_of (rh_admissions s)) (rh_issued s) (rh_closing s)" and l: "lineage_ok s ?k" using ok by (auto simp: host_ok_def)
  have f: "adm s' = (adm s)(n := None)" "adm s1 = (adm s)(n := None)" "rh_issued s' = rh_issued s" "rh_issued s1 = rh_issued s"
      "rh_aborted s' = rh_aborted s" "rh_aborted s1 = rh_aborted s"
      "rh_closing s' = rh_closing s1" "rh_admissions s' = rh_admissions s1"
      "rh_states s' = AList.update ?k \<lparr>en_ref = n, en_service = am_service a, en_state = am_state a\<rparr> (rh_states s)" "rh_states s1 = rh_states s"
      "rh_attempts s1 = rh_attempts s" "lineage ?k s' = lineage ?k s @ [(n, am_state a)]"
      "rh_attempts s' = AList.update ?k (remember_in (hs_attemptId (am_state a)) (case map_of (rh_attempts s) ?k of None \<Rightarrow> [] | Some seen \<Rightarrow> seen)) (rh_attempts s)"
    by (simp_all add: s1_def s'_def settle_def record_entry_def rememberAttempt_def Let_def lineage_def)
  have on: "on_key (adm s) ?k n" using on_key_admission [OF n] by simp
  have other: "lineage_ok s' k" if "k \<noteq> ?k" for k
  proof -
    have lk: "lineage k s' = lineage k s1" using that by (simp add: s1_def s'_def settle_def record_entry_def rememberAttempt_def Let_def lineage_def)
    have "lineage_ok s1 k" using ok1 by (simp add: host_ok_def)
    then show ?thesis using that unfolding lineage_ok_def lk by (simp add: f update_conv')
  qed
  have own: "lineage_ok s' ?k"
  proof -
    let ?l = "lineage ?k s" and ?seen = "case map_of (rh_attempts s) ?k of None \<Rightarrow> [] | Some seen \<Rightarrow> seen"
    let ?prev = "map_of (rh_states s) ?k"
    have prev: "map_option (\<lambda>e. (en_ref e, en_state e)) ?prev = (if ?l = [] then None else Some (last ?l))"
      and seen: "?seen = lastn 4 (attempts_of ?l)" and apart: "apart 4 (attempts_of ?l)"
      and before: "\<forall>x\<in>set ?l. fst x < n" and sorted: "sorted_wrt (<) (map fst ?l)"
      and chain: "successively (\<lambda>x y. assertStateProgress (snd x) (snd y) = Inr ()) ?l"
      using l live on by (auto simp: lineage_ok_def)
    have last: "en_state p = snd (last ?l)" "?l \<noteq> []" if "?prev = Some p" for p
      using prev that by (auto split: if_splits) (metis snd_conv)
    have first: "?l = []" if "?prev = None" using prev that by (auto split: if_splits)
    have n_less: "n < rh_issued s" using q n by (auto simp: queue_ok_def)
    have after: "n < m" if "on_key ((adm s)(n := None)) ?k m" for m
      using head_first [OF q head on, of m] that by (auto simp: on_key_del)
    have step: "?l \<noteq> [] \<Longrightarrow> assertStateProgress (snd (last ?l)) (am_state a) = Inr ()"
      using progress last first by (cases ?prev) (auto simp: admit_progress_def stale_generation_def peer_fail_def split: if_splits)
    have same: "hs_attemptId (snd (last ?l)) = hs_attemptId (am_state a) \<or> hs_attemptId (am_state a) \<notin> set ?seen" if "?l \<noteq> []"
      using progress last first that
      by (cases ?prev) (auto simp: admit_progress_def sawAttempt_def stale_generation_def peer_fail_def split: if_splits)
    have ap: "apart 4 (attempts_of (?l @ [(n, am_state a)])) \<and> remember_in (hs_attemptId (am_state a)) ?seen = lastn 4 (attempts_of (?l @ [(n, am_state a)]))"
    proof (cases "?l = []")
      case True
      then show ?thesis unfolding seen by (simp add: attempts_of_def apart_def lastn_def remember_in_def)
    next
      case False
      show ?thesis
      proof (cases "hs_attemptId (snd (last ?l)) = hs_attemptId (am_state a)")
        case True
        then have "hs_attemptId (am_state a) \<in> set (lastn 4 (attempts_of ?l))"
          using last_attempt [OF False] lastn_mem [of "attempts_of ?l" 4] by simp
        then show ?thesis using True False apart unfolding seen by (simp add: attempts_snoc remember_lastn)
      next
        case new: False
        then have "hs_attemptId (am_state a) \<notin> set (lastn 4 (attempts_of ?l))" using same [OF False] seen by simp
        then show ?thesis using new False apart apart_snoc unfolding seen by (simp add: attempts_snoc remember_lastn)
      qed
    qed
    have "successively (\<lambda>x y. assertStateProgress (snd x) (snd y) = Inr ()) (?l @ [(n, am_state a)])"
      using chain step by (auto simp: successively_append_iff)
    moreover have "sorted_wrt (<) (map fst (?l @ [(n, am_state a)]))" using sorted before by (auto simp: sorted_wrt_append)
    moreover have "\<forall>x\<in>set (?l @ [(n, am_state a)]). \<forall>m. on_key ((adm s)(n := None)) ?k m \<longrightarrow> fst x < m"
      using before after by (fastforce dest: less_trans)
    moreover have "\<forall>x\<in>set (?l @ [(n, am_state a)]). fst x < rh_issued s" using before n_less by auto
    ultimately show ?thesis using ap unfolding lineage_ok_def f by (simp add: update_conv')
  qed
  have "\<forall>k. lineage_ok s' k" using own other by metis
  then show ?thesis using ok1 unfolding s'_def [symmetric] host_ok_def by (simp add: f)
qed

lemma host_ok_fields [simp]:
  "host_ok (s\<lparr>rh_notices := x\<rparr>) = host_ok s" "host_ok (s\<lparr>rh_revisions := r\<rparr>) = host_ok s" "host_ok (s\<lparr>rh_attached := b\<rparr>) = host_ok s"
  "host_ok (s\<lparr>rh_services := ss\<rparr>) = host_ok s" "host_ok (s\<lparr>rh_starting := st\<rparr>) = host_ok s" "host_ok (s\<lparr>rh_prepared := p\<rparr>) = host_ok s"
  by (simp_all add: host_ok_def lineage_ok_def lineage_def)

lemma host_ok_issue: "host_ok s \<Longrightarrow> host_ok (s\<lparr>rh_issued := Suc (rh_issued s)\<rparr>)"
  by (rule host_ok_cong) auto

lemma send_invalidate_adm: "host_ok s \<Longrightarrow> adm (send_invalidate g s) = adm s"
  using adm_fresh [of s "rh_issued s"] by (simp add: send_invalidate_def fun_upd_idem)

lemma with_owner_adm: "host_ok s \<Longrightarrow> adm (with_owner o' s) = adm s"
proof -
  have "adm (fold send_invalidate gs s') = adm s'" if "host_ok s'" for gs s'
    using that by (induction gs arbitrary: s') (simp_all add: send_ok send_invalidate_adm)
  moreover assume "host_ok s"
  then have "host_ok (s\<lparr>rh_owner := o'\<rparr>)" by (rule host_ok_cong) simp_all
  ultimately show ?thesis by (simp add: with_owner_def)
qed

lemma handle_ok:
  assumes ok: "host_ok s" and n: "n = rh_issued s"
  shows "host_ok (settle n (host_handle n operation payload m (s\<lparr>rh_issued := Suc n\<rparr>)))"
proof -
  let ?s = "s\<lparr>rh_issued := Suc n\<rparr>"
  have ok1: "host_ok ?s" using host_ok_issue [OF ok] n by simp
  have fresh: "adm s n = None" using adm_fresh [OF ok] n by simp
  have plain: "host_ok (settle n (out, s'))" if "host_ok s'" "adm s' = adm s" "plain_outcome out" for out s'
    using settle_plain [of s'] that fresh by simp
  have throws: "host_ok (settle n (HostThrew e, ?s))" for e using plain [OF ok1] by simp
  have "host_ok (settle n (directory_changed payload ?s))"
    using throws plain [of "?s\<lparr>rh_notices := x\<rparr>" for x] ok1 by (simp add: directory_changed_def split: sum.split)
  moreover have "host_ok (settle n (catalog_changed payload ?s))"
  proof -
    have "host_ok (?s\<lparr>rh_revisions := r, rh_notices := x\<rparr>)" for r x using ok1 by simp
    then show ?thesis using throws plain [of "?s\<lparr>rh_revisions := r, rh_notices := x\<rparr>" for r x]
      by (simp add: catalog_changed_def split: sum.split)
  qed
  moreover have "host_ok (settle n (runtime_roots payload ?s, ?s))" "host_ok (settle n (runtime_asked operation payload ?s, ?s))"
    by (rule plain [OF ok1]; auto simp: runtime_roots_def runtime_asked_def outcome_of_def split: sum.split)+
  moreover have "host_ok (settle n (peer_state n payload m ?s))"
    using throws record_state_ok [OF ok n] by (simp add: peer_state_def split: sum.split)
  ultimately show ?thesis using throws by (simp add: host_handle_def split: sum.split)
qed

lemma admit_outcomes:
  "\<And>t. admit_begin a m s = HostPending t \<Longrightarrow> task_admission t = Some a"
  "\<And>t. admit_inspected a revision m s = HostPending t \<Longrightarrow> task_admission t = Some a"
  by (auto simp: admit_begin_def admit_inspected_def split: sum.splits)

lemma resume_admission:
  assumes ok: "host_ok s" and t: "map_of (rh_tasks s) n = Some t" "task_admission t = Some a"
  shows "host_ok (resume_task n t m s)"
proof -
  have n: "adm s n = Some t" using t by (simp add: adm_of_task)
  show ?thesis
  proof (cases t)
    case (AdmitQueued a' p)
    have "adm s p = None" if "p \<notin> fst ` set (rh_tasks s)" using that by (simp add: adm_of_def map_of_eq_None_iff [THEN iffD2])
    then have "at_head (adm s) n" if "p \<notin> fst ` set (rh_tasks s)" using that n AdmitQueued by (auto simp: at_head_def)
    then show ?thesis using settle_head [OF ok n] admit_outcomes(1) [of a m s] ok AdmitQueued t(2) by (auto simp: resume_task_def)
  next
    case (AdmitInspect a' r)
    then show ?thesis using settle_head [OF ok n] admit_outcomes(2) [of a r m s] t(2) n by (auto simp: resume_task_def at_head_def)
  next
    case (AdmitPair a' r)
    then have head: "at_head (adm s) n" and aa: "a' = a" using n t(2) by (auto simp: at_head_def)
    have ends: "host_ok (settle n (out, s))" if "\<forall>t. out \<noteq> HostPending t" for out using settle_head [OF ok n head] that by blast
    let ?prev = "map_of (rh_states s) (admission_key a)"
    have live: "\<not> rh_aborted s" if "bind_result (host_admit x s) f = Inr y" for x f and y :: bool
      using that by (auto simp: host_admit_def peer_fail_def bind_result_Inr split: option.splits if_splits)
    have "host_ok (settle n (admit_pair n a r m s))"
    proof (cases "bind_result (host_admit (hm_aborted m) s) (\<lambda>_. bind_result (reply_current a m) (\<lambda>_.
             bind_result (revision_current (am_service a) r s) (\<lambda>_. reply_verdict a ?prev)))")
      case (Inr b)
      then show ?thesis using ends live [OF Inr] record_entry_ok [OF ok, of n a r] n AdmitPair aa
        by (cases b; cases "admit_progress a ?prev s") (auto simp: admit_pair_def Let_def)
    qed (use ends in \<open>simp add: admit_pair_def Let_def\<close>)
    then show ?thesis using AdmitPair aa by (simp add: resume_task_def)
  qed (use t(2) in simp_all)
qed

lemma resume_other:
  assumes ok: "host_ok s" and t: "map_of (rh_tasks s) n = Some t" "task_admission t = None"
  shows "host_ok (resume_task n t m s)"
proof -
  have n: "adm s n = None" using t by (simp add: adm_of_task)
  have plain: "host_ok (settle n (out, s'))" if "host_ok s'" "adm s' = adm s" "plain_outcome out" for out s'
    using settle_plain [of s'] that n by simp
  note stays = plain [OF ok refl]
  have run: "host_ok (settle n (runtime_admitted q r m s))" for q r
  proof -
    let ?s = "s\<lparr>rh_services := List.insert (rq_service q) (rh_services s)\<rparr>"
    have "host_ok (with_owner o' ?s)" "adm (with_owner o' ?s) = adm s" for o' using ok with_owner_ok [of ?s] with_owner_adm [of ?s] by auto
    then have "host_ok (settle n (HostPending (RuntimeBinding q x), with_owner o' ?s))" for x o' using plain by simp
    then show ?thesis using stays by (auto simp: runtime_admitted_def Let_def split: sum.split prod.split)
  qed
  have bind: "host_ok (settle n (binding_admitted q b r m s))" for q b r
    using stays plain [OF with_owner_ok [OF ok] with_owner_adm [OF ok]] by (auto simp: binding_admitted_def Let_def split: sum.split prod.split)
  have start: "host_ok (settle n (start_inspected m s))"
    using stays plain [of "s\<lparr>rh_attached := True\<rparr>"] ok by (auto simp: start_inspected_def split: sum.split)
  have fails: "host_ok (settle n (HostThrew e, unavailable code s))" for e code
    using plain [OF host_ok_unavailable [OF ok]] by (simp add: unavailable_def Let_def)
  show ?thesis using t(2) stays run bind start fails ok
    by (cases t) (auto simp: resume_task_def outcome_of_def split: sum.split option.split)
qed

interpretation host: guarded_machine "\<lambda>s. \<exists>channel roots st. s = new_host channel roots st" host_exec host_ok
proof
  show "host_ok s" if "\<exists>channel roots st. s = new_host channel roots st" for s
    using that by (auto simp: new_host_def host_ok_def queue_ok_def on_key_def adm_of_def lineage_ok_def lineage_def attempts_of_def lastn_def apart_def)
next
  fix e s assume ok: "host_ok s"
  let ?s = "s\<lparr>rh_issued := Suc (rh_issued s)\<rparr>"
  have fresh: "adm s (rh_issued s) = None" using adm_fresh [OF ok] by simp
  have plain: "host_ok (settle (rh_issued s) (out, s'))" if "host_ok s'" "adm s' = adm s" "plain_outcome out" for out s'
    using settle_plain [of s'] that fresh by simp
  have ok1: "host_ok ?s" by (rule host_ok_issue [OF ok])
  show "host_ok (host_exec e s)"
  proof (cases e)
    case (DoStart m)
    then show ?thesis using plain [OF ok1] plain [of "?s\<lparr>rh_starting := x\<rparr>" for x] ok1
      by (auto simp: host_exec_def Let_def host_start_def split: sum.split option.split)
  next
    case (DoCall operation payload m)
    then show ?thesis using handle_ok [OF ok refl] by (simp add: host_exec_def Let_def)
  next
    case (DoReply k v m)
    then show ?thesis using ok plain [OF ok1] record_state_ok [OF ok refl]
      by (auto simp: host_exec_def Let_def connect_replied_def split: sum.split prod.split)
  next
    case (DoResume k m)
    then show ?thesis using ok resume_admission [OF ok] resume_other [OF ok]
      by (auto simp: host_exec_def Let_def split: option.split) (metis option.exhaust)
  qed (use ok in \<open>auto simp: host_exec_def Let_def prepareConnectReply_def channel_died_def failClosed_def
      intro!: with_owner_ok host_ok_unavailable host_ok_stop split: sum.split\<close>)
qed

section \<open>Where a pending request comes from\<close>

definition asked_for :: "runtime_host \<Rightarrow> host_event list \<Rightarrow> nat \<Rightarrow> runtime_request \<Rightarrow> bool" where
  \<comment> \<open>promise \<open>n\<close> is the callback with which the core asked for the runtime on behalf of a pair\<close>
  "asked_for s0 es n q \<longleftrightarrow> (\<exists>es1 payload m es2. es = es1 @ DoCall (rq_method q) payload m # es2 \<and> rh_issued (fold host_exec es1 s0) = n \<and>
     js_field payload ''serviceId'' = JStr (rq_service q) \<and> js_field payload ''pairId'' = JStr (rq_pair q))"

definition granted :: "runtime_host \<Rightarrow> host_event list \<Rightarrow> nat \<Rightarrow> string \<Rightarrow> string \<Rightarrow> string option \<Rightarrow> bool" where
  \<comment> \<open>promise \<open>n\<close> read a catalog that has the pair active, while the catalog's announced revision was this one\<close>
  "granted s0 es n serviceId pairId revision \<longleftrightarrow> (\<exists>es1 m es2 r. es = es1 @ DoResume n m # es2 \<and> hm_saved m = Inr (Some r) \<and>
     serviceId \<notin> set (pc_forgotten r) \<and> pair_active serviceId pairId r \<and> map_of (rh_revisions (fold host_exec es1 s0)) serviceId = revision)"

lemma asked_for_later: "asked_for s0 es n q \<Longrightarrow> asked_for s0 (es @ es') n q"
  unfolding asked_for_def by (metis append.assoc append_Cons)

lemma granted_later: "granted s0 es n x y r \<Longrightarrow> granted s0 (es @ es') n x y r"
  unfolding granted_def by (metis append.assoc append_Cons)

lemma granted_now:
  assumes "authorize_saved x y r (hm_saved m) (fold host_exec es s0) = Inr u"
  shows "granted s0 (es @ [DoResume n m]) n x y r"
proof -
  obtain c where "hm_saved m = Inr (Some c)" "x \<notin> set (pc_forgotten c)" "pair_active x y c" "map_of (rh_revisions (fold host_exec es s0)) x = r"
    using assms by (auto simp: authorize_saved_def bind_result_Inr revision_current_def stale_generation_def peer_fail_def split: option.splits if_splits)
  then show ?thesis unfolding granted_def by blast
qed

fun traced :: "runtime_host \<Rightarrow> host_event list \<Rightarrow> nat \<Rightarrow> host_task \<Rightarrow> bool" where
  "traced s0 es n (RuntimeInspect q _) = asked_for s0 es n q"
| "traced s0 es n (RuntimePair q r) = (asked_for s0 es n q \<and> granted s0 es n (rq_service q) (rq_pair q) r)"
| "traced s0 es n (RuntimeBinding q _) = asked_for s0 es n q"
| "traced s0 es n (BindingInspect q _ _) = asked_for s0 es n q"
| "traced s0 es n (BindingPair q _ r) = (asked_for s0 es n q \<and> granted s0 es n (rq_service q) (rq_pair q) r)"
| "traced s0 es n (AdmitPair a r) = granted s0 es n (am_service a) (hs_pairId (am_state a)) r"
| "traced _ _ _ _ = True"

lemma traced_later: "traced s0 es n t \<Longrightarrow> traced s0 (es @ es') n t"
  by (cases t) (auto simp: asked_for_later granted_later)

definition grown :: "runtime_host \<Rightarrow> runtime_host \<Rightarrow> bool" where
  \<comment> \<open>the only new promises are invalidations\<close>
  "grown s s' \<longleftrightarrow> (\<forall>k t. map_of (rh_tasks s') k = Some t \<longrightarrow> map_of (rh_tasks s) k = Some t \<or> (\<exists>g. t = AwaitInvalidate g))"

lemma grown_same: "rh_tasks s' = rh_tasks s \<Longrightarrow> grown s s'"
  by (simp add: grown_def)

lemma grown_with_owner: "grown s (with_owner o' s)"
proof -
  have send: "grown s (send_invalidate g s')" if "grown s s'" for g s'
    using that by (auto simp: grown_def send_invalidate_def update_conv')
  have "grown s (fold send_invalidate gs s')" if "grown s s'" for gs s'
    using that by (induction gs arbitrary: s') (auto intro: send)
  then show ?thesis by (simp add: with_owner_def grown_same)
qed

lemma settle_tasks: "map_of (rh_tasks (settle n (out, s))) k =
    (if k = n then (case out of HostPending t \<Rightarrow> Some t | _ \<Rightarrow> None) else map_of (rh_tasks s) k)"
  by (cases out) (auto simp: settle_def update_conv' delete_conv')

lemma traced_settle:
  assumes "grown s s'" "\<And>t. out = HostPending t \<Longrightarrow> traced s0 es n t"
    and "\<And>k t. map_of (rh_tasks s) k = Some t \<Longrightarrow> traced s0 es k t"
    and "map_of (rh_tasks (settle n (out, s'))) k = Some t"
  shows "traced s0 es k t"
proof (cases "k = n")
  case True
  then show ?thesis using assms(2,4) by (auto simp: settle_tasks split: host_outcome.splits)
next
  case False
  then have "map_of (rh_tasks s') k = Some t" using assms(4) by (simp add: settle_tasks)
  then have "map_of (rh_tasks s) k = Some t \<or> (\<exists>g. t = AwaitInvalidate g)" using assms(1) by (simp add: grown_def)
  then show ?thesis using assms(3) by auto
qed

lemma pending_pairs:
  "\<And>t. admit_begin a m s = HostPending t \<Longrightarrow> traced s0 es n t"
  "\<And>t. runtime_roots payload s = HostPending t \<Longrightarrow> traced s0 es n t"
  "\<And>t. outcome_of r = HostPending t \<Longrightarrow> traced s0 es n t"
  by (auto simp: admit_begin_def runtime_roots_def outcome_of_def split: sum.splits if_splits)

lemma record_state_traced: "recordState n a m s = (out, s') \<Longrightarrow> grown s s' \<and> (\<forall>t. out = HostPending t \<longrightarrow> traced s0 es k t)"
  using pending_pairs(1) by (auto simp: recordState_def Let_def grown_same split: option.splits)

lemma exact_fields: "exactPeerObject v ks = Inr r \<Longrightarrow> r = v"
  by (auto simp: exactPeerObject_def wire_fail_def split: js_value.splits if_splits)

lemma account_id_text: "assertAccountId v n = Inr x \<Longrightarrow> v = JStr x"
  by (auto simp: assertAccountId_def invalid_request_def peer_fail_def split: js_value.splits if_splits)

lemma handle_traced:
  assumes "host_handle n operation payload m s = (out, s')" "rh_issued (fold host_exec es s0) = n"
  shows "grown s s' \<and> (\<forall>t. out = HostPending t \<longrightarrow> traced s0 (es @ [DoCall operation payload m]) n t)"
proof -
  have asked: "traced s0 (es @ [DoCall operation payload m]) n t" if "runtime_asked operation payload s = HostPending t" for t
    using that assms(2) unfolding runtime_asked_def
    by (fastforce simp: bind_result_Inr asked_for_def dest!: account_id_text exact_fields split: sum.splits)
  have "grown s s' \<and> (\<forall>t. out = HostPending t \<longrightarrow> traced s0 (es @ [DoCall operation payload m]) n t)"
    if "peer_state n payload m s = (out, s')"
    using that record_state_traced by (auto simp: peer_state_def grown_same split: sum.splits)
  moreover have "grown s s' \<and> (\<forall>t. out \<noteq> HostPending t)" if "directory_changed payload s = (out, s') \<or> catalog_changed payload s = (out, s')"
    using that by (auto simp: directory_changed_def catalog_changed_def grown_same split: sum.splits)
  ultimately show ?thesis using assms(1) asked pending_pairs(2) [of payload s]
    by (auto simp: host_handle_def grown_same split: sum.splits if_splits)
qed

lemma resume_traced:
  assumes "resume_task n t m s = s'" "s = fold host_exec es s0" "map_of (rh_tasks s) n = Some t" "traced s0 es n t"
    and all: "\<And>k t. map_of (rh_tasks s) k = Some t \<Longrightarrow> traced s0 es k t"
    and new: "map_of (rh_tasks s') k = Some t'"
  shows "traced s0 (es @ [DoResume n m]) k t'"
proof -
  let ?es = "es @ [DoResume n m]"
  have later: "traced s0 ?es n t" "\<And>k t. map_of (rh_tasks s) k = Some t \<Longrightarrow> traced s0 ?es k t"
    using assms(4) all traced_later by blast+
  have step: "traced s0 ?es k t'" if "s' = settle n (out, s1)" "grown s s1" "\<And>t. out = HostPending t \<Longrightarrow> traced s0 ?es n t" for out s1
    using traced_settle [OF that(2,3) later(2)] new that(1) by blast
  have stays: "traced s0 ?es k t'" if "s' = settle n (out, s)" "\<And>t. out = HostPending t \<Longrightarrow> traced s0 ?es n t" for out
    using step [OF that(1) grown_same [OF refl] that(2)] .
  show ?thesis
  proof (cases t)
    case StartInspect
    obtain out s1 where o: "start_inspected m s = (out, s1)" by fastforce
    then have "grown s s1" "out \<noteq> HostPending t" for t by (auto simp: start_inspected_def grown_same split: sum.splits)
    then show ?thesis using step [of out s1] assms(1) StartInspect o by (auto simp: resume_task_def)
  next
    case (AdmitQueued a p)
    then show ?thesis using assms(1) new later(2) stays [of "admit_begin a m s"] pending_pairs(1) [of a m s] by (auto simp: resume_task_def split: if_splits)
  next
    case (AdmitInspect a r)
    have "traced s0 ?es n t" if "admit_inspected a r m s = HostPending t" for t
      using that granted_now assms(2) by (auto simp: admit_inspected_def split: sum.splits)
    then show ?thesis using stays assms(1) AdmitInspect by (auto simp: resume_task_def)
  next
    case (AdmitPair a r)
    obtain out s1 where o: "admit_pair n a r m s = (out, s1)" by fastforce
    then have "grown s s1" "out \<noteq> HostPending t" for t
      by (auto simp: admit_pair_def Let_def record_entry_def rememberAttempt_def grown_same split: sum.splits bool.splits)
    then show ?thesis using step [of out s1] assms(1) AdmitPair o by (auto simp: resume_task_def)
  next
    case (RuntimeInspect q r)
    define out where "out = (case authorize_saved (rq_service q) (rq_pair q) r (hm_saved m) s of
        Inl e \<Rightarrow> HostThrew e | Inr _ \<Rightarrow> HostPending (RuntimePair q r))"
    have "traced s0 ?es n t" if "out = HostPending t" for t
      using that later(1) RuntimeInspect granted_now assms(2) by (auto simp: out_def split: sum.splits)
    then show ?thesis using stays [of out] assms(1) RuntimeInspect by (simp add: resume_task_def out_def)
  next
    case (RuntimePair q r)
    obtain out s1 where o: "runtime_admitted q r m s = (out, s1)" by fastforce
    have "grown s (with_owner o' (s\<lparr>rh_services := x\<rparr>))" for o' x
      using grown_with_owner [of "s\<lparr>rh_services := x\<rparr>"] by (simp add: grown_def)
    then have "grown s s1" "\<And>t. out = HostPending t \<Longrightarrow> traced s0 ?es n t"
      using o later(1) RuntimePair by (auto simp: runtime_admitted_def Let_def grown_same split: sum.splits prod.splits if_splits)
    then show ?thesis using step [of out s1] assms(1) RuntimePair o by (auto simp: resume_task_def)
  next
    case (RuntimeBinding q x)
    have "traced s0 ?es n (BindingInspect q b r)" for b r using later(1) RuntimeBinding by simp
    then show ?thesis using assms(1) new later(2) RuntimeBinding
        stays [of "HostThrew e" for e] stays [of "HostPending (BindingInspect q b r)" for b r]
      by (auto simp: resume_task_def split: option.splits sum.splits)
  next
    case (BindingInspect q b r)
    define out where "out = (case authorize_saved (rq_service q) (rq_pair q) r (hm_saved m) s of
        Inl e \<Rightarrow> HostThrew e | Inr _ \<Rightarrow> HostPending (BindingPair q b r))"
    have "traced s0 ?es n t" if "out = HostPending t" for t
      using that later(1) BindingInspect granted_now assms(2) by (auto simp: out_def split: sum.splits)
    then show ?thesis using stays [of out] assms(1) BindingInspect by (simp add: resume_task_def out_def)
  next
    case (BindingPair q b r)
    obtain out s1 where o: "binding_admitted q b r m s = (out, s1)" by fastforce
    then have "grown s s1" "out \<noteq> HostPending t" for t
      by (auto simp: binding_admitted_def Let_def grown_same grown_with_owner split: sum.splits prod.splits if_splits)
    then show ?thesis using step [of out s1] assms(1) BindingPair o by (auto simp: resume_task_def)
  next
    case AwaitRoots
    then show ?thesis using assms(1) stays [of "outcome_of (bind_result (hm_roots m) share_roots)"] pending_pairs(3) by (auto simp: resume_task_def)
  next
    case (AwaitInvalidate g)
    have "grown s (unavailable code s)" for code by (simp add: unavailable_def Let_def grown_same)
    then show ?thesis using assms(1) AwaitInvalidate step [of "HostThrew e" "unavailable code s" for e code] stays [of "HostAnswered v" for v]
      by (auto simp: resume_task_def split: if_splits)
  qed
qed

lemma run_traced: "map_of (rh_tasks (fold host_exec es (new_host c r st))) n = Some t \<Longrightarrow> traced (new_host c r st) es n t"
proof (induction es arbitrary: n t rule: rev_induct)
  case Nil
  then show ?case by (simp add: new_host_def)
next
  case (snoc e es)
  let ?init = "new_host c r st"
  define s where "s = fold host_exec es ?init"
  have all: "\<And>n t. map_of (rh_tasks s) n = Some t \<Longrightarrow> traced ?init es n t" using snoc.IH by (simp add: s_def)
  then have later: "\<And>n t. map_of (rh_tasks s) n = Some t \<Longrightarrow> traced ?init (es @ [e]) n t" using traced_later by blast
  have new: "map_of (rh_tasks (host_exec e s)) n = Some t" using snoc.prems by (simp add: s_def)
  let ?n = "rh_issued s" and ?s = "s\<lparr>rh_issued := Suc (rh_issued s)\<rparr>"
  have called: "traced ?init (es @ [e]) n t" if "host_exec e s = settle ?n (out, s1)" "grown ?s s1" "\<And>t. out = HostPending t \<Longrightarrow> traced ?init (es @ [e]) ?n t" for out s1
    using traced_settle [where s = ?s and s' = s1 and out = out and ?s0.0 = ?init and es = "es @ [e]" and n = ?n and k = n and t = t]
      that(2,3) later new that(1) by simp
  show ?case
  proof (cases e)
    case (DoStart m)
    obtain out s1 where o: "host_start ?n m ?s = (out, s1)" by fastforce
    then have "grown ?s s1" "\<And>t. out = HostPending t \<Longrightarrow> traced ?init (es @ [e]) ?n t"
      by (auto simp: host_start_def grown_same split: sum.splits option.splits)
    then show ?thesis using called o DoStart by (simp add: host_exec_def Let_def)
  next
    case (DoCall operation payload m)
    obtain out s1 where o: "host_handle ?n operation payload m ?s = (out, s1)" by fastforce
    then show ?thesis using called handle_traced [OF o, of es ?init] DoCall by (simp add: host_exec_def Let_def s_def)
  next
    case (DoReply k v m)
    obtain out s1 where o: "connect_replied ?n (rh_prepared s ! k) v m ?s = (out, s1)" by fastforce
    then have "grown ?s s1" "\<And>t. out = HostPending t \<Longrightarrow> traced ?init (es @ [e]) ?n t"
      using record_state_traced by (auto simp: connect_replied_def grown_same split: sum.splits prod.splits)
    then show ?thesis using called o new later DoReply by (auto simp: host_exec_def Let_def split: if_splits)
  next
    case (DoResume k m)
    then show ?thesis using new later resume_traced [OF refl s_def, of k _ m] all
      by (auto simp: host_exec_def Let_def split: option.splits)
  next
    case (DoOwner oe)
    have "map_of (rh_tasks s) n = Some t \<or> (\<exists>g. t = AwaitInvalidate g)"
      using new grown_with_owner [of s "owner_next oe (rh_owner s)"] DoOwner by (simp add: host_exec_def Let_def grown_def)
    then show ?thesis using later by auto
  qed (use new later in \<open>auto simp: host_exec_def Let_def prepareConnectReply_def channel_died_def failClosed_def close_host_def stop_def
      unavailable_def split: sum.splits if_splits\<close>)
qed

section \<open>What the host guarantees\<close>

lemma run_ok: "host_ok (fold host_exec es (new_host c r st))"
  by (rule host.inv_reachable) blast


lemma settle_done: "rh_done (settle n (out, s)) =
    rh_done s @ (case out of HostPending _ \<Rightarrow> [] | HostAnswered v \<Rightarrow> [(n, Inr v)] | HostThrew e \<Rightarrow> [(n, Inl e)])"
  by (cases out) (simp_all add: settle_def)

lemma with_owner_frame [simp]:
  "rh_done (with_owner o' s) = rh_done s" "rh_owner (with_owner o' s) = o'" "rh_revisions (with_owner o' s) = rh_revisions s"
  "rh_aborted (with_owner o' s) = rh_aborted s"
proof -
  have "rh_done (fold send_invalidate gs s') = rh_done s' \<and> rh_owner (fold send_invalidate gs s') = rh_owner s' \<and>
      rh_revisions (fold send_invalidate gs s') = rh_revisions s' \<and> rh_aborted (fold send_invalidate gs s') = rh_aborted s'" for gs s'
    by (induction gs arbitrary: s') (simp_all add: send_invalidate_def)
  then show "rh_done (with_owner o' s) = rh_done s" "rh_owner (with_owner o' s) = o'" "rh_revisions (with_owner o' s) = rh_revisions s"
    "rh_aborted (with_owner o' s) = rh_aborted s" by (simp_all add: with_owner_def)
qed

lemma answers_binding:
  assumes "rh_done (resume_task n t m s) = rh_done s @ [(n, Inr (AnsBinding b))]"
  shows "\<exists>q rev. t = BindingPair q b rev \<and> fst (binding_admitted q b rev m s) = HostAnswered (AnsBinding b)"
proof (cases t)
  case (BindingPair q b' rev)
  obtain out s1 where o: "binding_admitted q b' rev m s = (out, s1)" by fastforce
  then have "rh_done s1 = rh_done s" "out = HostAnswered (AnsBinding b') \<or> (\<exists>e. out = HostThrew e)"
    by (auto simp: binding_admitted_def Let_def split: sum.splits prod.splits if_splits)
  then show ?thesis using assms o BindingPair by (auto simp: resume_task_def settle_done)
next
  case (AdmitPair a rev)
  obtain out s1 where o: "admit_pair n a rev m s = (out, s1)" by fastforce
  then have "rh_done s1 = rh_done s" "out = HostAnswered AnsEmpty \<or> (\<exists>e. out = HostThrew e)"
    by (auto simp: admit_pair_def Let_def record_entry_def rememberAttempt_def split: sum.splits bool.splits)
  then show ?thesis using assms o AdmitPair by (auto simp: resume_task_def settle_done)
next
  case (RuntimePair q rev)
  obtain out s1 where o: "runtime_admitted q rev m s = (out, s1)" by fastforce
  then have "rh_done s1 = rh_done s" "out = HostAnswered AnsEmpty \<or> (\<exists>e. out = HostThrew e) \<or> (\<exists>t. out = HostPending t)"
    by (auto simp: runtime_admitted_def Let_def split: sum.splits prod.splits if_splits)
  then show ?thesis using assms o RuntimePair by (auto simp: resume_task_def settle_done)
next
  case (RuntimeBinding q x)
  then show ?thesis using assms by (auto simp: resume_task_def settle_done split: option.splits sum.splits)
next
  case AwaitRoots
  then show ?thesis using assms by (auto simp: resume_task_def settle_done outcome_of_def share_roots_def bind_result_Inr split: sum.splits if_splits)
qed (use assms in \<open>auto simp: resume_task_def settle_done start_inspected_def admit_begin_def admit_inspected_def unavailable_def Let_def
    split: sum.splits if_splits\<close>)

text \<open>
  Only an authorized pair gets the local workbench, and only while it runs (C21).  When a runtime request is answered with a binding, the
  request came from the core in a callback naming a service and a pair; the promise read a catalog in which the service is not forgotten and
  the pair is active, and the revision last announced for the service is the same now as at that read; the host is up; and at this very
  moment the child process runs at the binding's URL, and the binding is the owner's current one.
\<close>

theorem host_binding_authorized:
  assumes "s = fold host_exec es (new_host c r st)"
    and "rh_done (host_exec (DoResume n m) s) = rh_done s @ [(n, Inr (AnsBinding b))]"
  shows "\<exists>q. asked_for (new_host c r st) es n q \<and>
      granted (new_host c r st) es n (rq_service q) (rq_pair q) (map_of (rh_revisions s) (rq_service q)) \<and>
      \<not> rh_aborted s \<and> rh_failure s = None \<and> ro_source (rh_owner s) = LaunchRunning (bn_url b) \<and>
      ro_binding (rh_owner (host_exec (DoResume n m) s)) = Some b"
proof -
  obtain t where t: "map_of (rh_tasks s) n = Some t"
    using assms(2) by (cases "map_of (rh_tasks s) n") (auto simp: host_exec_def)
  then have e: "host_exec (DoResume n m) s = resume_task n t m s" by (simp add: host_exec_def)
  obtain q rev where q: "t = BindingPair q b rev" "fst (binding_admitted q b rev m s) = HostAnswered (AnsBinding b)"
    using assms(2) e answers_binding [of n t m s b] by auto
  have checks: "bind_result (host_admit (hm_aborted m) s) (\<lambda>_. revision_current (rq_service q) rev s) = Inr ()"
    "owner_assertCurrent b (rh_owner s) = (True, snd (owner_assertCurrent b (rh_owner s)))"
    using q(2) by (auto simp: binding_admitted_def Let_def split: sum.splits prod.splits if_splits)
  have "rh_failure s = None" "\<not> rh_aborted s" "map_of (rh_revisions s) (rq_service q) = rev"
    using checks(1) by (auto simp: bind_result_Inr host_admit_def revision_current_def stale_generation_def peer_fail_def split: option.splits if_splits)
  moreover have "asked_for (new_host c r st) es n q" "granted (new_host c r st) es n (rq_service q) (rq_pair q) rev"
    using run_traced [where es = es and c = c and r = r and st = st and n = n and t = t] t q(1) assms(1) by auto
  moreover have "ro_binding (rh_owner (host_exec (DoResume n m) s)) = Some b" "ro_source (rh_owner s) = LaunchRunning (bn_url b)"
    using checks owner_assert_current [OF checks(2)] q e by (auto simp: resume_task_def binding_admitted_def Let_def settle_def split: prod.splits)
  ultimately show ?thesis by auto
qed

lemma lastn_append: "n \<le> length ys \<Longrightarrow> lastn n (xs @ ys) = lastn n ys"
  by (simp add: lastn_def)

text \<open>
  An attempt the host has moved past comes back after four others (C39).  The host keeps the last four attempts of a pair only: once four attempts
  have replaced an attempt, a late report of it that reaches its last check is recorded as the pair's state
  again, although it was superseded long before.
\<close>

theorem forgotten_attempt_returns:
  assumes "s = fold host_exec es (new_host c r st)"
    and "map_of (rh_tasks s) n = Some (AdmitPair a revision)" "am_reply a = None"
    and "attempts_of (lineage (admission_key a) s) = xs @ hs_attemptId (am_state a) # ys" "hs_attemptId (am_state a) \<notin> set ys" "4 \<le> length ys"
    and "\<not> rh_aborted s" "rh_failure s = None" "\<not> hm_aborted m" "map_of (rh_revisions s) (am_service a) = revision"
  shows "rh_recorded (host_exec (DoResume n m) s) = rh_recorded s @ [(admission_key a, n, am_state a)] \<and>
    map_option en_state (map_of (rh_states (host_exec (DoResume n m) s)) (admission_key a)) = Some (am_state a)"
proof -
  let ?k = "admission_key a"
  have l: "lineage_ok s ?k" using run_ok assms(1) by (simp add: host_ok_def)
  have "lastn 4 (xs @ hs_attemptId (am_state a) # ys) = lastn 4 ys"
    using assms(6) lastn_append [of 4 ys "xs @ [hs_attemptId (am_state a)]"] by simp
  then have seen: "\<not> sawAttempt ?k (hs_attemptId (am_state a)) s"
    using l assms(4,5) unfolding lineage_ok_def sawAttempt_def by (metis in_set_dropD lastn_def)
  have ne: "lineage ?k s \<noteq> []" using assms(4) by (auto simp: attempts_of_def)
  have "last (attempts_of (lineage ?k s)) \<noteq> hs_attemptId (am_state a)" using assms(4-6) by (cases ys rule: rev_cases) auto
  then have "hs_attemptId (snd (last (lineage ?k s))) \<noteq> hs_attemptId (am_state a)" using last_attempt [OF ne] by simp
  moreover obtain p where "map_of (rh_states s) ?k = Some p" "(en_ref p, en_state p) = last (lineage ?k s)"
    using l ne assms(7) by (auto simp: lineage_ok_def)
  moreover from this have "hs_attemptId (en_state p) \<noteq> hs_attemptId (am_state a)" using calculation(1) by (metis snd_conv)
  ultimately have "admit_progress a (map_of (rh_states s) ?k) s = Inr ()"
    using seen by (simp add: admit_progress_def assertStateProgress_def)
  then show ?thesis using assms(2,3,7-10)
    by (simp add: host_exec_def resume_task_def admit_pair_def Let_def host_admit_def reply_current_def revision_current_def reply_verdict_def
        record_entry_def rememberAttempt_def settle_def update_conv')
qed

definition sample_host_moment :: host_moment where
  "sample_host_moment = \<lparr>hm_saved = Inr (Some sample_entry_catalog), hm_aborted = False, hm_current = Inr (), hm_roots = Inr [], hm_failed = False, hm_during = []\<rparr>"

definition sample_report :: "string \<Rightarrow> host_event" where
  "sample_report attemptId = DoCall ''peer.state'' (JObj [(''serviceId'', JStr ''bbbbbbbbbbbb''),
     (''state'', JObj [(''pairId'', JStr ''0123456789ab''), (''attemptId'', JStr attemptId), (''generation'', JNum 7),
        (''stage'', JStr ''ready''), (''error'', JStr []), (''runtimeGeneration'', JNum 1),
        (''path'', JObj [(''localType'', JStr ''host''), (''remoteType'', JStr ''host''), (''protocol'', JStr ''udp'')])])]) sample_host_moment"

definition sample_reports :: "host_event list" where
  "sample_reports = concat (map (\<lambda>(n, x). [sample_report (x # ''00000000000''), DoResume n sample_host_moment, DoResume n sample_host_moment])
     [(0, CHR ''a''), (1, CHR ''b''), (2, CHR ''c''), (3, CHR ''d''), (4, CHR ''e'')]) @
     [sample_report ''a00000000000'', DoResume 5 sample_host_moment]"

definition sample_lineage :: runtime_host where
  "sample_lineage = fold host_exec sample_reports (new_host True False LaunchStopped)"

theorem forgotten_attempt_returns_witness:
  "map_option en_state (map_of (rh_states (host_exec (DoResume 5 sample_host_moment) sample_lineage)) ''bbbbbbbbbbbb:0123456789ab'') =
     Some (sample_state PeerReady\<lparr>hs_attemptId := ''a00000000000''\<rparr>)"
proof -
  let ?a = "\<lparr>am_service = ''bbbbbbbbbbbb'', am_state = sample_state PeerReady\<lparr>hs_attemptId := ''a00000000000''\<rparr>, am_reply = None\<rparr>"
  have k: "admission_key ?a = ''bbbbbbbbbbbb:0123456789ab''" by code_simp
  have 1: "map_of (rh_tasks sample_lineage) 5 = Some (AdmitPair ?a None)" by code_simp
  have 2: "attempts_of (lineage ''bbbbbbbbbbbb:0123456789ab'' sample_lineage) =
      [] @ hs_attemptId (am_state ?a) # [''b00000000000'', ''c00000000000'', ''d00000000000'', ''e00000000000'']" by code_simp
  have 3: "\<not> rh_aborted sample_lineage" "rh_failure sample_lineage = None" "map_of (rh_revisions sample_lineage) (am_service ?a) = None" by code_simp+
  show ?thesis
    using forgotten_attempt_returns [OF sample_lineage_def 1 _ _ _ _ 3(1,2), unfolded k, OF _ 2, of sample_host_moment] 3(3)
    by (simp add: sample_state_def sample_host_moment_def)
qed

definition sample_runtime_run :: "host_event list" where
  "sample_runtime_run = [DoCall ''runtime.connect'' (JObj [(''serviceId'', JStr ''bbbbbbbbbbbb''), (''pairId'', JStr ''0123456789ab'')]) sample_host_moment,
     DoResume 0 sample_host_moment, DoResume 0 sample_host_moment, DoResume 0 sample_host_moment, DoResume 0 sample_host_moment]"

theorem host_binding_authorized_witness:
  "\<exists>s. s = fold host_exec sample_runtime_run (new_host True False (LaunchRunning ''http://127.0.0.1:2/'')) \<and>
     rh_done (host_exec (DoResume 0 sample_host_moment) s) = [(0, Inr (AnsBinding \<lparr>bn_generation = 1, bn_url = ''http://127.0.0.1:2/''\<rparr>))] \<and>
     ro_source (rh_owner s) = LaunchRunning ''http://127.0.0.1:2/''"
proof -
  let ?s = "fold host_exec sample_runtime_run (new_host True False (LaunchRunning ''http://127.0.0.1:2/''))"
  have 1: "rh_done (host_exec (DoResume 0 sample_host_moment) ?s) = rh_done ?s @ [(0, Inr (AnsBinding \<lparr>bn_generation = 1, bn_url = ''http://127.0.0.1:2/''\<rparr>))]"
    and 2: "rh_done ?s = []" by code_simp+
  show ?thesis using host_binding_authorized [OF refl 1] 1 2 by auto
qed

end
