(* ===== verification/Peer_Rpc.thy ===== *)
theory Peer_Rpc
  imports Peer_Wire
begin

text \<open>
  The authenticated channel to the core (\<open>electron/main/p2p/rpc.ts\<close>): calls with their numbers, the reader that
  cuts the byte stream into frames, incoming requests and their answers, and closing.

  Bytes are numbers; the text decoder is a parameter that gives nothing where the fatal decoder throws.  A waiting call is its number and
  an incoming request its frame with the state of its abort signal; timers, abort signals, the answers of the handler and the
  socket's buffered length (\<open>ch_writable\<close>) are events.  \<open>ch_sent\<close>, \<open>ch_settled\<close>, \<open>ch_requests\<close> and \<open>ch_closedWith\<close> are
  history variables: the lines written, the calls settled, the requests handed to the handler and the error
  \<open>onClose\<close> was told.
\<close>

section \<open>State\<close>

record channel =
  ch_pending :: "int list"
  ch_incoming :: "(peer_frame \<times> bool) list"   \<comment> \<open>the request and whether its signal is aborted\<close>
  ch_buffer :: "nat list"
  ch_next :: int
  ch_lastIncoming :: int
  ch_closed :: bool
  ch_writable :: nat
  ch_sent :: "string list"
  ch_settled :: "(int \<times> (string + js_value)) list"
  ch_requests :: "peer_frame list"
  ch_closedWith :: "string list"

definition new_channel :: channel where
  "new_channel = \<lparr>ch_pending = [], ch_incoming = [], ch_buffer = [], ch_next = 0, ch_lastIncoming = 0, ch_closed = False,
     ch_writable = 0, ch_sent = [], ch_settled = [], ch_requests = [], ch_closedWith = []\<rparr>"

definition main_methods :: "string list" where
  "main_methods = [''runtime.connect'', ''runtime.resume'', ''runtime.roots'', ''peer.state'', ''directory.changed'', ''catalog.changed'']"

section \<open>Writing and closing\<close>

definition close_channel :: "string \<Rightarrow> channel \<Rightarrow> channel" where
  "close_channel code s =
     (if ch_closed s then s
      else s\<lparr>ch_closed := True, ch_buffer := [], ch_pending := [],
             ch_settled := ch_settled s @ map (\<lambda>i. (i, Inl code)) (ch_pending s),
             ch_incoming := map (\<lambda>(f, _). (f, True)) (ch_incoming s), ch_closedWith := ch_closedWith s @ [code]\<rparr>)"

definition frame_value :: "int \<Rightarrow> string \<Rightarrow> js_value \<Rightarrow> string \<Rightarrow> js_value" where
  "frame_value i method payload err =
     JObj [(''version'', JNum 1), (''id'', JNum i), (''method'', JStr method), (''payload'', payload), (''error'', JStr err)]"

definition write_frame :: "js_value \<Rightarrow> channel \<Rightarrow> unit peer_result \<times> channel" where
  "write_frame frame s =
     (if ch_closed s then (peer_fail ''p2p.helper_unavailable'', s)
      else let encoded = json_text frame in
        case decodePeerFrame encoded of
          Inl e \<Rightarrow> (Inl e, s)
        | Inr _ \<Rightarrow>
            if ch_writable s + utf8Length encoded > 1024 * 1024
            then (peer_fail ''p2p.protocol_limit'', close_channel ''p2p.protocol_limit'' s)
            else (Inr (), s\<lparr>ch_sent := ch_sent s @ [encoded]\<rparr>))"

section \<open>Calls\<close>

definition finish :: "int \<Rightarrow> string \<Rightarrow> channel \<Rightarrow> channel" where
  \<comment> \<open>a call that ended by its timer, its signal or a failed write; an already settled call stays as it is\<close>
  "finish i code s =
     (if i \<in> set (ch_pending s)
      then s\<lparr>ch_pending := removeAll i (ch_pending s), ch_settled := ch_settled s @ [(i, Inl code)]\<rparr> else s)"

definition write_failure :: "peer_error \<Rightarrow> string" where
  "write_failure e = (case e of PeerHelperError code \<Rightarrow> code | _ \<Rightarrow> ''p2p.invalid_payload'')"

definition rpc_call :: "string \<Rightarrow> js_value \<Rightarrow> bool \<Rightarrow> channel \<Rightarrow> (string + int) \<times> channel" where
  \<comment> \<open>the refusal, or the number the caller waits for\<close>
  "rpc_call method payload aborted s =
     (if ch_closed s then (Inl ''p2p.helper_unavailable'', s)
      else if aborted then (Inl ''p2p.request_cancelled'', s)
      else if method = [] \<or> length method > 80 then (Inl ''p2p.invalid_operation'', s)
      else if length (ch_pending s) \<ge> 16 \<or> ch_next s \<ge> max_safe_integer then (Inl ''p2p.helper_busy'', s)
      else
       (let i = ch_next s + 1;
            s1 = s\<lparr>ch_next := i, ch_pending := ch_pending s @ [i]\<rparr> in
        case write_frame (frame_value i method payload []) s1 of
          (Inl e, s2) \<Rightarrow> (Inr i, finish i (write_failure e) s2)
        | (Inr _, s2) \<Rightarrow> (Inr i, s2)))"

section \<open>Incoming frames\<close>

definition reply_value :: "peer_frame \<Rightarrow> js_value \<Rightarrow> string \<Rightarrow> js_value" where
  \<comment> \<open>\<open>{ ...frame, method: '', payload, error }\<close>\<close>
  "reply_value f payload err = frame_value (pf_id f) [] payload err"

definition settle_call :: "peer_frame \<Rightarrow> channel \<Rightarrow> channel" where
  "settle_call f s =
     (if pf_id f \<in> set (ch_pending s)
      then s\<lparr>ch_pending := removeAll (pf_id f) (ch_pending s),
             ch_settled := ch_settled s @ [(pf_id f, if pf_error f \<noteq> [] then Inl (pf_error f) else Inr (pf_payload f))]\<rparr>
      else s)"

definition dispatch :: "peer_frame \<Rightarrow> channel \<Rightarrow> unit peer_result \<times> channel" where
  "dispatch f s =
     (if pf_method f = [] then (Inr (), settle_call f s)
      else if pf_id f \<le> ch_lastIncoming s then (wire_fail, s)
      else
       (let s1 = s\<lparr>ch_lastIncoming := pf_id f\<rparr> in
        if pf_method f \<notin> set main_methods then write_frame (reply_value f (JObj []) ''p2p.invalid_operation'') s1
        else if length (ch_incoming s1) \<ge> 16 then write_frame (reply_value f (JObj []) ''p2p.helper_busy'') s1
        else (Inr (), s1\<lparr>ch_incoming := ch_incoming s1 @ [(f, False)], ch_requests := ch_requests s1 @ [f]\<rparr>)))"

definition handler_code :: "peer_error \<Rightarrow> string" where
  "handler_code e = (case e of PeerHelperError code \<Rightarrow> (if peerErrorCode (JStr code) then code else ''p2p.operation_failed'') | _ \<Rightarrow> ''p2p.operation_failed'')"

definition refuse_request :: "peer_frame \<Rightarrow> peer_error \<Rightarrow> channel \<Rightarrow> unit peer_result \<times> channel" where
  \<comment> \<open>the \<open>catch\<close> of \<open>#handle\<close>\<close>
  "refuse_request f e s = (if ch_closed s then (Inr (), s) else write_frame (reply_value f (JObj []) (handler_code e)) s)"

definition answer_request :: "peer_frame \<Rightarrow> bool \<Rightarrow> js_value peer_result \<Rightarrow> channel \<Rightarrow> unit peer_result \<times> channel" where
  \<comment> \<open>the handler of the request returned or threw\<close>
  "answer_request f aborted outcome s =
     (case outcome of
        Inl e \<Rightarrow> refuse_request f e s
      | Inr payload \<Rightarrow>
          if ch_closed s \<or> aborted then (Inr (), s)
          else case write_frame (reply_value f payload []) s of
            (Inl e, s1) \<Rightarrow> refuse_request f e s1
          | (Inr _, s1) \<Rightarrow> (Inr (), s1))"

definition handled :: "nat \<Rightarrow> js_value peer_result \<Rightarrow> channel \<Rightarrow> channel" where
  \<comment> \<open>the \<open>k\<close>-th request in progress ends\<close>
  "handled k outcome s =
     (if k < length (ch_incoming s)
      then (let (f, aborted) = ch_incoming s ! k;
                (r, s1) = answer_request f aborted outcome s;
                s2 = s1\<lparr>ch_incoming := take k (ch_incoming s1) @ drop (Suc k) (ch_incoming s1)\<rparr>
            in (case r of Inl _ \<Rightarrow> close_channel ''p2p.protocol_mismatch'' s2 | Inr _ \<Rightarrow> s2))
      else s)"

definition expire :: "nat \<Rightarrow> channel \<Rightarrow> channel" where
  \<comment> \<open>the timer of the \<open>k\<close>-th request aborts its signal\<close>
  "expire k s = (if k < length (ch_incoming s)
     then s\<lparr>ch_incoming := (ch_incoming s)[k := (fst (ch_incoming s ! k), True)]\<rparr> else s)"

definition read_line :: "(nat list \<Rightarrow> string option) \<Rightarrow> channel \<Rightarrow> unit peer_result \<times> channel" where
  \<comment> \<open>a complete line is in the buffer\<close>
  "read_line decode s =
     (case decode (ch_buffer s) of
        None \<Rightarrow> (Inl HostError, s)
      | Some t \<Rightarrow> (case decodePeerFrame t of Inl e \<Rightarrow> (Inl e, s) | Inr f \<Rightarrow> dispatch f (s\<lparr>ch_buffer := []\<rparr>)))"

function receive_loop :: "(nat list \<Rightarrow> string option) \<Rightarrow> nat list \<Rightarrow> channel \<Rightarrow> channel" where
  "receive_loop decode data s =
     (if data = [] then s
      else let line = takeWhile (\<lambda>b. b \<noteq> 10) data; rest = dropWhile (\<lambda>b. b \<noteq> 10) data in
        if length (ch_buffer s) + length line > MAX_PEER_CONTROL_BYTES then close_channel ''p2p.protocol_mismatch'' s
        else let s1 = s\<lparr>ch_buffer := ch_buffer s @ line\<rparr> in
          if rest = [] then s1
          else case read_line decode s1 of
            (Inl _, s2) \<Rightarrow> close_channel ''p2p.protocol_mismatch'' s2
          | (Inr _, s2) \<Rightarrow> receive_loop decode (tl rest) s2)"
  by pat_completeness auto

termination
proof (relation "measure (\<lambda>(_, data, _). length data)", goal_cases)
  case (2 decode data s line rest s1 r s2 u)
  then have "length rest \<le> length data" "rest \<noteq> []" by (simp_all add: length_dropWhile_le)
  then show ?case by (cases rest) auto
qed simp

declare receive_loop.simps [simp del]

definition receive :: "(nat list \<Rightarrow> string option) \<Rightarrow> nat list \<Rightarrow> channel \<Rightarrow> channel" where
  "receive decode data s = (if ch_closed s then s else receive_loop decode data s)"

section \<open>Chunks do not matter\<close>

lemma close_channel_closed [simp]: "ch_closed (close_channel code s)"
  by (simp add: close_channel_def)

lemma close_channel_buffer: "\<not> ch_closed s \<Longrightarrow> close_channel code (s\<lparr>ch_buffer := b\<rparr>) = close_channel code s"
  by (simp add: close_channel_def)

lemma write_frame_Inr: "write_frame f s = (Inr u, s') \<Longrightarrow>
    s' = s\<lparr>ch_sent := ch_sent s @ [json_text f]\<rparr> \<and> \<not> ch_closed s \<and> (\<exists>g. decodePeerFrame (json_text f) = Inr g)"
  by (auto simp: write_frame_def Let_def peer_fail_def split: if_splits sum.splits)

lemma dispatch_open: "dispatch f s = (Inr u, s') \<Longrightarrow> \<not> ch_closed s \<Longrightarrow> \<not> ch_closed s' \<and> ch_buffer s' = ch_buffer s"
  by (auto simp: dispatch_def Let_def settle_call_def wire_fail_def peer_fail_def split: if_splits dest!: write_frame_Inr)

lemma read_line_open: "read_line decode s = (Inr u, s') \<Longrightarrow> \<not> ch_closed s \<Longrightarrow> \<not> ch_closed s'"
  by (auto simp: read_line_def split: option.splits sum.splits dest!: dispatch_open)

lemma receive_loop_Nil [simp]: "receive_loop decode [] s = s"
  by (simp add: receive_loop.simps)

lemma receive_loop_partial:
  assumes "10 \<notin> set d" "\<not> ch_closed s"
  shows "receive decode d2 (receive_loop decode d s) = receive_loop decode (d @ d2) s"
proof (cases "d = []")
  case False
  have tw: "takeWhile (\<lambda>b. b \<noteq> 10) d = d" "dropWhile (\<lambda>b. b \<noteq> 10) d = []" using assms(1) by (auto simp: takeWhile_eq_all_conv)
  have tw2: "takeWhile (\<lambda>b. b \<noteq> 10) (d @ d2) = d @ takeWhile (\<lambda>b. b \<noteq> 10) d2"
    "dropWhile (\<lambda>b. b \<noteq> 10) (d @ d2) = dropWhile (\<lambda>b. b \<noteq> 10) d2"
    using assms(1) by (induction d) auto
  show ?thesis
  proof (cases "length (ch_buffer s) + length d > MAX_PEER_CONTROL_BYTES")
    case True
    then show ?thesis using False by (simp add: receive_loop.simps [of decode d] receive_loop.simps [of decode "d @ d2"] tw tw2 receive_def)
  next
    case small: False
    then have "receive_loop decode d s = s\<lparr>ch_buffer := ch_buffer s @ d\<rparr>"
      using False by (simp add: receive_loop.simps [of decode d] tw)
    then show ?thesis using assms(2) False small
      by (cases "d2 = []") (simp_all add: receive_def receive_loop.simps [of decode d2] receive_loop.simps [of decode "d @ d2"] tw2 close_channel_buffer Let_def)
  qed
qed (use assms in \<open>simp add: receive_def\<close>)

lemma receive_loop_append:
  "\<not> ch_closed s \<Longrightarrow> receive decode d2 (receive_loop decode d1 s) = receive_loop decode (d1 @ d2) s"
proof (induction decode d1 s rule: receive_loop.induct)
  case (1 decode data s)
  show ?case
  proof (cases "10 \<in> set data")
    case False
    then show ?thesis using receive_loop_partial "1.prems" by blast
  next
    case True
    let ?line = "takeWhile (\<lambda>b. b \<noteq> 10) data" and ?rest = "dropWhile (\<lambda>b. b \<noteq> 10) data"
    have ne: "data \<noteq> []" "?rest \<noteq> []" using True by (auto simp: dropWhile_eq_Nil_conv)
    have tw: "takeWhile (\<lambda>b. b \<noteq> 10) (data @ d2) = ?line" "dropWhile (\<lambda>b. b \<noteq> 10) (data @ d2) = ?rest @ d2"
      using True by (simp_all add: takeWhile_append1 dropWhile_append1)
    show ?thesis
    proof (cases "length (ch_buffer s) + length ?line > MAX_PEER_CONTROL_BYTES")
      case True
      then show ?thesis using ne
        by (simp add: receive_loop.simps [of decode data] receive_loop.simps [of decode "data @ d2"] tw receive_def Let_def del: dropWhile_eq_Nil_conv)
    next
      case small: False
      let ?s1 = "s\<lparr>ch_buffer := ch_buffer s @ ?line\<rparr>"
      obtain r s2 where r: "read_line decode ?s1 = (r, s2)" by fastforce
      show ?thesis
      proof (cases r)
        case (Inl e)
        then show ?thesis using ne small r
          by (simp add: receive_loop.simps [of decode data] receive_loop.simps [of decode "data @ d2"] tw receive_def Let_def del: dropWhile_eq_Nil_conv)
      next
        case (Inr u)
        then have "\<not> ch_closed s2" using read_line_open [of decode ?s1 u s2] r "1.prems" by simp
        then have "receive decode d2 (receive_loop decode (tl ?rest) s2) = receive_loop decode (tl ?rest @ d2) s2"
          using "1.IH" [OF ne(1) refl refl small refl ne(2)] r Inr by auto
        then show ?thesis using ne small r Inr
          by (simp add: receive_loop.simps [of decode data] receive_loop.simps [of decode "data @ d2"] tw receive_def Let_def del: dropWhile_eq_Nil_conv)
      qed
    qed
  qed
qed

lemma receive_append: "receive decode d2 (receive decode d1 s) = receive decode (d1 @ d2) s"
  using receive_loop_append by (cases "ch_closed s") (simp_all add: receive_def)

lemma receive_chunks: "fold (receive decode) chunks s = receive decode (concat chunks) s"
proof (induction chunks arbitrary: s)
  case (Cons d chunks)
  then show ?case by (simp add: receive_append)
qed (simp add: receive_def)

section \<open>What is written is what is read\<close>

abbreviation newline :: char where "newline \<equiv> CHR 0x0A"

lemma hex_digit_newline: "n < 16 \<Longrightarrow> hex_digit n \<noteq> newline"
proof
  assume "n < 16" "hex_digit n = newline"
  then have "hex_value newline = Some n" using hex_value_digit [of n] by simp
  moreover have "hex_value newline = None" by (simp add: hex_value_def code_unit_def of_char_def)
  ultimately show False by simp
qed

lemma json_char_newline: "newline \<notin> set (json_char c)"
proof -
  have "c = newline \<Longrightarrow> code_unit c = 10" by (simp add: code_unit_def of_char_def)
  then show ?thesis using hex_digit_newline [of "code_unit c div 16"] hex_digit_newline [of "code_unit c mod 16"]
    by (auto simp: json_char_def Let_def eq_commute [of newline] split: if_splits)
qed

lemma js_join_newline: "newline \<notin> set sep \<Longrightarrow> list_all (\<lambda>t. newline \<notin> set t) ts \<Longrightarrow> newline \<notin> set (js_join sep ts)"
  by (induction sep ts rule: js_join.induct) auto

lemma json_string_newline: "newline \<notin> set (json_string t)"
  using json_char_newline by (auto simp: json_string_def)

lemma json_int_newline: "newline \<notin> set (json_int n)"
proof -
  have "\<not> js_is_digit newline" by (simp add: js_is_digit_def code_unit_def of_char_def)
  then show ?thesis using digits_of_nat_digits [of "nat \<bar>n\<bar>"] by (auto simp: json_int_def list_all_iff)
qed

lemma json_text_newline:
  "newline \<notin> set (json_text v)" "list_all (\<lambda>t. newline \<notin> set t) (json_items vs)"
  "list_all (\<lambda>t. newline \<notin> set t) (json_members kvs)"
  by (induction v and vs and kvs rule: json_text_json_items_json_members.induct)
    (auto simp: json_int_newline json_string_newline js_join_newline)

definition utf8 :: "string \<Rightarrow> nat list" where
  "utf8 t = concat (map utf8_char t)"

lemma utf8_newline: "newline \<notin> set t \<Longrightarrow> 10 \<notin> set (utf8 t)"
proof -
  have "c = newline" if "10 \<in> set (utf8_char c)" for c
  proof -
    have "code_unit c = 10" using that by (auto simp: utf8_char_def split: if_splits)
    then have "c = char_of (10 :: nat)" unfolding code_unit_def by (metis char_of_char)
    then show ?thesis by (simp add: char_of_def bit_Suc_0_iff)
  qed
  then show "newline \<notin> set t \<Longrightarrow> ?thesis" by (auto simp: utf8_def)
qed

lemma utf8_length: "length (utf8 t) = utf8Length t"
  by (induction t) (auto simp: utf8_def utf8Length_def utf8_char_def)

definition wire :: "string \<Rightarrow> nat list" where
  \<comment> \<open>the bytes of \<open>socket.write(encoded + '\n')\<close>\<close>
  "wire t = utf8 t @ [10]"

fun deliver :: "peer_frame list \<Rightarrow> channel \<Rightarrow> channel" where
  \<comment> \<open>frames dispatched in order; the first one that cannot be accepted closes the channel\<close>
  "deliver [] s = s"
| "deliver (f # fs) s =
     (case dispatch f s of (Inl _, s') \<Rightarrow> close_channel ''p2p.protocol_mismatch'' s' | (Inr _, s') \<Rightarrow> deliver fs s')"

lemma decodePeerFrame_size: "decodePeerFrame t = Inr f \<Longrightarrow> utf8Length t \<le> MAX_PEER_CONTROL_BYTES"
  by (auto simp: decodePeerFrame_def bind_result_Inr parsePeerJson_def split: if_splits)

lemma receive_line:
  assumes "newline \<notin> set t" "decodePeerFrame t = Inr f" "decode (utf8 t) = Some t" "ch_buffer s = []"
  shows "receive_loop decode (wire t @ rest) s =
    (case dispatch f s of (Inl _, s') \<Rightarrow> close_channel ''p2p.protocol_mismatch'' s' | (Inr _, s') \<Rightarrow> receive_loop decode rest s')"
proof -
  have n: "10 \<notin> set (utf8 t)" by (rule utf8_newline [OF assms(1)])
  then have tw: "takeWhile (\<lambda>b. b \<noteq> 10) (utf8 t @ 10 # rest) = utf8 t" "dropWhile (\<lambda>b. b \<noteq> 10) (utf8 t @ 10 # rest) = 10 # rest"
    by (auto simp: takeWhile_append dropWhile_append takeWhile_eq_all_conv split: if_splits)
  have "length (utf8 t) \<le> MAX_PEER_CONTROL_BYTES" using decodePeerFrame_size [OF assms(2)] by (simp add: utf8_length)
  moreover have sb: "s\<lparr>ch_buffer := []\<rparr> = s" using assms(4) by (cases s) simp
  ultimately show ?thesis
    by (simp add: sb wire_def receive_loop.simps [of decode "utf8 t @ 10 # rest"] tw assms read_line_def Let_def del: dropWhile_eq_Nil_conv split: prod.split sum.split)
qed

lemma receive_lines:
  assumes "\<And>t. decode (utf8 t) = Some t" "\<not> ch_closed s" "ch_buffer s = []"
    and "list_all2 (\<lambda>t f. newline \<notin> set t \<and> decodePeerFrame t = Inr f) ts fs"
  shows "receive_loop decode (concat (map wire ts)) s = deliver fs s"
  using assms(4,2,3)
proof (induction arbitrary: s rule: list_all2_induct)
  case (Cons t ts f fs)
  then show ?case using dispatch_open [of f s]
    by (auto simp: receive_line [where decode = decode] assms(1) split: prod.split sum.split)
qed simp

section \<open>Runs of a channel\<close>

inductive chan_step :: "(nat list \<Rightarrow> string option) \<Rightarrow> channel \<Rightarrow> channel \<Rightarrow> bool" for decode where
  chan_call: "chan_step decode s (snd (rpc_call method payload aborted s))"
| chan_finish: "chan_step decode s (finish i code s)"
| chan_receive: "chan_step decode s (receive decode data s)"
| chan_handled: "chan_step decode s (handled k outcome s)"
| chan_expire: "chan_step decode s (expire k s)"
| chan_close: "chan_step decode s (close_channel code s)"
| chan_drain: "chan_step decode s (s\<lparr>ch_writable := n\<rparr>)"

inductive_cases chan_stepE [elim!]: "chan_step decode s s'"

definition chan_ok :: "channel \<Rightarrow> bool" where
  "chan_ok s \<longleftrightarrow>
     0 \<le> ch_next s \<and> distinct (ch_pending s @ map fst (ch_settled s)) \<and>
     set (ch_pending s) \<union> set (map fst (ch_settled s)) = {1..ch_next s} \<and>
     length (ch_pending s) \<le> 16 \<and> length (ch_incoming s) \<le> 16 \<and>
     (ch_closed s \<longrightarrow> ch_pending s = []) \<and> length (ch_closedWith s) = (if ch_closed s then 1 else 0) \<and>
     list_all (\<lambda>t. newline \<notin> set t \<and> (\<exists>f. decodePeerFrame t = Inr f)) (ch_sent s) \<and>
     sorted_wrt (<) (map pf_id (ch_requests s)) \<and>
     list_all (\<lambda>f. pf_id f \<le> ch_lastIncoming s \<and> pf_method f \<in> set main_methods) (ch_requests s)"

lemma chan_ok_close: "chan_ok s \<Longrightarrow> chan_ok (close_channel code s)"
  unfolding chan_ok_def close_channel_def
  by (auto simp: comp_def image_Un image_image split: if_splits)

lemma chan_ok_write: "chan_ok s \<Longrightarrow> write_frame f s = (r, s') \<Longrightarrow> chan_ok s'"
proof -
  assume ok: "chan_ok s" and w: "write_frame f s = (r, s')"
  have "s' = s \<or> s' = close_channel ''p2p.protocol_limit'' s \<or>
      s' = s\<lparr>ch_sent := ch_sent s @ [json_text f]\<rparr> \<and> (\<exists>g. decodePeerFrame (json_text f) = Inr g)"
    using w by (auto simp: write_frame_def Let_def split: if_splits sum.splits)
  then consider "s' = s" | "s' = close_channel ''p2p.protocol_limit'' s"
    | "s' = s\<lparr>ch_sent := ch_sent s @ [json_text f]\<rparr>" "\<exists>g. decodePeerFrame (json_text f) = Inr g" by blast
  then show ?thesis
  proof cases
    case 2
    then show ?thesis using ok chan_ok_close by simp
  next
    case 3
    then show ?thesis using ok json_text_newline(1) [of f] by (simp add: chan_ok_def)
  qed (use ok in simp)
qed

lemma chan_ok_finish: "chan_ok s \<Longrightarrow> chan_ok (finish i code s)"
  by (auto simp: chan_ok_def finish_def distinct_removeAll intro: le_trans [OF length_removeAll_less_eq])

lemma chan_ok_call: "chan_ok s \<Longrightarrow> chan_ok (snd (rpc_call method payload aborted s))"
proof -
  assume ok: "chan_ok s"
  define s1 where "s1 = s\<lparr>ch_next := ch_next s + 1, ch_pending := ch_pending s @ [ch_next s + 1]\<rparr>"
  obtain r s2 where w: "write_frame (frame_value (ch_next s + 1) method payload []) s1 = (r, s2)" by fastforce
  have "chan_ok s1" if "\<not> ch_closed s" "length (ch_pending s) < 16"
  proof -
    have i: "{1..ch_next s + 1} = insert (ch_next s + 1) {1..ch_next s}" using ok by (auto simp: chan_ok_def)
    have u: "set (ch_pending s) \<union> set (map fst (ch_settled s)) = {1..ch_next s}" using ok by (simp add: chan_ok_def)
    then have "ch_next s + 1 \<notin> set (ch_pending s)" "ch_next s + 1 \<notin> set (map fst (ch_settled s))"
      by (metis Un_iff add_le_same_cancel1 atLeastAtMost_iff not_one_le_zero)+
    then show ?thesis using ok that u by (simp add: chan_ok_def s1_def i)
  qed
  then show ?thesis using ok chan_ok_write [OF _ w]
    by (auto simp: rpc_call_def Let_def s1_def [symmetric] w chan_ok_finish split: sum.split)
qed

lemma chan_ok_dispatch: "chan_ok s \<Longrightarrow> dispatch f s = (r, s') \<Longrightarrow> chan_ok s'"
proof -
  assume ok: "chan_ok s" and d: "dispatch f s = (r, s')"
  have s1: "chan_ok (s\<lparr>ch_lastIncoming := pf_id f\<rparr>)" if "ch_lastIncoming s < pf_id f"
    using ok that by (fastforce simp: chan_ok_def list_all_iff)
  have "chan_ok (settle_call f s)"
    using ok by (auto simp: chan_ok_def settle_call_def distinct_removeAll intro: le_trans [OF length_removeAll_less_eq])
  moreover have "chan_ok (s\<lparr>ch_lastIncoming := pf_id f, ch_incoming := ch_incoming s @ [(f, False)], ch_requests := ch_requests s @ [f]\<rparr>)"
    if "length (ch_incoming s) < 16" "ch_lastIncoming s < pf_id f" "pf_method f \<in> set main_methods"
    using ok that by (fastforce simp: chan_ok_def list_all_iff sorted_wrt_append)
  ultimately show ?thesis using d ok s1 chan_ok_write [OF s1]
    by (simp add: dispatch_def Let_def split: if_splits)
qed

lemma chan_ok_receive_loop: "chan_ok s \<Longrightarrow> chan_ok (receive_loop decode data s)"
proof (induction decode data s rule: receive_loop.induct)
  case (1 decode data s)
  have b: "chan_ok (s\<lparr>ch_buffer := b\<rparr>)" for b using "1.prems" by (simp add: chan_ok_def)
  let ?s1 = "s\<lparr>ch_buffer := ch_buffer s @ takeWhile (\<lambda>b. b \<noteq> 10) data\<rparr>"
  obtain r s2 where r: "read_line decode ?s1 = (r, s2)" by fastforce
  have "chan_ok s2" using r chan_ok_dispatch [OF b [of "[]"]] b
    by (auto simp: read_line_def split: option.splits sum.splits)
  then show ?case using 1 b chan_ok_close r
    by (subst receive_loop.simps) (auto simp: Let_def r split: sum.split)
qed

lemma chan_ok_handled: "chan_ok s \<Longrightarrow> chan_ok (handled k outcome s)"
proof -
  assume ok: "chan_ok s"
  have refuse: "chan_ok s'" if "refuse_request f e s0 = (r, s')" "chan_ok s0" for f e r s0 s'
    using that chan_ok_write by (auto simp: refuse_request_def split: if_splits)
  have answer: "chan_ok s'" if "answer_request f aborted outcome s = (r, s')" for f aborted r s'
  proof (cases outcome)
    case (Inl e)
    then show ?thesis using that refuse ok by (simp add: answer_request_def)
  next
    case (Inr payload)
    obtain r1 s1 where w: "write_frame (reply_value f payload []) s = (r1, s1)" by fastforce
    then show ?thesis using that Inr ok refuse chan_ok_write [OF ok w]
      by (cases r1) (auto simp: answer_request_def split: if_splits)
  qed
  have drop: "chan_ok (s'\<lparr>ch_incoming := take k (ch_incoming s') @ drop (Suc k) (ch_incoming s')\<rparr>)" if "chan_ok s'" for s'
    using that by (auto simp: chan_ok_def)
  show ?thesis using ok answer drop chan_ok_close by (auto simp: handled_def Let_def split: prod.split sum.split)
qed

interpretation chan: transition_system "\<lambda>s. s = new_channel" "chan_step decode" chan_ok for decode
proof
  show "chan_ok s" if "s = new_channel" for s using that by (simp add: chan_ok_def new_channel_def)
  show "chan_ok s'" if "chan_step decode s s'" "chan_ok s" for s s'
    using that by (auto simp: receive_def intro: chan_ok_call chan_ok_finish chan_ok_receive_loop chan_ok_handled chan_ok_close)
      (auto simp: chan_ok_def expire_def)
qed

section \<open>Properties\<close>

lemma list_all_choice: "list_all (\<lambda>x. \<exists>y. P x y) xs \<Longrightarrow> \<exists>ys. list_all2 P xs ys"
  by (induction xs) (auto simp: list_all2_Cons1)

lemma frame_decodes:
  assumes "wire_ok 1 payload" "utf8Length (json_text (frame_value i m payload e)) \<le> MAX_PEER_CONTROL_BYTES"
    and "is_safe_integer i" "0 < i" "length m \<le> 80" "e = [] \<or> m = [] \<and> peerErrorCode (JStr e)"
  shows "decodePeerFrame (json_text (frame_value i m payload e)) = Inr \<lparr>pf_id = i, pf_method = m, pf_payload = payload, pf_error = e\<rparr>"
proof -
  have "nat \<bar>1\<bar> < number_limit" by (rule safe_limit) (simp add: is_safe_integer_def max_safe_integer_def)
  then have "wire_ok 0 (frame_value i m payload e)" using assms(1) safe_limit [OF assms(3)] by (simp add: frame_value_def)
  then have "parsePeerJson (json_text (frame_value i m payload e)) = Inr (frame_value i m payload e)"
    using assms(2) by (rule parsePeerJson_print)
  then show ?thesis using assms(3-6) by (auto simp: decodePeerFrame_def frame_value_def exactPeerObject_def)
qed

lemma receive_lines_tail:
  assumes "\<And>t. decode (utf8 t) = Some t" "\<not> ch_closed s" "ch_buffer s = []"
    and "list_all2 (\<lambda>t f. newline \<notin> set t \<and> decodePeerFrame t = Inr f) ts fs"
  shows "receive decode (concat (map wire ts) @ tail) s = receive decode tail (deliver fs s)"
  unfolding receive_append [symmetric] using receive_lines [OF assms(1) assms(2-4)] assms(2) by (simp add: receive_def)

lemma deliver_buffer: "\<not> ch_closed s \<Longrightarrow> ch_buffer s = [] \<Longrightarrow> \<not> ch_closed (deliver fs s) \<Longrightarrow> ch_buffer (deliver fs s) = []"
proof (induction fs arbitrary: s)
  case (Cons f fs)
  obtain r s' where d: "dispatch f s = (r, s')" by fastforce
  then show ?case using Cons dispatch_open [of f s _ s'] by (cases r) auto
qed simp

lemma receive_bad_line:
  assumes "10 \<notin> set bad" "\<forall>t. decode bad = Some t \<longrightarrow> (\<exists>e. decodePeerFrame t = Inl e)" "\<not> ch_closed s" "ch_buffer s = []"
  shows "receive decode (bad @ 10 # rest) s = close_channel ''p2p.protocol_mismatch'' s"
proof -
  have tw: "takeWhile (\<lambda>b. b \<noteq> 10) (bad @ 10 # rest) = bad" "dropWhile (\<lambda>b. b \<noteq> 10) (bad @ 10 # rest) = 10 # rest"
    using assms(1) by (auto simp: takeWhile_append dropWhile_append takeWhile_eq_all_conv split: if_splits)
  have "\<exists>e. read_line decode (s\<lparr>ch_buffer := bad\<rparr>) = (Inl e, s\<lparr>ch_buffer := bad\<rparr>)"
    using assms(2) by (auto simp: read_line_def split: option.split)
  then show ?thesis using assms(3,4)
    by (auto simp: receive_def receive_loop.simps [of decode "bad @ 10 # rest"] tw Let_def close_channel_buffer simp del: dropWhile_eq_Nil_conv)
qed


fun latin1_decode :: "nat list \<Rightarrow> string option" where
  "latin1_decode [] = Some []"
| "latin1_decode (b # bs) =
     (if b < 128 then map_option (Cons (char_of b)) (latin1_decode bs)
      else case bs of
        c # cs \<Rightarrow> (if 194 \<le> b \<and> b < 196 \<and> 128 \<le> c \<and> c < 192
                   then map_option (Cons (char_of ((b - 192) * 64 + (c - 128)))) (latin1_decode cs) else None)
      | [] \<Rightarrow> None)"

lemma latin1_decode_utf8: "latin1_decode (utf8 t) = Some t"
proof (induction t)
  case (Cons c t)
  have c: "char_of (code_unit c) = c" "code_unit c < 256" by (simp_all add: code_unit_def)
  have dec: "latin1_decode (utf8_char c @ bs) = map_option (Cons c) (latin1_decode bs)" for bs
  proof (cases "code_unit c < 128")
    case False
    have "code_unit c div 64 * 64 + code_unit c mod 64 = code_unit c" by simp
    moreover have "2 \<le> code_unit c div 64" "code_unit c div 64 < 4" using c(2) False by linarith+
    ultimately show ?thesis using False c by (simp add: utf8_char_def)
  qed (simp add: utf8_char_def c)
  show ?case using dec [of "utf8 t"] Cons by (simp add: utf8_def)
qed (simp add: utf8_def)

abbreviation sample_reply :: js_value where "sample_reply \<equiv> frame_value 1 [] (JObj []) []"

lemma sample_frames_fit:
  "utf8Length (json_text sample_reply) = 56" "utf8Length (json_text (frame_value 1 ''ping'' (JObj []) [])) = 60"
  by code_simp+

lemma sample_reply_decodes:
  "decodePeerFrame (json_text sample_reply) = Inr \<lparr>pf_id = 1, pf_method = [], pf_payload = JObj [], pf_error = []\<rparr>"
  by (rule frame_decodes)
    (simp_all add: sample_frames_fit MAX_PEER_CONTROL_BYTES_def is_safe_integer_def max_safe_integer_def)


text \<open>
  Every call is settled at most once and no request is handled twice (C24).  In every reachable state of the channel the call numbers
  issued so far are exactly \<open>1..ch_next\<close>, each either waiting or settled once; at most sixteen calls wait and at most sixteen
  requests are in progress; the handler was given requests of the known methods with increasing numbers only; every line
  written is one valid frame; and a closed channel has no waiting call and has told \<open>onClose\<close> exactly once.
\<close>

theorem rpc_calls_settle_once:
  assumes "(chan_step decode)\<^sup>*\<^sup>* new_channel s"
  shows "distinct (ch_pending s @ map fst (ch_settled s)) \<and> set (ch_pending s @ map fst (ch_settled s)) = {1..ch_next s} \<and>
    length (ch_pending s) \<le> 16 \<and> length (ch_incoming s) \<le> 16 \<and>
    sorted_wrt (<) (map pf_id (ch_requests s)) \<and> list_all (\<lambda>f. pf_method f \<in> set main_methods) (ch_requests s) \<and>
    (\<exists>fs. list_all2 (\<lambda>t f. newline \<notin> set t \<and> decodePeerFrame t = Inr f) (ch_sent s) fs) \<and>
    (if ch_closed s then ch_pending s = [] \<and> length (ch_closedWith s) = 1 else ch_closedWith s = [])"
proof -
  have ok: "chan_ok s" by (rule chan.inv_reached [OF refl assms])
  then have "list_all (\<lambda>t. \<exists>f. newline \<notin> set t \<and> decodePeerFrame t = Inr f) (ch_sent s)"
    by (simp add: chan_ok_def list_all_iff)
  then have "\<exists>fs. list_all2 (\<lambda>t f. newline \<notin> set t \<and> decodePeerFrame t = Inr f) (ch_sent s) fs"
    by (rule list_all_choice)
  then show ?thesis using ok by (auto simp: chan_ok_def list_all_iff)
qed

theorem rpc_calls_settle_once_witness:
  "\<exists>s :: channel. ch_closed s \<and> ch_pending s = [] \<and> ch_closedWith s = [''p2p.helper_unavailable''] \<and>
     ch_settled s = [(1, Inl ''p2p.helper_unavailable'')] \<and> length (ch_sent s) = 1 \<and> set (map fst (ch_settled s)) = {1..ch_next s}"
proof -
  define s1 where "s1 = snd (rpc_call ''ping'' (JObj []) False new_channel)"
  define s2 where "s2 = close_channel ''p2p.helper_unavailable'' s1"
  have d: "decodePeerFrame (json_text (frame_value 1 ''ping'' (JObj []) [])) =
      Inr \<lparr>pf_id = 1, pf_method = ''ping'', pf_payload = JObj [], pf_error = []\<rparr>"
    by (rule frame_decodes) (simp_all add: sample_frames_fit MAX_PEER_CONTROL_BYTES_def is_safe_integer_def max_safe_integer_def)
  have s1: "ch_pending s1 = [1]" "ch_settled s1 = []" "length (ch_sent s1) = 1" "\<not> ch_closed s1" "ch_closedWith s1 = []"
    by (simp_all add: s1_def rpc_call_def Let_def new_channel_def write_frame_def d sample_frames_fit max_safe_integer_def)
  have "(chan_step latin1_decode)\<^sup>*\<^sup>* new_channel s2"
    unfolding s2_def s1_def using chan_call chan_close by (meson converse_rtranclp_into_rtranclp r_into_rtranclp)
  from rpc_calls_settle_once [OF this] have "set (ch_pending s2 @ map fst (ch_settled s2)) = {1..ch_next s2}" by blast
  moreover have "ch_pending s2 = []" "ch_closed s2" "ch_closedWith s2 = [''p2p.helper_unavailable'']"
    "ch_settled s2 = [(1, Inl ''p2p.helper_unavailable'')]" "length (ch_sent s2) = 1"
    using s1 by (simp_all add: s2_def close_channel_def)
  ultimately show ?thesis by - (rule exI [of _ s2], simp)
qed

end
