(* ===== verification/Managed_Roots.thy ===== *)
theory Managed_Roots
  imports Peer_Wire
begin

text \<open>
  The Launcher's managed directories: the validation of the root registry (\<open>electron/main/managed/validation.ts\<close>,
  \<open>model.ts\<close>), its strict parser and its store behind the core (\<open>registry.ts\<close>, \<open>electron/main/core/roots.ts\<close>).

  A path is a string.  The operations of Node's \<open>path\<close> module are a record (\<open>path_api\<close>), one for each spelling; \<open>posix_api\<close> defines
  \<open>path.posix\<close>, and \<open>path.win32\<close> is a parameter, as are \<open>normalize('NFKC')\<close> and \<open>JSON.parse\<close>.  Errors keep their code.
\<close>

section \<open>Node's POSIX paths\<close>

datatype path_style = StylePosix | StyleWin32

record path_api =
  pa_isAbsolute :: "string \<Rightarrow> bool"
  pa_normalize :: "string \<Rightarrow> string"
  pa_root :: "string \<Rightarrow> string"                \<comment> \<open>\<open>parse(value).root\<close>\<close>
  pa_relative :: "string \<Rightarrow> string \<Rightarrow> string"
  pa_resolve :: "string list \<Rightarrow> string"
  pa_join :: "string list \<Rightarrow> string"
  pa_sep :: char

abbreviation solidus :: char where "solidus \<equiv> CHR ''/''"

definition posix_isAbsolute :: "string \<Rightarrow> bool" where
  "posix_isAbsolute p \<longleftrightarrow> p \<noteq> [] \<and> hd p = solidus"

definition normal_step :: "bool \<Rightarrow> string \<Rightarrow> string list \<Rightarrow> string list" where
  \<comment> \<open>one segment of \<open>normalizeString\<close>\<close>
  "normal_step up seg res =
     (if seg = [] \<or> seg = ''.'' then res
      else if seg = ''..'' then
        (if res \<noteq> [] \<and> last res \<noteq> ''..'' then butlast res else if up then res @ [''..''] else res)
      else res @ [seg])"

definition normal_segments :: "bool \<Rightarrow> string \<Rightarrow> string list" where
  "normal_segments up p = fold (normal_step up) (js_split solidus p) []"

definition posix_normalize :: "string \<Rightarrow> string" where
  "posix_normalize p =
     (if p = [] then ''.''
      else
       (let absolute = posix_isAbsolute p; trailing = (last p = solidus);
            body = js_join [solidus] (normal_segments (\<not> absolute) p) in
        if body = [] then (if absolute then ''/'' else if trailing then ''./'' else ''.'')
        else (if absolute then ''/'' else []) @ body @ (if trailing then ''/'' else [])))"

definition resolve_segments :: "string \<Rightarrow> string list \<Rightarrow> string list" where
  \<comment> \<open>the segments of \<open>path.resolve(...parts)\<close>: the last absolute part and what follows it, or the working directory\<close>
  "resolve_segments cwd parts =
     (let absolute = filter (\<lambda>i. posix_isAbsolute ((cwd # parts) ! i)) [0..<Suc (length parts)];
          from = (if absolute = [] then 0 else last absolute)
      in normal_segments False (js_join [solidus] (drop from (cwd # parts))))"

definition posix_resolve :: "string \<Rightarrow> string list \<Rightarrow> string" where
  "posix_resolve cwd parts = solidus # js_join [solidus] (resolve_segments cwd parts)"

fun common_length :: "string list \<Rightarrow> string list \<Rightarrow> nat" where
  "common_length (x # xs) (y # ys) = (if x = y then Suc (common_length xs ys) else 0)"
| "common_length _ _ = 0"

definition posix_relative :: "string \<Rightarrow> string \<Rightarrow> string \<Rightarrow> string" where
  "posix_relative cwd from target =
     (let f = resolve_segments cwd [from]; t = resolve_segments cwd [target]; k = common_length f t in
      js_join [solidus] (replicate (length f - k) ''..'' @ drop k t))"

definition posix_join :: "string list \<Rightarrow> string" where
  "posix_join parts = posix_normalize (js_join [solidus] (filter (\<lambda>p. p \<noteq> []) parts))"

definition posix_api :: "string \<Rightarrow> path_api" where
  "posix_api cwd =
     \<lparr>pa_isAbsolute = posix_isAbsolute, pa_normalize = posix_normalize, pa_root = (\<lambda>p. if posix_isAbsolute p then ''/'' else []),
      pa_relative = posix_relative cwd, pa_resolve = posix_resolve cwd, pa_join = posix_join, pa_sep = solidus\<rparr>"

section \<open>Records\<close>

datatype managed_error = ManagedRootError string | OtherError peer_error  \<comment> \<open>an error of another class, such as a refusal of the core\<close>

type_synonym 'a managed = "managed_error + 'a"

definition managed_fail :: "string \<Rightarrow> 'a managed" where
  "managed_fail code = Inl (ManagedRootError code)"

record managed_host =
  mh_api :: "path_style \<Rightarrow> path_api"
  mh_nfkc :: "string \<Rightarrow> string"
  mh_parse :: "string \<Rightarrow> js_value option"

definition MANAGED_ROOT_KINDS :: "string list" where
  "MANAGED_ROOT_KINDS = [''harness'', ''plugins'', ''presets'', ''settings'']"

definition MANAGED_ROOT_REGISTRY_FORMAT :: string where
  "MANAGED_ROOT_REGISTRY_FORMAT = ''dsh-launcher.managed-root-registry''"

definition MANAGED_ROOT_REGISTRY_VERSION :: int where
  "MANAGED_ROOT_REGISTRY_VERSION = 2"

record managed_root =
  mr_rootId :: string
  mr_kind :: string
  mr_canonicalPath :: string

record root_namespace =
  rn_rootId :: string
  rn_namespace :: string

record managed_workspace =
  mw_workspaceId :: string
  mw_displayName :: string
  mw_capabilityId :: string
  mw_directory :: string         \<comment> \<open>\<open>workingDirectoryCanonicalPath\<close>\<close>
  mw_rootNamespaces :: "root_namespace list"

record managed_registry =
  rg_roots :: "managed_root list"
  rg_workspaces :: "managed_workspace list"

section \<open>Validation\<close>

definition opaque_char :: "char \<Rightarrow> bool" where
  "opaque_char c \<longleftrightarrow> (97 \<le> code_unit c \<and> code_unit c \<le> 122) \<or> js_is_digit c \<or> c = CHR ''_'' \<or> c = CHR ''-''"

definition opaque_id :: "string \<Rightarrow> bool" where
  \<comment> \<open>\<open>/^[a-z][a-z0-9_-]{2,127}$/\<close>\<close>
  "opaque_id s \<longleftrightarrow> 3 \<le> length s \<and> length s \<le> 128 \<and> 97 \<le> code_unit (hd s) \<and> code_unit (hd s) \<le> 122 \<and> list_all opaque_char s"

definition assertOpaqueId :: "js_value \<Rightarrow> string managed" where
  "assertOpaqueId v = (case v of JStr s \<Rightarrow> (if opaque_id s then Inr s else managed_fail ''managed.invalid_record'') | _ \<Rightarrow> managed_fail ''managed.invalid_record'')"

definition unsafe_segment_char :: "char \<Rightarrow> bool" where
  \<comment> \<open>a character of \<open>[\u0000-\u001f<>:"|?*]\<close>\<close>
  "unsafe_segment_char c \<longleftrightarrow> code_unit c < 32 \<or> c \<in> set ''<>:|?*'' \<or> c = CHR 0x22"

definition assertWorkspaceNamespace :: "string \<Rightarrow> unit managed" where
  "assertWorkspaceNamespace ns =
     (let segments = js_split solidus ns in
      if ns = [] \<or> length ns > 512 \<or> backslash \<in> set ns then managed_fail ''managed.namespace_invalid''
      else if list_ex (\<lambda>s. s = [] \<or> s = ''.'' \<or> s = ''..'') segments then managed_fail ''managed.namespace_invalid''
      else if list_ex (list_ex unsafe_segment_char) segments then managed_fail ''managed.namespace_invalid''
      else Inr ())"

definition assertCanonicalRootPath :: "managed_host \<Rightarrow> path_style \<Rightarrow> string \<Rightarrow> unit managed" where
  "assertCanonicalRootPath h style p =
     (let api = mh_api h style in
      if p = [] \<or> CHR 0x00 \<in> set p then managed_fail ''managed.root_path_invalid''
      else if \<not> pa_isAbsolute api p \<or> pa_normalize api p \<noteq> p then managed_fail ''managed.root_path_invalid''
      else if pa_root api p = p then managed_fail ''managed.root_path_invalid''
      else Inr ())"

definition assertOutsideHarnessRuntimeHome :: "managed_host \<Rightarrow> path_style \<Rightarrow> string \<Rightarrow> unit managed" where
  "assertOutsideHarnessRuntimeHome h style p =
     (let api = mh_api h style; segments = js_split (pa_sep api) (pa_normalize api p) in
      if list_ex (\<lambda>s. (if style = StyleWin32 then js_lower s else s) = ''.dsh'') segments
      then managed_fail ''managed.dsh_runtime_overlap'' else Inr ())"

definition normalizeForComparison :: "path_style \<Rightarrow> string \<Rightarrow> string" where
  "normalizeForComparison style p = (if style = StyleWin32 then js_lower p else p)"

definition isSameOrAncestor :: "managed_host \<Rightarrow> path_style \<Rightarrow> string \<Rightarrow> string \<Rightarrow> bool" where
  "isSameOrAncestor h style parent child =
     (let api = mh_api h style; p = normalizeForComparison style parent; c = normalizeForComparison style child in
      if p = c then True
      else (let relative = pa_relative api p c in
            relative \<noteq> [] \<and> \<not> prefix ''..'' relative \<and> \<not> pa_isAbsolute api relative))"

definition pathsOverlap :: "managed_host \<Rightarrow> path_style \<Rightarrow> string \<Rightarrow> string \<Rightarrow> bool" where
  "pathsOverlap h style left right \<longleftrightarrow> isSameOrAncestor h style left right \<or> isSameOrAncestor h style right left"

definition isStrictlyInside :: "managed_host \<Rightarrow> path_style \<Rightarrow> string \<Rightarrow> string \<Rightarrow> bool" where
  "isStrictlyInside h style parent child \<longleftrightarrow> parent \<noteq> child \<and> isSameOrAncestor h style parent child"

definition assertOutsideNativeDshHome :: "managed_host \<Rightarrow> path_style \<Rightarrow> string \<Rightarrow> string \<Rightarrow> unit managed" where
  "assertOutsideNativeDshHome h style p native =
     bind_result (assertCanonicalRootPath h style native) (\<lambda>_.
       if pathsOverlap h style p native then managed_fail ''managed.dsh_runtime_overlap'' else Inr ())"

definition check_path :: "managed_host \<Rightarrow> path_style \<Rightarrow> string \<Rightarrow> string \<Rightarrow> unit managed" where
  \<comment> \<open>the three checks every registered path passes\<close>
  "check_path h style native p =
     bind_result (assertCanonicalRootPath h style p) (\<lambda>_. bind_result (assertOutsideHarnessRuntimeHome h style p) (\<lambda>_.
       assertOutsideNativeDshHome h style p native))"

fun layout_checks :: "managed_host \<Rightarrow> path_style \<Rightarrow> string \<Rightarrow> string list \<Rightarrow> string list \<Rightarrow> managed_root list \<Rightarrow> unit managed" where
  "layout_checks h style native kinds ids [] = Inr ()"
| "layout_checks h style native kinds ids (r # rs) =
     bind_result (assertOpaqueId (JStr (mr_rootId r))) (\<lambda>_. bind_result (check_path h style native (mr_canonicalPath r)) (\<lambda>_.
       if mr_kind r \<notin> set MANAGED_ROOT_KINDS then managed_fail ''managed.invalid_record''
       else if mr_kind r \<in> set kinds \<or> mr_rootId r \<in> set ids then managed_fail ''managed.invalid_record''
       else layout_checks h style native (mr_kind r # kinds) (mr_rootId r # ids) rs))"

fun root_pairs :: "managed_host \<Rightarrow> path_style \<Rightarrow> managed_root list \<Rightarrow> unit managed" where
  "root_pairs h style [] = Inr ()"
| "root_pairs h style (r # rs) =
     (if list_ex (\<lambda>r'. pathsOverlap h style (mr_canonicalPath r) (mr_canonicalPath r')) rs then managed_fail ''managed.root_overlap''
      else root_pairs h style rs)"

definition assertManagedRootLayout :: "managed_host \<Rightarrow> path_style \<Rightarrow> string \<Rightarrow> managed_root list \<Rightarrow> unit managed" where
  "assertManagedRootLayout h style native roots =
     (if length roots \<noteq> length MANAGED_ROOT_KINDS then managed_fail ''managed.invalid_record''
      else bind_result (layout_checks h style native [] [] roots) (\<lambda>_. root_pairs h style roots))"

definition assertWorkspaceDisplayName :: "string \<Rightarrow> unit managed" where
  "assertWorkspaceDisplayName s =
     (if s = [] \<or> length s > 160 \<or> js_trim s \<noteq> s \<or> list_ex (\<lambda>c. code_unit c < 32 \<or> code_unit c = 127) s
      then managed_fail ''managed.invalid_record'' else Inr ())"

fun check_namespaces :: "string list \<Rightarrow> string list \<Rightarrow> root_namespace list \<Rightarrow> unit managed" where
  \<comment> \<open>\<open>assertWorkspaceRootNamespace\<close> over the bindings\<close>
  "check_namespaces expected bound [] = Inr ()"
| "check_namespaces expected bound (b # bs) =
     bind_result (assertOpaqueId (JStr (rn_rootId b))) (\<lambda>_. bind_result (assertWorkspaceNamespace (rn_namespace b)) (\<lambda>_.
       if rn_rootId b \<notin> set expected \<or> rn_rootId b \<in> set bound then managed_fail ''managed.invalid_record''
       else check_namespaces expected (rn_rootId b # bound) bs))"

definition assertWorkspaceBinding :: "managed_host \<Rightarrow> path_style \<Rightarrow> string \<Rightarrow> managed_root list \<Rightarrow> managed_workspace \<Rightarrow> unit managed" where
  "assertWorkspaceBinding h style native roots w =
     bind_result (assertOpaqueId (JStr (mw_workspaceId w))) (\<lambda>_. bind_result (assertWorkspaceDisplayName (mw_displayName w)) (\<lambda>_.
     bind_result (assertOpaqueId (JStr (mw_capabilityId w))) (\<lambda>_. bind_result (check_path h style native (mw_directory w)) (\<lambda>_.
       if list_ex (\<lambda>r. pathsOverlap h style (mr_canonicalPath r) (mw_directory w)) roots
         then managed_fail ''managed.working_directory_invalid''
       else if length (mw_rootNamespaces w) \<noteq> length roots then managed_fail ''managed.invalid_record''
       else check_namespaces (map mr_rootId roots) [] (mw_rootNamespaces w)))))"

definition namespaceOverlaps :: "string \<Rightarrow> string \<Rightarrow> bool" where
  "namespaceOverlaps left right \<longleftrightarrow> left = right \<or> prefix (right @ ''/'') left \<or> prefix (left @ ''/'') right"

fun claim_bindings :: "(string \<times> string list) list \<Rightarrow> root_namespace list \<Rightarrow> (string \<times> string list) list managed" where
  "claim_bindings byRoot [] = Inr byRoot"
| "claim_bindings byRoot (b # bs) =
     (let entries = (case map_of byRoot (rn_rootId b) of None \<Rightarrow> [] | Some es \<Rightarrow> es) in
      if list_ex (\<lambda>e. namespaceOverlaps e (rn_namespace b)) entries then managed_fail ''managed.namespace_overlap''
      else claim_bindings (AList.update (rn_rootId b) (entries @ [rn_namespace b]) byRoot) bs)"

fun namespaces_loop :: "string list \<Rightarrow> (string \<times> string list) list \<Rightarrow> managed_workspace list \<Rightarrow> unit managed" where
  "namespaces_loop seen byRoot [] = Inr ()"
| "namespaces_loop seen byRoot (w # ws) =
     (if mw_workspaceId w \<in> set seen then managed_fail ''managed.invalid_record''
      else bind_result (claim_bindings byRoot (mw_rootNamespaces w)) (\<lambda>byRoot'. namespaces_loop (mw_workspaceId w # seen) byRoot' ws))"

definition assertWorkspaceNamespacesDoNotOverlap :: "managed_workspace list \<Rightarrow> unit managed" where
  "assertWorkspaceNamespacesDoNotOverlap ws = namespaces_loop [] [] ws"

fun directories_loop :: "managed_host \<Rightarrow> path_style \<Rightarrow> string list \<Rightarrow> managed_workspace list \<Rightarrow> unit managed" where
  "directories_loop h style seen [] = Inr ()"
| "directories_loop h style seen (w # ws) =
     (let key = js_lower (mh_nfkc h (mw_displayName w)) in
      if key \<in> set seen then managed_fail ''managed.workspace_exists''
      else if list_ex (\<lambda>w'. pathsOverlap h style (mw_directory w) (mw_directory w')) ws
        then managed_fail ''managed.working_directory_invalid''
      else directories_loop h style (key # seen) ws)"

definition assertWorkspaceWorkingDirectoriesDoNotOverlap :: "managed_host \<Rightarrow> path_style \<Rightarrow> managed_workspace list \<Rightarrow> unit managed" where
  "assertWorkspaceWorkingDirectoriesDoNotOverlap h style ws = directories_loop h style [] ws"

definition resolveWorkspaceNamespace :: "managed_host \<Rightarrow> path_style \<Rightarrow> managed_root \<Rightarrow> string \<Rightarrow> string managed" where
  "resolveWorkspaceNamespace h style r ns =
     bind_result (assertWorkspaceNamespace ns) (\<lambda>_.
       let target = pa_resolve (mh_api h style) (mr_canonicalPath r # js_split solidus ns) in
       if \<not> isStrictlyInside h style (mr_canonicalPath r) target then managed_fail ''managed.namespace_invalid'' else Inr target)"

fun each_workspace :: "('a \<Rightarrow> unit managed) \<Rightarrow> 'a list \<Rightarrow> unit managed" where
  "each_workspace f [] = Inr ()"
| "each_workspace f (x # xs) = bind_result (f x) (\<lambda>_. each_workspace f xs)"

definition validateManagedRootRegistry :: "managed_host \<Rightarrow> path_style \<Rightarrow> string \<Rightarrow> managed_registry \<Rightarrow> unit managed" where
  "validateManagedRootRegistry h style native g =
     bind_result (assertManagedRootLayout h style native (rg_roots g)) (\<lambda>_.
     bind_result (each_workspace (assertWorkspaceBinding h style native (rg_roots g)) (rg_workspaces g)) (\<lambda>_.
     bind_result (assertWorkspaceNamespacesDoNotOverlap (rg_workspaces g)) (\<lambda>_.
       assertWorkspaceWorkingDirectoriesDoNotOverlap h style (rg_workspaces g))))"

section \<open>The strict parser\<close>

definition requireFields :: "string list \<Rightarrow> js_value \<Rightarrow> js_value managed" where
  \<comment> \<open>\<open>requireRecord\<close> and \<open>requireExactKeys\<close>\<close>
  "requireFields expected v =
     (case v of
        JObj kvs \<Rightarrow> (if length kvs \<noteq> length expected \<or> \<not> list_all (\<lambda>(k, _). k \<in> set expected) kvs
                     then managed_fail ''managed.invalid_record'' else Inr v)
      | _ \<Rightarrow> managed_fail ''managed.invalid_record'')"

definition parseRoot :: "js_value \<Rightarrow> managed_root managed" where
  "parseRoot v =
     bind_result (requireFields [''rootId'', ''kind'', ''canonicalPath''] v) (\<lambda>r.
     bind_result (assertOpaqueId (js_field r ''rootId'')) (\<lambda>rootId.
       case (js_field r ''kind'', js_field r ''canonicalPath'') of
         (JStr kind, JStr p) \<Rightarrow>
           (if kind \<notin> set MANAGED_ROOT_KINDS then managed_fail ''managed.invalid_record''
            else Inr \<lparr>mr_rootId = rootId, mr_kind = kind, mr_canonicalPath = p\<rparr>)
       | _ \<Rightarrow> managed_fail ''managed.invalid_record''))"

definition parseWorkspaceRootNamespace :: "js_value \<Rightarrow> root_namespace managed" where
  "parseWorkspaceRootNamespace v =
     bind_result (requireFields [''rootId'', ''namespace''] v) (\<lambda>r.
     bind_result (assertOpaqueId (js_field r ''rootId'')) (\<lambda>rootId.
       case js_field r ''namespace'' of
         JStr ns \<Rightarrow> Inr \<lparr>rn_rootId = rootId, rn_namespace = ns\<rparr>
       | _ \<Rightarrow> managed_fail ''managed.invalid_record''))"

definition parseWorkspace :: "js_value \<Rightarrow> managed_workspace managed" where
  "parseWorkspace v =
     bind_result (requireFields [''workspaceId'', ''displayName'', ''workingDirectoryCapabilityId'', ''workingDirectoryCanonicalPath'', ''rootNamespaces''] v) (\<lambda>r.
     bind_result (assertOpaqueId (js_field r ''workspaceId'')) (\<lambda>workspaceId.
       case js_field r ''displayName'' of
         JStr displayName \<Rightarrow>
           bind_result (assertOpaqueId (js_field r ''workingDirectoryCapabilityId'')) (\<lambda>capabilityId.
             case (js_field r ''rootNamespaces'', js_field r ''workingDirectoryCanonicalPath'') of
               (JArr nss, JStr p) \<Rightarrow>
                 bind_result (traverse_result parseWorkspaceRootNamespace nss) (\<lambda>bs.
                   Inr \<lparr>mw_workspaceId = workspaceId, mw_displayName = displayName, mw_capabilityId = capabilityId, mw_directory = p, mw_rootNamespaces = bs\<rparr>)
             | _ \<Rightarrow> managed_fail ''managed.invalid_record'')
       | _ \<Rightarrow> managed_fail ''managed.invalid_record''))"

definition parseManagedRootRegistryValue :: "managed_host \<Rightarrow> path_style \<Rightarrow> string \<Rightarrow> js_value \<Rightarrow> managed_registry managed" where
  "parseManagedRootRegistryValue h style native v =
     bind_result (requireFields [''format'', ''version'', ''roots'', ''workspaces''] v) (\<lambda>r.
       if js_field r ''format'' \<noteq> JStr MANAGED_ROOT_REGISTRY_FORMAT then managed_fail ''managed.invalid_record''
       else if js_field r ''version'' \<noteq> JNum MANAGED_ROOT_REGISTRY_VERSION then managed_fail ''managed.unsupported_version''
       else case (js_field r ''roots'', js_field r ''workspaces'') of
         (JArr rs, JArr ws) \<Rightarrow>
           bind_result (traverse_result parseRoot rs) (\<lambda>roots. bind_result (traverse_result parseWorkspace ws) (\<lambda>workspaces.
             let g = \<lparr>rg_roots = roots, rg_workspaces = workspaces\<rparr> in
             bind_result (validateManagedRootRegistry h style native g) (\<lambda>_. Inr g)))
       | _ \<Rightarrow> managed_fail ''managed.invalid_record'')"

definition parseManagedRootRegistry :: "managed_host \<Rightarrow> path_style \<Rightarrow> string \<Rightarrow> string \<Rightarrow> managed_registry managed" where
  "parseManagedRootRegistry h style native t =
     (case mh_parse h t of None \<Rightarrow> managed_fail ''managed.persistence_failed'' | Some v \<Rightarrow> parseManagedRootRegistryValue h style native v)"

section \<open>The store behind the core\<close>

definition root_value :: "managed_root \<Rightarrow> js_value" where
  "root_value r = JObj [(''rootId'', JStr (mr_rootId r)), (''kind'', JStr (mr_kind r)), (''canonicalPath'', JStr (mr_canonicalPath r))]"

definition workspace_value :: "managed_workspace \<Rightarrow> js_value" where
  "workspace_value w = JObj [(''workspaceId'', JStr (mw_workspaceId w)), (''displayName'', JStr (mw_displayName w)),
     (''workingDirectoryCapabilityId'', JStr (mw_capabilityId w)), (''workingDirectoryCanonicalPath'', JStr (mw_directory w)),
     (''rootNamespaces'', JArr (map (\<lambda>b. JObj [(''rootId'', JStr (rn_rootId b)), (''namespace'', JStr (rn_namespace b))]) (mw_rootNamespaces w)))]"

definition registry_value :: "managed_registry \<Rightarrow> js_value" where
  \<comment> \<open>the object \<open>JSON.stringify\<close> prints\<close>
  "registry_value g = JObj [(''format'', JStr MANAGED_ROOT_REGISTRY_FORMAT), (''version'', JNum MANAGED_ROOT_REGISTRY_VERSION),
     (''roots'', JArr (map root_value (rg_roots g))), (''workspaces'', JArr (map workspace_value (rg_workspaces g)))]"

definition registryOf :: "managed_host \<Rightarrow> path_style \<Rightarrow> string \<Rightarrow> js_value \<Rightarrow> managed_registry managed" where
  "registryOf h style native v =
     (case v of
        JObj kvs \<Rightarrow> (if ''registry'' \<in> set (map fst kvs) then parseManagedRootRegistryValue h style native (js_field v ''registry'')
                     else Inl (OtherError (PeerHelperError ''p2p.invalid_payload'')))
      | _ \<Rightarrow> Inl (OtherError (PeerHelperError ''p2p.invalid_payload'')))"

definition core_answer :: "managed_host \<Rightarrow> path_style \<Rightarrow> string \<Rightarrow> js_value peer_result option \<Rightarrow> managed_registry managed" where
  \<comment> \<open>\<open>CoreRoots.inspect\<close> and \<open>commit\<close> with what the core answered; \<open>None\<close>: the shell has no core\<close>
  "core_answer h style native reply =
     (case reply of
        None \<Rightarrow> managed_fail ''managed.core_unavailable''
      | Some (Inl e) \<Rightarrow> Inl (OtherError e)
      | Some (Inr v) \<Rightarrow> registryOf h style native v)"

definition registry_load :: "managed_host \<Rightarrow> path_style \<Rightarrow> string \<Rightarrow> js_value peer_result option \<Rightarrow> managed_registry managed" where
  "registry_load h style native reply = core_answer h style native reply"

definition registry_save :: "managed_host \<Rightarrow> path_style \<Rightarrow> string \<Rightarrow> js_value peer_result option \<Rightarrow> managed_registry \<Rightarrow> unit managed" where
  "registry_save h style native reply g =
     bind_result (core_answer h style native reply) (\<lambda>committed.
       if json_text (registry_value committed) \<noteq> json_text (registry_value g) then managed_fail ''managed.persistence_failed'' else Inr ())"

section \<open>Canonical POSIX paths\<close>

definition plain_segment :: "string \<Rightarrow> bool" where
  "plain_segment s \<longleftrightarrow> s \<noteq> [] \<and> s \<noteq> ''.'' \<and> s \<noteq> ''..'' \<and> solidus \<notin> set s"

abbreviation path_segments :: "string \<Rightarrow> string list" where
  "path_segments p \<equiv> normal_segments False p"

definition path_of :: "string list \<Rightarrow> string" where
  "path_of S = solidus # js_join [solidus] S"

lemma fold_normal_plain:
  "list_all plain_segment acc \<Longrightarrow> \<forall>s \<in> set ss. solidus \<notin> set s \<Longrightarrow> list_all plain_segment (fold (normal_step False) ss acc)"
proof (induction ss arbitrary: acc)
  case (Cons s ss)
  have "list_all plain_segment (butlast acc)" using Cons.prems(1) by (auto simp: list_all_iff dest: in_set_butlastD)
  moreover have "s = [] \<or> s = ''.'' \<or> s = ''..'' \<or> plain_segment s" using Cons.prems(2) by (auto simp: plain_segment_def)
  ultimately have "list_all plain_segment (normal_step False s acc)" using Cons.prems(1) by (auto simp: normal_step_def)
  then show ?case using Cons by simp
qed simp

lemma path_segments_plain: "list_all plain_segment (path_segments p)"
  unfolding normal_segments_def by (rule fold_normal_plain) (auto dest: js_split_no_sep)

lemma fold_plain: "list_all plain_segment ss \<Longrightarrow> fold (normal_step False) ss acc = acc @ ss"
  by (induction ss arbitrary: acc) (auto simp: normal_step_def plain_segment_def)

lemma plain_no_slash: "list_all plain_segment S \<Longrightarrow> \<forall>x \<in> set S. solidus \<notin> set x"
  by (auto simp: list_all_iff plain_segment_def)

lemma split_join_plain: "list_all plain_segment S \<Longrightarrow> S \<noteq> [] \<Longrightarrow> js_split solidus (js_join [solidus] S) = S"
  by (rule js_split_join) (auto dest: plain_no_slash)

lemma empty_segment [simp]: "normal_step up [] = id"
  by (rule ext) (simp add: normal_step_def)

lemma segments_append: "path_segments (p @ solidus # q) = fold (normal_step False) (js_split solidus q) (path_segments p)"
  by (simp add: normal_segments_def js_split_append)

lemma path_segments_of: "list_all plain_segment S \<Longrightarrow> path_segments (path_of S) = S"
proof (cases "S = []")
  case False
  assume S: "list_all plain_segment S"
  have "path_segments ([] @ solidus # js_join [solidus] S) = S"
    unfolding segments_append using split_join_plain [OF S False] fold_plain [OF S] by (simp add: normal_segments_def)
  then show ?thesis by (simp add: path_of_def)
qed (simp add: path_of_def normal_segments_def)

lemma path_segments_trailing: "path_segments (p @ ''/'') = path_segments p"
  using segments_append [of p "[]"] by simp

lemma join_plain_Nil: "list_all plain_segment S \<Longrightarrow> js_join [solidus] S = [] \<longleftrightarrow> S = []"
  by (rule js_join_eq_Nil) (auto simp: list_all_iff plain_segment_def)

lemma last_join_plain: "list_all plain_segment S \<Longrightarrow> S \<noteq> [] \<Longrightarrow> last (js_join [solidus] S) \<noteq> solidus"
proof (induction "[solidus]" S rule: js_join.induct)
  case (2 x)
  then show ?case by (auto simp: plain_segment_def dest: last_in_set)
next
  case (3 x y ys)
  then show ?case using join_plain_Nil [of "y # ys"] by (auto simp: last_append)
qed simp

definition canonical_path :: "string \<Rightarrow> bool" where
  "canonical_path p \<longleftrightarrow> path_segments p \<noteq> [] \<and> (p = path_of (path_segments p) \<or> p = path_of (path_segments p) @ ''/'')"

lemma path_of_absolute [simp]: "posix_isAbsolute (path_of S)" "posix_isAbsolute (path_of S @ x)"
  by (simp_all add: path_of_def posix_isAbsolute_def)

lemma canonical_absolute: "canonical_path p \<Longrightarrow> posix_isAbsolute p"
  by (metis canonical_path_def path_of_absolute)

lemma normalize_path_of:
  assumes "list_all plain_segment S" "S \<noteq> []"
  shows "posix_normalize (path_of S) = path_of S" "posix_normalize (path_of S @ ''/'') = path_of S @ ''/''"
proof -
  have b: "js_join [solidus] S \<noteq> []" "last (js_join [solidus] S) \<noteq> solidus" using assms join_plain_Nil last_join_plain by blast+
  have l: "last (path_of S) \<noteq> solidus" using b by (simp add: path_of_def)
  have a: "posix_isAbsolute (path_of S)" "posix_isAbsolute (path_of S @ ''/'')" by (rule path_of_absolute)+
  have s: "path_segments (path_of S) = S" "path_segments (path_of S @ ''/'') = S" using assms path_segments_of by (simp_all add: path_segments_trailing)
  show "posix_normalize (path_of S) = path_of S" "posix_normalize (path_of S @ ''/'') = path_of S @ ''/''"
    using a s b l by (simp_all add: posix_normalize_def Let_def) (simp_all add: path_of_def)
qed

lemma canonical_iff:
  assumes "mh_api h StylePosix = posix_api cwd"
  shows "assertCanonicalRootPath h StylePosix p = Inr () \<longleftrightarrow> CHR 0x00 \<notin> set p \<and> canonical_path p"
proof -
  have "canonical_path p" if "p \<noteq> []" "posix_isAbsolute p" "posix_normalize p = p" "p \<noteq> ''/''"
    using that path_segments_plain [of p] join_plain_Nil [of "path_segments p"]
    by (auto simp: posix_normalize_def canonical_path_def path_of_def Let_def split: if_splits)
  moreover have "p \<noteq> [] \<and> posix_isAbsolute p \<and> posix_normalize p = p \<and> p \<noteq> ''/''" if c: "canonical_path p"
    using c canonical_absolute [OF c] normalize_path_of [OF path_segments_plain [of p]] join_plain_Nil [OF path_segments_plain [of p]]
    by (auto simp: canonical_path_def) (auto simp: path_of_def)
  ultimately show ?thesis by (auto simp: assertCanonicalRootPath_def assms posix_api_def Let_def managed_fail_def split: if_splits)
qed

section \<open>Nesting\<close>

lemma resolve_one: "posix_isAbsolute p \<Longrightarrow> resolve_segments cwd [p] = path_segments p"
  by (simp add: resolve_segments_def Let_def upt_rec)

lemma common_length_le: "common_length f t \<le> length f" "common_length f t \<le> length t"
  by (induction f t rule: common_length.induct) auto

lemma common_length_prefix: "common_length f t = length f \<longleftrightarrow> prefix f t"
  by (induction f t rule: common_length.induct) auto

lemma prefix_dots_join:
  assumes "plain_segment y"
  shows "prefix ''..'' (js_join [solidus] (y # ys)) \<longleftrightarrow> prefix ''..'' y"
proof -
  obtain c y' where y: "y = c # y'" using assms by (cases y) (auto simp: plain_segment_def)
  show ?thesis
  proof (cases y')
    case Nil
    then show ?thesis using y by (cases ys) auto
  next
    case (Cons d y'')
    then show ?thesis using y by (cases ys) auto
  qed
qed

definition dotted :: "string list \<Rightarrow> string list \<Rightarrow> bool" where
  \<comment> \<open>the step below the parent has a name that begins with two dots\<close>
  "dotted parent child \<longleftrightarrow> prefix ''..'' (child ! length parent)"

lemma ancestor_iff:
  assumes api: "mh_api h StylePosix = posix_api cwd" and p: "canonical_path p" and c: "canonical_path c"
  shows "isSameOrAncestor h StylePosix p c \<longleftrightarrow>
    p = c \<or> strict_prefix (path_segments p) (path_segments c) \<and> \<not> dotted (path_segments p) (path_segments c)"
proof (cases "p = c")
  case False
  let ?P = "path_segments p" and ?C = "path_segments c"
  let ?k = "common_length ?P ?C"
  have rel: "posix_relative cwd p c = js_join [solidus] (replicate (length ?P - ?k) ''..'' @ drop ?k ?C)"
    using canonical_absolute [OF p] canonical_absolute [OF c] by (simp add: posix_relative_def resolve_one Let_def)
  have same: "isSameOrAncestor h StylePosix p c \<longleftrightarrow>
      (let r = posix_relative cwd p c in r \<noteq> [] \<and> \<not> prefix ''..'' r \<and> \<not> posix_isAbsolute r)"
    using False by (simp add: isSameOrAncestor_def normalizeForComparison_def api posix_api_def Let_def)
  show ?thesis
  proof (cases "prefix ?P ?C")
    case True
    then have k: "?k = length ?P" by (simp add: common_length_prefix)
    show ?thesis
    proof (cases "?P = ?C")
      case True
      then show ?thesis using same rel k False by simp
    next
      case ne: False
      then obtain y ys where d: "drop (length ?P) ?C = y # ys" using True by (cases "drop (length ?P) ?C") (auto simp: prefix_def)
      then have y: "y = ?C ! length ?P" "y \<in> set ?C" by (metis Cons_nth_drop_Suc drop_eq_Nil list.distinct(1) list.inject not_le) (metis d in_set_dropD list.set_intros(1))
      then have "plain_segment y" using path_segments_plain [of c] by (simp add: list_all_iff)
      then have "prefix ''..'' (js_join [solidus] (y # ys)) \<longleftrightarrow> prefix ''..'' y" "js_join [solidus] (y # ys) \<noteq> []" "\<not> posix_isAbsolute (js_join [solidus] (y # ys))"
        using prefix_dots_join [of y ys] by (auto simp: plain_segment_def posix_isAbsolute_def) (cases ys; cases y; auto)+
      then show ?thesis using same rel k d y ne True False by (auto simp: Let_def dotted_def strict_prefix_def)
    qed
  next
    case no: False
    then have "?k < length ?P" using common_length_le(1) [of ?P ?C] common_length_prefix [of ?P ?C] by linarith
    then obtain m where "length ?P - ?k = Suc m" by (metis Suc_diff_Suc)
    then have "prefix ''..'' (posix_relative cwd p c)" unfolding rel by (cases "replicate m ''..'' @ drop ?k ?C") auto
    then show ?thesis using same no False by (auto simp: Let_def strict_prefix_def)
  qed
qed (simp add: isSameOrAncestor_def)

section \<open>Disjoint directories\<close>

definition disjoint_paths :: "string \<Rightarrow> string \<Rightarrow> bool" where
  \<comment> \<open>neither directory is the other or lies in it\<close>
  "disjoint_paths p q \<longleftrightarrow> \<not> prefix (path_segments p) (path_segments q) \<and> \<not> prefix (path_segments q) (path_segments p)"

definition neat :: "string \<Rightarrow> bool" where
  \<comment> \<open>spelt without a final slash, and no name begins with two dots\<close>
  "neat p \<longleftrightarrow> last p \<noteq> solidus \<and> list_all (\<lambda>s. \<not> prefix ''..'' s) (path_segments p)"

lemma disjoint_sym: "disjoint_paths p q \<Longrightarrow> disjoint_paths q p"
  by (simp add: disjoint_paths_def)

lemma neat_spelling: "canonical_path p \<Longrightarrow> neat p \<Longrightarrow> p = path_of (path_segments p)"
  unfolding canonical_path_def neat_def by (metis last_snoc)

lemma neat_dotted: "neat q \<Longrightarrow> strict_prefix (path_segments p) (path_segments q) \<Longrightarrow> \<not> dotted (path_segments p) (path_segments q)"
  using prefix_length_less [of "path_segments p" "path_segments q"] by (simp add: neat_def dotted_def list_all_length)

lemma overlap_neat:
  assumes "mh_api h StylePosix = posix_api cwd" "canonical_path p" "canonical_path q" "neat p" "neat q"
  shows "pathsOverlap h StylePosix p q \<longleftrightarrow> \<not> disjoint_paths p q"
proof -
  have "p = q \<longleftrightarrow> path_segments p = path_segments q" using neat_spelling assms(2-5) by metis
  then show ?thesis using ancestor_iff [OF assms(1)] assms(2-5) neat_dotted
    by (auto simp: pathsOverlap_def disjoint_paths_def strict_prefix_def)
qed

lemma check_path_Inr:
  assumes "mh_api h StylePosix = posix_api cwd" "check_path h StylePosix native p = Inr ()" "neat p" "neat native"
  shows "canonical_path p \<and> canonical_path native \<and> disjoint_paths p native \<and> ''.dsh'' \<notin> set (path_segments p)"
proof -
  have a: "assertCanonicalRootPath h StylePosix p = Inr ()" "assertCanonicalRootPath h StylePosix native = Inr ()"
    "assertOutsideHarnessRuntimeHome h StylePosix p = Inr ()" "\<not> pathsOverlap h StylePosix p native"
    using assms(2) by (auto simp: check_path_def assertOutsideNativeDshHome_def bind_result_Inr managed_fail_def split: if_splits)
  have c: "canonical_path p" "canonical_path native" using a(1,2) canonical_iff [OF assms(1)] by auto
  have S: "path_segments p \<noteq> []" "p = path_of (path_segments p)" using c(1) neat_spelling [OF c(1) assms(3)] by (auto simp: canonical_path_def)
  have "posix_normalize p = p" using normalize_path_of(1) [OF path_segments_plain S(1)] S(2) by simp
  moreover have "js_split solidus p = [] # path_segments p"
    using S js_split_append [of solidus "[]" "js_join [solidus] (path_segments p)"] split_join_plain [OF path_segments_plain S(1)]
    by (simp add: path_of_def)
  ultimately have "''.dsh'' \<notin> set (path_segments p)"
    using a(3) by (auto simp: assertOutsideHarnessRuntimeHome_def assms(1) posix_api_def Let_def managed_fail_def list_ex_iff split: if_splits)
  then show ?thesis using c a(4) overlap_neat [OF assms(1) c assms(3,4)] by blast
qed

lemma layout_checks_Inr:
  assumes "layout_checks h style native kinds ids rs = Inr ()"
  shows "list_all (\<lambda>r. opaque_id (mr_rootId r) \<and> check_path h style native (mr_canonicalPath r) = Inr () \<and> mr_kind r \<in> set MANAGED_ROOT_KINDS) rs \<and>
    distinct (map mr_kind rs) \<and> distinct (map mr_rootId rs) \<and> set (map mr_kind rs) \<inter> set kinds = {} \<and> set (map mr_rootId rs) \<inter> set ids = {}"
  using assms
proof (induction rs arbitrary: kinds ids)
  case (Cons r rs)
  then have "layout_checks h style native (mr_kind r # kinds) (mr_rootId r # ids) rs = Inr ()" "opaque_id (mr_rootId r)"
    "check_path h style native (mr_canonicalPath r) = Inr ()" "mr_kind r \<in> set MANAGED_ROOT_KINDS" "mr_kind r \<notin> set kinds" "mr_rootId r \<notin> set ids"
    by (auto simp: bind_result_Inr assertOpaqueId_def managed_fail_def split: if_splits)
  then show ?case using Cons.IH [of "mr_kind r # kinds" "mr_rootId r # ids"] by auto
qed simp

lemma root_pairs_Inr:
  "root_pairs h style rs = Inr () \<Longrightarrow> sorted_wrt (\<lambda>p q. \<not> pathsOverlap h style p q) (map mr_canonicalPath rs)"
  by (induction rs) (auto simp: managed_fail_def list_ex_iff split: if_splits)

lemma directories_Inr:
  "directories_loop h style seen ws = Inr () \<Longrightarrow> sorted_wrt (\<lambda>p q. \<not> pathsOverlap h style p q) (map mw_directory ws)"
  by (induction ws arbitrary: seen) (auto simp: Let_def managed_fail_def list_ex_iff split: if_splits)

lemma each_workspace_Inr: "each_workspace f xs = Inr () \<longleftrightarrow> list_all (\<lambda>x. f x = Inr ()) xs"
  by (induction xs) (auto simp: bind_result_Inr)

lemma binding_Inr:
  assumes "assertWorkspaceBinding h style native roots w = Inr ()"
  shows "check_path h style native (mw_directory w) = Inr () \<and> list_all (\<lambda>r. \<not> pathsOverlap h style (mr_canonicalPath r) (mw_directory w)) roots \<and>
    length (mw_rootNamespaces w) = length roots \<and> check_namespaces (map mr_rootId roots) [] (mw_rootNamespaces w) = Inr ()"
  using assms by (auto simp: assertWorkspaceBinding_def bind_result_Inr managed_fail_def list_ex_iff list_all_iff split: if_splits)

lemma validate_Inr:
  assumes "validateManagedRootRegistry h style native g = Inr ()"
  shows "length (rg_roots g) = length MANAGED_ROOT_KINDS" "layout_checks h style native [] [] (rg_roots g) = Inr ()" "root_pairs h style (rg_roots g) = Inr ()"
    "list_all (\<lambda>w. assertWorkspaceBinding h style native (rg_roots g) w = Inr ()) (rg_workspaces g)"
    "namespaces_loop [] [] (rg_workspaces g) = Inr ()" "directories_loop h style [] (rg_workspaces g) = Inr ()"
  using assms by (auto simp: validateManagedRootRegistry_def assertManagedRootLayout_def assertWorkspaceNamespacesDoNotOverlap_def
      assertWorkspaceWorkingDirectoriesDoNotOverlap_def bind_result_Inr each_workspace_Inr managed_fail_def split: if_splits)

lemma sorted_wrt_overlap:
  assumes "mh_api h StylePosix = posix_api cwd" "list_all canonical_path ps" "list_all neat ps" "sorted_wrt (\<lambda>p q. \<not> pathsOverlap h StylePosix p q) ps"
  shows "sorted_wrt disjoint_paths ps"
  using assms(2-4) by (induction ps) (auto simp: overlap_neat [OF assms(1)] list_all_iff)

text \<open>
  An accepted registry keeps its directories apart (C25).  On POSIX paths, when the registry is accepted and every path is spelt without a final slash and without a
  name beginning with two dots, there is exactly one root of each of the four kinds, no root or working directory passes through a
  directory \<open>.dsh\<close>, and the native Harness home, the four roots and the working directories of all workspaces are pairwise disjoint: none is or lies in another.
\<close>

theorem registry_directories_disjoint:
  assumes "mh_api h StylePosix = posix_api cwd" "validateManagedRootRegistry h StylePosix native g = Inr ()"
    and "list_all neat (native # map mr_canonicalPath (rg_roots g) @ map mw_directory (rg_workspaces g))"
  shows "sorted_wrt disjoint_paths (native # map mr_canonicalPath (rg_roots g) @ map mw_directory (rg_workspaces g)) \<and>
    distinct (map mr_kind (rg_roots g)) \<and> set (map mr_kind (rg_roots g)) = set MANAGED_ROOT_KINDS \<and>
    list_all (\<lambda>p. ''.dsh'' \<notin> set (path_segments p)) (map mr_canonicalPath (rg_roots g) @ map mw_directory (rg_workspaces g))"
proof -
  note v = validate_Inr [OF assms(2)] and l = layout_checks_Inr [OF validate_Inr(2) [OF assms(2)]]
  let ?rs = "map mr_canonicalPath (rg_roots g)" and ?ds = "map mw_directory (rg_workspaces g)"
  have neat: "list_all neat ?rs" "list_all neat ?ds" "neat native" using assms(3) by auto
  have rs: "\<forall>p \<in> set ?rs. check_path h StylePosix native p = Inr ()" using l by (auto simp: list_all_iff)
  have ds: "\<forall>p \<in> set ?ds. check_path h StylePosix native p = Inr ()" using v(4) by (auto simp: list_all_iff dest!: binding_Inr)
  have good: "canonical_path p \<and> disjoint_paths native p \<and> ''.dsh'' \<notin> set (path_segments p)" if "p \<in> set ?rs \<union> set ?ds" for p
    using check_path_Inr [OF assms(1), of native p] that rs ds neat disjoint_sym by (auto simp: list_all_iff)
  have "sorted_wrt disjoint_paths ?rs" "sorted_wrt disjoint_paths ?ds"
    using sorted_wrt_overlap [OF assms(1)] good neat root_pairs_Inr [OF v(3)] directories_Inr [OF v(6)] by (auto simp: list_all_iff)
  moreover have "disjoint_paths p q" if "p \<in> set ?rs" "q \<in> set ?ds" for p q
    using that v(4) good [of p] good [of q] neat overlap_neat [OF assms(1), of p q] by (auto simp: list_all_iff dest!: binding_Inr)
  moreover have "set (map mr_kind (rg_roots g)) = set MANAGED_ROOT_KINDS"
  proof (rule card_subset_eq)
    show "card (set (map mr_kind (rg_roots g))) = card (set MANAGED_ROOT_KINDS)"
      using l v(1) distinct_card [of "map mr_kind (rg_roots g)"] by (simp add: MANAGED_ROOT_KINDS_def)
  qed (use l in \<open>auto simp: list_all_iff\<close>)
  ultimately show ?thesis using good l by (auto simp: sorted_wrt_append list_all_iff)
qed

section \<open>Workspace directories\<close>

lemma namespace_Inr:
  assumes "assertWorkspaceNamespace ns = Inr ()"
  shows "list_all plain_segment (js_split solidus ns) \<and> ns = js_join [solidus] (js_split solidus ns)"
  using assms js_split_no_sep
  by (fastforce simp: assertWorkspaceNamespace_def Let_def managed_fail_def list_ex_iff list_all_iff plain_segment_def split: if_splits)

lemma resolve_namespace:
  assumes p: "canonical_path p" and N: "list_all plain_segment N"
  shows "resolve_segments cwd (p # N) = path_segments p @ N"
proof -
  have rel: "\<not> posix_isAbsolute s" if "s \<in> set N" for s using that N unfolding list_all_iff plain_segment_def posix_isAbsolute_def by (metis hd_in_set)
  have "filter (\<lambda>i. posix_isAbsolute ((cwd # p # N) ! i)) [2..<Suc (length (p # N))] = []"
    using rel by (auto simp: filter_empty_conv nth_Cons split: nat.split)
  moreover have "[0..<Suc (length (p # N))] = 0 # 1 # [2..<Suc (length (p # N))]" by (simp add: upt_rec numeral_2_eq_2)
  ultimately have "resolve_segments cwd (p # N) = path_segments (js_join [solidus] (p # N))"
    using canonical_absolute [OF p] by (simp add: resolve_segments_def Let_def del: upt_Suc)
  also have "\<dots> = path_segments p @ N"
  proof (cases "N = []")
    case False
    then have "js_join [solidus] (p # N) = p @ solidus # js_join [solidus] N" by (simp add: js_join_Cons)
    then show ?thesis using split_join_plain [OF N False] fold_plain [OF N] by (simp add: segments_append)
  qed simp
  finally show ?thesis .
qed

lemma resolve_namespace_Inr:
  assumes "mh_api h StylePosix = posix_api cwd" "canonical_path (mr_canonicalPath r)" "resolveWorkspaceNamespace h StylePosix r ns = Inr d"
  shows "assertWorkspaceNamespace ns = Inr () \<and> path_segments d = path_segments (mr_canonicalPath r) @ js_split solidus ns \<and>
    d = path_of (path_segments (mr_canonicalPath r) @ js_split solidus ns)"
proof -
  have ns: "assertWorkspaceNamespace ns = Inr ()" and d: "d = posix_resolve cwd (mr_canonicalPath r # js_split solidus ns)"
    using assms(1,3) by (auto simp: resolveWorkspaceNamespace_def posix_api_def bind_result_Inr Let_def managed_fail_def split: if_splits)
  have N: "list_all plain_segment (js_split solidus ns)" using namespace_Inr [OF ns] by blast
  then have "d = path_of (path_segments (mr_canonicalPath r) @ js_split solidus ns)"
    using resolve_namespace [OF assms(2) N] by (simp add: d posix_resolve_def path_of_def)
  then show ?thesis using ns path_segments_of [of "path_segments (mr_canonicalPath r) @ js_split solidus ns"] N path_segments_plain by simp
qed

lemma overlap_segments:
  assumes "ns = js_join [solidus] N" "ns' = js_join [solidus] N'" "list_all plain_segment N" "list_all plain_segment N'" "N \<noteq> []" "prefix N N'"
  shows "namespaceOverlaps ns ns'"
proof (cases "N = N'")
  case False
  then obtain M where "N' = N @ M" "M \<noteq> []" using assms(6) by (auto simp: prefix_def)
  then have "ns' = (ns @ ''/'') @ js_join [solidus] M" using assms(1,2,5) by (simp add: js_join_append)
  then show ?thesis by (auto simp: namespaceOverlaps_def)
qed (simp add: namespaceOverlaps_def assms)

definition claimed :: "(string \<times> string list) list \<Rightarrow> string \<Rightarrow> string list" where
  "claimed byRoot i = (case map_of byRoot i of None \<Rightarrow> [] | Some es \<Rightarrow> es)"

lemma claim_step:
  assumes "claim_bindings byRoot (b # bs) = Inr byRoot'"
  obtains nxt where "claim_bindings nxt bs = Inr byRoot'" "list_all (\<lambda>e. \<not> namespaceOverlaps e (rn_namespace b)) (claimed byRoot (rn_rootId b))"
    "\<And>i. claimed nxt i = (if i = rn_rootId b then claimed byRoot i @ [rn_namespace b] else claimed byRoot i)"
proof
  let ?n = "AList.update (rn_rootId b) (claimed byRoot (rn_rootId b) @ [rn_namespace b]) byRoot"
  show "claim_bindings ?n bs = Inr byRoot'" "list_all (\<lambda>e. \<not> namespaceOverlaps e (rn_namespace b)) (claimed byRoot (rn_rootId b))"
    using assms by (auto simp: Let_def claimed_def managed_fail_def list_ex_iff list_all_iff split: if_splits)
  show "claimed ?n i = (if i = rn_rootId b then claimed byRoot i @ [rn_namespace b] else claimed byRoot i)" for i
    by (simp add: claimed_def update_conv')
qed

lemma claim_mono: "claim_bindings byRoot bs = Inr byRoot' \<Longrightarrow> set (claimed byRoot i) \<subseteq> set (claimed byRoot' i)"
proof (induction bs arbitrary: byRoot)
  case (Cons b bs)
  from Cons.prems obtain nxt where "claim_bindings nxt bs = Inr byRoot'"
    "\<And>i. claimed nxt i = (if i = rn_rootId b then claimed byRoot i @ [rn_namespace b] else claimed byRoot i)" by (rule claim_step) blast
  then show ?case using Cons.IH [of nxt] by (auto split: if_splits)
qed simp

lemma claim_Inr:
  assumes "claim_bindings byRoot bs = Inr byRoot'" "b \<in> set bs"
  shows "list_all (\<lambda>e. \<not> namespaceOverlaps e (rn_namespace b)) (claimed byRoot (rn_rootId b)) \<and> rn_namespace b \<in> set (claimed byRoot' (rn_rootId b))"
  using assms
proof (induction bs arbitrary: byRoot)
  case (Cons b' bs)
  from Cons.prems(1) obtain nxt where c: "claim_bindings nxt bs = Inr byRoot'" "list_all (\<lambda>e. \<not> namespaceOverlaps e (rn_namespace b')) (claimed byRoot (rn_rootId b'))"
    "\<And>i. claimed nxt i = (if i = rn_rootId b' then claimed byRoot i @ [rn_namespace b'] else claimed byRoot i)" by (rule claim_step) blast
  show ?case
  proof (cases "b = b'")
    case True
    then show ?thesis using c claim_mono [OF c(1), of "rn_rootId b'"] by auto
  next
    case False
    then have "b \<in> set bs" using Cons.prems(2) by simp
    from Cons.IH [OF c(1) this] show ?thesis by (auto simp: c(3) split: if_splits)
  qed
qed simp

lemma namespaces_Inr:
  assumes "namespaces_loop seen byRoot ws = Inr ()"
  shows "sorted_wrt (\<lambda>w w'. \<forall>b \<in> set (mw_rootNamespaces w). \<forall>b' \<in> set (mw_rootNamespaces w').
      rn_rootId b = rn_rootId b' \<longrightarrow> \<not> namespaceOverlaps (rn_namespace b) (rn_namespace b')) ws \<and>
    (\<forall>w \<in> set ws. \<forall>b \<in> set (mw_rootNamespaces w). list_all (\<lambda>e. \<not> namespaceOverlaps e (rn_namespace b)) (claimed byRoot (rn_rootId b)))"
  using assms
proof (induction ws arbitrary: seen byRoot)
  case (Cons w ws)
  then obtain byRoot' where c: "claim_bindings byRoot (mw_rootNamespaces w) = Inr byRoot'" "namespaces_loop (mw_workspaceId w # seen) byRoot' ws = Inr ()"
    by (auto simp: bind_result_Inr managed_fail_def split: if_splits)
  note ih = Cons.IH [OF c(2)]
  have own: "list_all (\<lambda>e. \<not> namespaceOverlaps e (rn_namespace b)) (claimed byRoot (rn_rootId b))" "rn_namespace b \<in> set (claimed byRoot' (rn_rootId b))"
    if "b \<in> set (mw_rootNamespaces w)" for b using claim_Inr [OF c(1) that] by auto
  have "\<not> namespaceOverlaps (rn_namespace b) (rn_namespace b')"
    if "b \<in> set (mw_rootNamespaces w)" "w' \<in> set ws" "b' \<in> set (mw_rootNamespaces w')" "rn_rootId b = rn_rootId b'" for b w' b'
    using ih own(2) [OF that(1)] that by (fastforce simp: list_all_iff)
  moreover have "list_all (\<lambda>e. \<not> namespaceOverlaps e (rn_namespace b)) (claimed byRoot (rn_rootId b))"
    if "w' \<in> set ws" "b \<in> set (mw_rootNamespaces w')" for w' b
    using ih that claim_mono [OF c(1), of "rn_rootId b"] by (fastforce simp: list_all_iff)
  ultimately show ?case using ih own(1) by auto
qed simp

lemma sorted_wrt_either:
  assumes "sorted_wrt P xs" "\<And>x y. P x y \<Longrightarrow> P y x" "i < length xs" "j < length xs" "i \<noteq> j"
  shows "P (xs ! i) (xs ! j)"
  using assms sorted_wrt_nth_less [OF assms(1)] by (metis linorder_neqE_nat)

lemma roots_disjoint:
  assumes "mh_api h StylePosix = posix_api cwd" "validateManagedRootRegistry h StylePosix native g = Inr ()"
    "list_all neat (native # map mr_canonicalPath (rg_roots g))" "r \<in> set (rg_roots g)" "r' \<in> set (rg_roots g)" "r \<noteq> r'"
  shows "canonical_path (mr_canonicalPath r) \<and> disjoint_paths (mr_canonicalPath r) (mr_canonicalPath r') \<and> mr_rootId r \<noteq> mr_rootId r'"
proof -
  note v = validate_Inr [OF assms(2)] and l = layout_checks_Inr [OF validate_Inr(2) [OF assms(2)]]
  let ?rs = "map mr_canonicalPath (rg_roots g)"
  have good: "list_all canonical_path ?rs"
    using l assms(3) check_path_Inr [OF assms(1), of native] by (auto simp: list_all_iff)
  then have s: "sorted_wrt disjoint_paths ?rs" using sorted_wrt_overlap [OF assms(1)] assms(3) root_pairs_Inr [OF v(3)] by simp
  obtain i j where ij: "i < length (rg_roots g)" "rg_roots g ! i = r" "j < length (rg_roots g)" "rg_roots g ! j = r'" "i \<noteq> j"
    using assms(4-6) by (metis in_set_conv_nth)
  have "disjoint_paths (?rs ! i) (?rs ! j)" by (rule sorted_wrt_either [OF s disjoint_sym]) (use ij in auto)
  moreover have "mr_rootId r \<noteq> mr_rootId r'" using nth_eq_iff_index_eq [of "map mr_rootId (rg_roots g)" i j] l ij by auto
  ultimately show ?thesis using ij good assms(4) by (auto simp: list_all_iff)
qed

lemma namespaceOverlaps_sym: "namespaceOverlaps a b = namespaceOverlaps b a"
  by (auto simp: namespaceOverlaps_def)

lemma disjoint_below:
  assumes "disjoint_paths p q" "path_segments d = path_segments p @ N" "path_segments e = path_segments q @ M"
  shows "disjoint_paths d e"
  using assms(1) unfolding disjoint_paths_def assms(2,3) by (metis append_prefixD prefixI prefix_same_cases)


text \<open>
  Two spellings escape the overlap check (C40).  For every accepted canonical path, the same path with a final slash is accepted too and names the same
  directory, and so is every path to a directory in it whose name begins with two dots; but neither pair is reported as overlapping.
  And a workspace namespace whose name begins with two dots, which the namespace rule admits, is refused as
  escaping its root although it does not.
\<close>

theorem spelling_evades_overlap:
  assumes "mh_api h StylePosix = posix_api cwd" "assertCanonicalRootPath h StylePosix p = Inr ()" "last p \<noteq> solidus"
    and "plain_segment n" "prefix ''..'' n" "CHR 0x00 \<notin> set n"
  shows "assertCanonicalRootPath h StylePosix (p @ ''/'') = Inr () \<and> path_segments (p @ ''/'') = path_segments p \<and>
    \<not> pathsOverlap h StylePosix p (p @ ''/'') \<and>
    assertCanonicalRootPath h StylePosix (p @ ''/'' @ n) = Inr () \<and> path_segments (p @ ''/'' @ n) = path_segments p @ [n] \<and>
    \<not> pathsOverlap h StylePosix p (p @ ''/'' @ n) \<and>
    (assertWorkspaceNamespace n = Inr () \<and> mr_canonicalPath r = p \<longrightarrow>
       resolveWorkspaceNamespace h StylePosix r n = managed_fail ''managed.namespace_invalid'')"
proof -
  note can = canonical_iff [OF assms(1)] and anc = ancestor_iff [OF assms(1)]
  have p: "canonical_path p" "CHR 0x00 \<notin> set p" using assms(2) can by auto
  let ?S = "path_segments p"
  have S: "p = path_of ?S" "?S \<noteq> []" using p(1) assms(3) unfolding canonical_path_def by (metis last_snoc, blast)
  have sl: "path_segments (p @ ''/'') = ?S" by (rule path_segments_trailing)
  have c1: "canonical_path (p @ ''/'')" using S unfolding canonical_path_def sl by simp
  have sn: "path_segments (p @ ''/'' @ n) = ?S @ [n]"
    using segments_append [of p n] assms(4) js_split_single [of solidus n] by (auto simp: normal_step_def plain_segment_def)
  have pn: "p @ ''/'' @ n = path_of (?S @ [n])" using S by (subst S(1)) (simp add: path_of_def js_join_append)
  have c2: "canonical_path (p @ ''/'' @ n)" unfolding canonical_path_def sn using pn by simp
  have dot: "dotted ?S (?S @ [n])" using assms(5) by (simp add: dotted_def)
  have o1: "\<not> pathsOverlap h StylePosix p (p @ ''/'')" using anc [OF p(1) c1] anc [OF c1 p(1)] by (simp add: pathsOverlap_def sl)
  have o2: "\<not> pathsOverlap h StylePosix p (p @ ''/'' @ n)"
    unfolding pathsOverlap_def anc [OF p(1) c2] anc [OF c2 p(1)] sn using dot by (simp add: strict_prefix_def)
  have "resolveWorkspaceNamespace h StylePosix r n = managed_fail ''managed.namespace_invalid''"
    if "assertWorkspaceNamespace n = Inr ()" "mr_canonicalPath r = p"
  proof -
    have "js_split solidus n = [n]" using assms(4) by (simp add: js_split_single plain_segment_def)
    then have "pa_resolve (mh_api h StylePosix) (p # js_split solidus n) = p @ ''/'' @ n"
      using resolve_namespace [OF p(1), of "[n]" cwd] assms(1,4) pn by (simp add: posix_api_def posix_resolve_def path_of_def)
    moreover have "\<not> isStrictlyInside h StylePosix p (p @ ''/'' @ n)"
      unfolding isStrictlyInside_def anc [OF p(1) c2] sn using dot by simp
    ultimately show ?thesis using that by (simp add: resolveWorkspaceNamespace_def Let_def)
  qed
  then show ?thesis using can c1 c2 p(2) assms(6) sl sn o1 o2 by auto
qed

section \<open>Examples\<close>

definition sample_managed_host :: managed_host where
  "sample_managed_host = \<lparr>mh_api = (\<lambda>_. posix_api ''/''), mh_nfkc = id, mh_parse = (\<lambda>_. None)\<rparr>"

definition sample_roots :: "string list \<Rightarrow> managed_root list" where
  "sample_roots ps = map (\<lambda>(k, p). \<lparr>mr_rootId = ''root_'' @ k, mr_kind = k, mr_canonicalPath = p\<rparr>) (zip MANAGED_ROOT_KINDS ps)"

definition sample_workspace :: "string \<Rightarrow> managed_workspace" where
  "sample_workspace i = \<lparr>mw_workspaceId = ''workspace_'' @ i, mw_displayName = i, mw_capabilityId = ''cap_'' @ i, mw_directory = ''/w/'' @ i,
     mw_rootNamespaces = map (\<lambda>k. \<lparr>rn_rootId = ''root_'' @ k, rn_namespace = ''workspaces/'' @ i\<rparr>) MANAGED_ROOT_KINDS\<rparr>"

definition sample_registry :: managed_registry where
  "sample_registry = \<lparr>rg_roots = sample_roots [''/d/h'', ''/d/p'', ''/d/t'', ''/d/s''], rg_workspaces = [sample_workspace ''one'', sample_workspace ''two'']\<rparr>"

lemma sample_registry_valid:
  "validateManagedRootRegistry sample_managed_host StylePosix ''/u/.dsh'' sample_registry = Inr ()"
  "list_all neat (''/u/.dsh'' # map mr_canonicalPath (rg_roots sample_registry) @ map mw_directory (rg_workspaces sample_registry))"
  "mh_api sample_managed_host StylePosix = posix_api ''/''"
  by (code_simp, code_simp, simp add: sample_managed_host_def)

theorem registry_directories_disjoint_witness:
  "sorted_wrt disjoint_paths [''/u/.dsh'', ''/d/h'', ''/d/p'', ''/d/t'', ''/d/s'', ''/w/one'', ''/w/two'']"
proof -
  have "''/u/.dsh'' # map mr_canonicalPath (rg_roots sample_registry) @ map mw_directory (rg_workspaces sample_registry) =
      [''/u/.dsh'', ''/d/h'', ''/d/p'', ''/d/t'', ''/d/s'', ''/w/one'', ''/w/two'']" by code_simp
  then show ?thesis using registry_directories_disjoint [OF sample_registry_valid(3,1,2)] by simp
qed


theorem spelling_evades_overlap_witness:
  "validateManagedRootRegistry sample_managed_host StylePosix ''/u/.dsh''
     \<lparr>rg_roots = sample_roots [''/d'', ''/d/'', ''/d/..p'', ''/s''], rg_workspaces = []\<rparr> = Inr () \<and>
   path_segments ''/d/'' = path_segments ''/d'' \<and> \<not> pathsOverlap sample_managed_host StylePosix ''/d'' ''/d/..p''"
proof -
  have "validateManagedRootRegistry sample_managed_host StylePosix ''/u/.dsh''
     \<lparr>rg_roots = sample_roots [''/d'', ''/d/'', ''/d/..p'', ''/s''], rg_workspaces = []\<rparr> = Inr ()" by code_simp
  moreover have "assertCanonicalRootPath sample_managed_host StylePosix ''/d'' = Inr ()" "plain_segment ''..p''" by code_simp+
  ultimately show ?thesis
    using spelling_evades_overlap [OF sample_registry_valid(3), of "''/d''" "''..p''"] by simp
qed

end
