(* ===== verification/Spec2Isabelle.thy ===== *)
theory Spec2Isabelle
  imports Vfs_Memory Statlog Launcher_Update Peer_Catalog Runtime_Browser Runtime_Host Peer_Rpc Managed_Roots
begin

text \<open>
  A verification development for DSHKer Launcher.
\<close>


definition sample_connected :: remote_pool where
  "sample_connected = fold exec
     [EvRoute True, EvStart (OpConnect sample_id), EvReply 0 (Inr (remote_catalog sample_id)), EvReply 0 (Inr (remote_catalog sample_id)),
      EvReply 0 (Inr (JObj [])), EvReply 0 (Inr (JObj [(''url'', JStr ''http://127.0.0.1:41000/'')])),
      EvReply 0 (Inr (remote_catalog sample_id)),
      EvReply 0 (Inr (JObj [(''present'', JBool True), (''url'', JStr ''http://127.0.0.1:41000/'')]))] (new_pool ''remote.json'')"

definition sample_ssh_browser :: browser where
  "sample_ssh_browser = new_browser\<lparr>br_connections := last (rs_emitted (rp_service sample_connected)), br_opened := [RemoteTab sample_id]\<rparr>"


end
